(* ===== verification/Mirror_Prelude.thy ===== *)
theory Mirror_Prelude
  imports Main "HOL-Library.Word"
begin

unbundle bit_operations_syntax

text \<open>
  Shared vocabulary of the development: the Go types the components use (fixed-width
  integers as words, strings as byte sequences), Go's \<open>error\<close> values and panics, the
  few functions of Go's standard library that the code calls (\<open>strconv.FormatInt\<close>,
  \<open>strings.HasPrefix\<close>, \<open>strings.HasSuffix\<close>, \<open>strings.Index\<close>, the truncated
  remainder), and the generic lemmas on words, lists and strings that several component
  theories share.
\<close>

section \<open>Types\<close>

type_synonym byte = "8 word"
type_synonym uint16 = "16 word"
type_synonym int32 = "32 word"
type_synonym int64 = "64 word"

text \<open>
  An \<open>error\<close> value is a format string with its arguments, or such a message that wraps
  another error (the \<open>%w\<close> verb). The two errors a context can carry have constructors of
  their own, since the code compares against them.
\<close>

datatype go_error =
    Errorf string "string list"
  | Wrapf string "string list" go_error
  | Canceled
  | DeadlineExceeded

text \<open>A call that returns a value, returns an error, or panics.\<close>

datatype 'a outcome = Ret 'a | Fail go_error | Panic string

named_theorems wire_simps
named_theorems store_simps
named_theorems ring_simps
named_theorems str_simps

section \<open>Functions of Go's standard library\<close>

text \<open>\<open>strconv.FormatInt(i, 10)\<close> and the \<open>%d\<close> verb.\<close>

definition digit_char :: "nat \<Rightarrow> char" where
  "digit_char n = char_of (48 + n)"

fun nat_digits :: "nat \<Rightarrow> string" where
  "nat_digits n = (if n < 10 then [digit_char n] else nat_digits (n div 10) @ [digit_char (n mod 10)])"

declare nat_digits.simps [simp del]

definition itoa :: "int \<Rightarrow> string" where
  "itoa i = (if i < 0 then CHR ''-'' # nat_digits (nat (- i)) else nat_digits (nat i))"

text \<open>\<open>strings.HasPrefix\<close>, \<open>strings.HasSuffix\<close> and \<open>strings.Index\<close> (\<open>-1\<close> is \<open>None\<close>).\<close>

definition HasPrefix :: "string \<Rightarrow> string \<Rightarrow> bool" where
  "HasPrefix s p \<longleftrightarrow> length p \<le> length s \<and> take (length p) s = p"

definition HasSuffix :: "string \<Rightarrow> string \<Rightarrow> bool" where
  "HasSuffix s p \<longleftrightarrow> length p \<le> length s \<and> drop (length s - length p) s = p"

fun Index :: "string \<Rightarrow> string \<Rightarrow> nat option" where
  "Index [] sep = (if sep = [] then Some 0 else None)"
| "Index (c # cs) sep =
     (if HasPrefix (c # cs) sep then Some 0 else map_option Suc (Index cs sep))"

text \<open>Go's \<open>/\<close> and \<open>%\<close> on signed integers truncate towards zero.\<close>

definition go_div :: "int \<Rightarrow> int \<Rightarrow> int" where
  "go_div a b = sgn a * sgn b * (\<bar>a\<bar> div \<bar>b\<bar>)"

definition go_rem :: "int \<Rightarrow> int \<Rightarrow> int" where
  "go_rem a b = sgn a * (\<bar>a\<bar> mod \<bar>b\<bar>)"

text \<open>\<open>[]byte(s)\<close> and \<open>string(b)\<close>: a Go string is a sequence of bytes, as a HOL string is.\<close>

definition byte_of_char :: "char \<Rightarrow> byte" where
  "byte_of_char c = word_of_nat (of_char c)"

definition char_of_byte :: "byte \<Rightarrow> char" where
  "char_of_byte b = char_of (unat b)"

definition bytes_of_string :: "string \<Rightarrow> byte list" where
  "bytes_of_string = map byte_of_char"

definition string_of_bytes :: "byte list \<Rightarrow> string" where
  "string_of_bytes = map char_of_byte"

text \<open>
  The text of an error, \<open>err.Error()\<close>: the verbs of the format consume the arguments in order,
  \<open>%w\<close> stands for the wrapped error and \<open>%q\<close> puts its argument in double quotes.
\<close>

fun go_format :: "string \<Rightarrow> string list \<Rightarrow> string \<Rightarrow> string" where
  "go_format [] args w = []"
| "go_format [c] args w = [c]"
| "go_format (c # v # rest) args w =
     (if c \<noteq> CHR ''%'' then c # go_format (v # rest) args w
      else if v = CHR ''w'' then w @ go_format rest args w
      else case args of
        [] \<Rightarrow> c # v # go_format rest args w
      | a # as \<Rightarrow> (if v = CHR ''q'' then [CHR 0x22] @ a @ [CHR 0x22] else a) @ go_format rest as w)"

fun err_text :: "go_error \<Rightarrow> string" where
  "err_text (Errorf f args) = go_format f args []"
| "err_text (Wrapf f args e) = go_format f args (err_text e)"
| "err_text Canceled = ''context canceled''"
| "err_text DeadlineExceeded = ''context deadline exceeded''"

section \<open>Lemmas: strings and bytes\<close>

lemma char_of_byte_of_char [simp]: "char_of_byte (byte_of_char c) = c"
proof -
  have "(of_char c :: nat) < 256" using nat_of_char_less_256 [of c] by simp
  then have "unat (word_of_nat (of_char c) :: byte) = of_char c"
    by (simp add: unat_of_nat)
  then show ?thesis by (simp add: char_of_byte_def byte_of_char_def)
qed

lemma byte_of_char_of_byte [simp]: "byte_of_char (char_of_byte b) = b"
proof -
  have "unat b < 256" using unsigned_less [of b, where ?'a = nat] by simp
  then show ?thesis by (simp add: char_of_byte_def byte_of_char_def)
qed

lemma bytes_string_bytes [simp]: "bytes_of_string (string_of_bytes b) = b"
  by (simp add: bytes_of_string_def string_of_bytes_def comp_def)

lemma string_bytes_string [simp]: "string_of_bytes (bytes_of_string s) = s"
  by (simp add: bytes_of_string_def string_of_bytes_def comp_def)

lemma length_bytes_of_string [simp]: "length (bytes_of_string s) = length s"
  by (simp add: bytes_of_string_def)

lemma length_string_of_bytes [simp]: "length (string_of_bytes b) = length b"
  by (simp add: string_of_bytes_def)

lemma bytes_of_string_inj [simp]: "bytes_of_string s = bytes_of_string t \<longleftrightarrow> s = t"
  by (metis string_bytes_string)

section \<open>Lemmas: decimal numbers\<close>

definition digit_val :: "char \<Rightarrow> nat" where
  "digit_val c = of_char c - 48"

definition digits_val :: "string \<Rightarrow> nat" where
  "digits_val = foldl (\<lambda>a c. 10 * a + digit_val c) 0"

lemma digit_val_char [simp]: "n < 10 \<Longrightarrow> digit_val (digit_char n) = n"
  by (simp add: digit_val_def digit_char_def)

lemma digits_val_snoc [simp]: "digits_val (s @ [c]) = 10 * digits_val s + digit_val c"
  by (simp add: digits_val_def)

lemma digits_val_nat_digits [simp]: "digits_val (nat_digits n) = n"
proof (induction n rule: nat_digits.induct)
  case (1 n)
  show ?case
  proof (cases "n < 10")
    case True
    then show ?thesis
      by (subst nat_digits.simps) (simp add: digits_val_def)
  next
    case False
    with 1 show ?thesis by (subst nat_digits.simps) simp
  qed
qed

lemma nat_digits_inj [simp]: "nat_digits m = nat_digits n \<longleftrightarrow> m = n"
  by (metis digits_val_nat_digits)

lemma digit_char_range: "n < 10 \<Longrightarrow> of_char (digit_char n) \<in> {48..57 :: nat}"
  by (simp add: digit_char_def)

lemma nat_digits_chars: "c \<in> set (nat_digits n) \<Longrightarrow> of_char c \<in> {48..57 :: nat}"
proof (induction n arbitrary: c rule: nat_digits.induct)
  case (1 n)
  show ?case
  proof (cases "n < 10")
    case True
    with "1.prems" show ?thesis
      by (subst (asm) nat_digits.simps) (simp add: digit_char_range [simplified])
  next
    case False
    with "1.prems" have "c \<in> set (nat_digits (n div 10)) \<or> c = digit_char (n mod 10)"
      by (subst (asm) nat_digits.simps) auto
    with False "1.IH" show ?thesis
      using digit_char_range [of "n mod 10"] by auto
  qed
qed

lemma nat_digits_nonempty [simp]: "nat_digits n \<noteq> []"
  by (subst nat_digits.simps) simp

lemma itoa_chars: "c \<in> set (itoa i) \<Longrightarrow> of_char c \<in> {48..57 :: nat} \<or> c = CHR ''-''"
  by (auto simp: itoa_def dest: nat_digits_chars split: if_splits)

lemma nat_digits_no_minus: "CHR ''-'' \<notin> set (nat_digits n)"
  using nat_digits_chars [of "CHR ''-''" n] by auto

lemma itoa_inj [simp]: "itoa i = itoa j \<longleftrightarrow> i = j"
proof
  assume eq: "itoa i = itoa j"
  have "(i < 0) = (j < 0)"
    using eq nat_digits_no_minus [of "nat i"] nat_digits_no_minus [of "nat j"]
    by (auto simp: itoa_def split: if_splits) (metis list.set_intros(1))+
  with eq show "i = j" by (auto simp: itoa_def split: if_splits)
qed simp

section \<open>Lemmas: searching in strings\<close>

lemma HasPrefix_iff [str_simps]: "HasPrefix s p \<longleftrightarrow> (\<exists>t. s = p @ t)"
  unfolding HasPrefix_def by (metis append_eq_conv_conj append_take_drop_id length_append le_add1)

lemma HasSuffix_iff [str_simps]: "HasSuffix s p \<longleftrightarrow> (\<exists>t. s = t @ p)"
  unfolding HasSuffix_def
  by (metis append_eq_conv_conj append_take_drop_id diff_add_inverse2 length_append le_add2)

lemma Index_Some: "Index s sep = Some i \<Longrightarrow> \<exists>t. s = take i s @ sep @ t \<and> i \<le> length s"
proof (induction s sep arbitrary: i rule: Index.induct)
  case (1 sep)
  then show ?case by (auto split: if_splits)
next
  case (2 c cs sep)
  then show ?case by (auto simp: HasPrefix_iff split: if_splits)
qed

lemma Index_least: "Index s sep = Some i \<Longrightarrow> j < i \<Longrightarrow> \<not> HasPrefix (drop j s) sep"
proof (induction s sep arbitrary: i j rule: Index.induct)
  case (1 sep)
  then show ?case by (auto split: if_splits)
next
  case (2 c cs sep)
  then show ?case by (cases j) (auto split: if_splits)
qed

lemma Index_None: "Index s sep = None \<Longrightarrow> \<not> HasPrefix (drop j s) sep"
proof (induction s sep arbitrary: j rule: Index.induct)
  case (1 sep)
  then show ?case by (auto simp: HasPrefix_def split: if_splits)
next
  case (2 c cs sep)
  then show ?case by (cases j) (auto split: if_splits)
qed

lemma Index_eqI:
  assumes "HasPrefix (drop i s) sep" and "\<And>j. j < i \<Longrightarrow> \<not> HasPrefix (drop j s) sep"
    and "i \<le> length s"
  shows "Index s sep = Some i"
  using assms
proof (cases "Index s sep")
  case None
  with Index_None [OF None, of i] assms(1) show ?thesis by simp
next
  case (Some k)
  have "HasPrefix (drop k s) sep"
    using Index_Some [OF Some] by (metis HasPrefix_iff append_eq_conv_conj append_take_drop_id same_append_eq)
  with assms Index_least [OF Some, of i] show ?thesis
    using Some by (metis linorder_neqE_nat)
qed

section \<open>Lemmas: integers\<close>

lemma go_rem_nonneg: "0 \<le> a \<Longrightarrow> 0 < b \<Longrightarrow> go_rem a b = a mod b"
  by (cases "a = 0") (auto simp: go_rem_def)

lemma go_div_nonneg: "0 \<le> a \<Longrightarrow> 0 < b \<Longrightarrow> go_div a b = a div b"
  by (cases "a = 0") (auto simp: go_div_def)

lemma go_rem_fixed:
  assumes "0 < b"
  shows "(if go_rem a b < 0 then go_rem a b + b else go_rem a b) = a mod b"
proof (cases "0 \<le> a")
  case True
  with assms show ?thesis by (simp add: go_rem_nonneg) (smt (verit) pos_mod_sign)
next
  case False
  then have r: "go_rem a b = - ((- a) mod b)"
    using assms by (simp add: go_rem_def)
  show ?thesis
  proof (cases "(- a) mod b = 0")
    case True
    then have "a mod b = 0" by (simp add: mod_eq_0_iff_dvd)
    with True r show ?thesis by simp
  next
    case False
    then have "0 < (- a) mod b" using assms by (smt (verit) pos_mod_sign)
    moreover have "a mod b = b - (- a) mod b"
      using False zmod_zminus1_eq_if [of "- a" b] by simp
    ultimately show ?thesis using r by simp
  qed
qed

text \<open>Signed reading of 64-bit sums: exact when the sum stays in range.\<close>

lemma sint_range64: "- (2 ^ 63) \<le> sint (x :: int64)" "sint (x :: int64) < 2 ^ 63"
  using sint_ge [of x] sint_lt [of x] by simp_all

lemma sint_of_int64: "- (2 ^ 63) \<le> k \<Longrightarrow> k < 2 ^ 63 \<Longrightarrow> sint (word_of_int k :: int64) = k"
  by (simp add: signed_of_int signed_take_bit_int_eq_self)

lemma sint_add64:
  assumes "- (2 ^ 63) \<le> sint a + sint b" and "sint a + sint b < 2 ^ 63"
  shows "sint (a + b :: int64) = sint a + sint b"
proof -
  have "a + b = word_of_int (sint a + sint b)" by simp
  then show ?thesis using assms sint_of_int64 by metis
qed

lemma sint_inj64: "sint (a :: int64) = sint b \<longleftrightarrow> a = b"
  by (auto intro: signed_word_eqI)

end
