(* ===== verification/Wire_Types.thy ===== *)
theory Wire_Types
  imports Mirror_Prelude
begin

text \<open>
  \<open>pkg/types/types.go\<close>: the records exchanged through Kafka's internal topics and their
  wire formats. The encoders fill a zeroed buffer at running offsets, as the Go code does;
  the lemmas show the closed form of each buffer, that the offset-sync decoder inverts the
  encoder, exactly when the decoder panics, and that no two keys share an encoding.
\<close>

section \<open>Data\<close>

record TopicPartition =
  tp_topic :: string
  tp_partition :: int32

record OffsetSync =
  os_tp :: TopicPartition
  os_upstream :: int64
  os_downstream :: int64

text \<open>A \<open>time.Time\<close> is the number of nanoseconds since the Unix epoch.\<close>

record Heartbeat =
  hb_source :: string
  hb_target :: string
  hb_timestamp :: int

record Checkpoint =
  cp_group :: string
  cp_tp :: TopicPartition
  cp_upstream :: int64
  cp_downstream :: int64
  cp_metadata :: string

record SourceAndTarget =
  st_source :: string
  st_target :: string

section \<open>Byte order\<close>

text \<open>
  \<open>encoding/binary\<close>'s \<open>BigEndian\<close>. The readers panic on a short slice: \<open>None\<close>.
\<close>

definition PutUint16 :: "uint16 \<Rightarrow> byte list" where
  "PutUint16 v = [ucast (drop_bit 8 v), ucast v]"

definition PutUint32 :: "int32 \<Rightarrow> byte list" where
  "PutUint32 v = [ucast (drop_bit 24 v), ucast (drop_bit 16 v), ucast (drop_bit 8 v), ucast v]"

definition PutUint64 :: "int64 \<Rightarrow> byte list" where
  "PutUint64 v =
     [ucast (drop_bit 56 v), ucast (drop_bit 48 v), ucast (drop_bit 40 v), ucast (drop_bit 32 v),
      ucast (drop_bit 24 v), ucast (drop_bit 16 v), ucast (drop_bit 8 v), ucast v]"

fun Uint16 :: "byte list \<Rightarrow> uint16 option" where
  "Uint16 (b0 # b1 # _) = Some (ucast b1 OR push_bit 8 (ucast b0))"
| "Uint16 _ = None"

fun Uint32 :: "byte list \<Rightarrow> int32 option" where
  "Uint32 (b0 # b1 # b2 # b3 # _) =
     Some (ucast b3 OR push_bit 8 (ucast b2) OR push_bit 16 (ucast b1) OR push_bit 24 (ucast b0))"
| "Uint32 _ = None"

fun Uint64 :: "byte list \<Rightarrow> int64 option" where
  "Uint64 (b0 # b1 # b2 # b3 # b4 # b5 # b6 # b7 # _) =
     Some (ucast b7 OR push_bit 8 (ucast b6) OR push_bit 16 (ucast b5) OR push_bit 24 (ucast b4)
       OR push_bit 32 (ucast b3) OR push_bit 40 (ucast b2) OR push_bit 48 (ucast b1)
       OR push_bit 56 (ucast b0))"
| "Uint64 _ = None"

text \<open>\<open>copy(buf[off:off+len(bs)], bs)\<close>, and the slice expression \<open>b[lo:hi]\<close>, which panics
  unless \<open>lo \<le> hi \<le> len(b)\<close>.\<close>

definition put_at :: "byte list \<Rightarrow> nat \<Rightarrow> byte list \<Rightarrow> byte list" where
  "put_at buf off bs = take off buf @ bs @ drop (off + length bs) buf"

definition go_slice :: "byte list \<Rightarrow> nat \<Rightarrow> nat \<Rightarrow> byte list option" where
  "go_slice b lo hi = (if lo \<le> hi \<and> hi \<le> length b then Some (take (hi - lo) (drop lo b)) else None)"

section \<open>Operations\<close>

definition TopicPartition_String :: "TopicPartition \<Rightarrow> string" where
  "TopicPartition_String tp = tp_topic tp @ ''-'' @ itoa (sint (tp_partition tp))"

definition OffsetSync_String :: "OffsetSync \<Rightarrow> string" where
  "OffsetSync_String s =
     ''OffsetSync{tp='' @ TopicPartition_String (os_tp s) @ '', upstream='' @ itoa (sint (os_upstream s))
       @ '', downstream='' @ itoa (sint (os_downstream s)) @ ''}''"

definition OffsetSync_SerializeKey :: "OffsetSync \<Rightarrow> byte list" where
  "OffsetSync_SerializeKey s =
     (let topicBytes = bytes_of_string (tp_topic (os_tp s));
          buf = replicate (2 + length topicBytes + 4) 0;
          buf = put_at buf 0 (PutUint16 (word_of_nat (length topicBytes)));
          buf = put_at buf 2 topicBytes
      in put_at buf (2 + length topicBytes) (PutUint32 (tp_partition (os_tp s))))"

definition OffsetSync_SerializeValue :: "OffsetSync \<Rightarrow> byte list" where
  "OffsetSync_SerializeValue s =
     (let buf = replicate 16 0;
          buf = put_at buf 0 (PutUint64 (os_upstream s))
      in put_at buf 8 (PutUint64 (os_downstream s)))"

text \<open>
  \<open>topicLen\<close> has type \<open>uint16\<close>, so the slice bound \<open>2 + topicLen\<close> is computed modulo
  \<open>2^16\<close>; only the comparison converts it to \<open>int\<close> first.
\<close>

definition DeserializeOffsetSync :: "byte list \<Rightarrow> byte list \<Rightarrow> OffsetSync outcome" where
  "DeserializeOffsetSync key value =
     (if length key < 6
      then Fail (Errorf ''offset sync key too short: %d bytes'' [itoa (int (length key))])
      else (case Uint16 key of
        None \<Rightarrow> Panic ''index out of range''
      | Some topicLen \<Rightarrow>
          if unat topicLen + 6 > length key
          then Fail (Errorf ''offset sync key topic length mismatch'' [])
          else (case go_slice key 2 (unat (2 + topicLen)) of
            None \<Rightarrow> Panic ''slice bounds out of range''
          | Some topic \<Rightarrow>
              (case Uint32 (drop (unat (2 + topicLen)) key) of
                None \<Rightarrow> Panic ''index out of range''
              | Some part \<Rightarrow>
                  if length value < 16
                  then Fail (Errorf ''offset sync value too short: %d bytes'' [itoa (int (length value))])
                  else (case (Uint64 (take 8 value), Uint64 (take 8 (drop 8 value))) of
                    (Some upstream, Some downstream) \<Rightarrow>
                      Ret \<lparr>os_tp = \<lparr>tp_topic = string_of_bytes topic, tp_partition = part\<rparr>,
                           os_upstream = upstream, os_downstream = downstream\<rparr>
                  | _ \<Rightarrow> Panic ''index out of range'')))))"

definition UnixMilli :: "int \<Rightarrow> int64" where
  "UnixMilli ns = word_of_int (ns div 1000000)"

definition Heartbeat_SerializeKey :: "Heartbeat \<Rightarrow> byte list" where
  "Heartbeat_SerializeKey h =
     (let src = bytes_of_string (hb_source h);
          tgt = bytes_of_string (hb_target h);
          buf = replicate (2 + length src + 2 + length tgt) 0;
          buf = put_at buf 0 (PutUint16 (word_of_nat (length src)));
          buf = put_at buf 2 src;
          off = 2 + length src;
          buf = put_at buf off (PutUint16 (word_of_nat (length tgt)))
      in put_at buf (off + 2) tgt)"

definition Heartbeat_SerializeValue :: "Heartbeat \<Rightarrow> byte list" where
  "Heartbeat_SerializeValue h =
     (let buf = replicate (2 + 8) 0;
          buf = put_at buf 0 (PutUint16 0)
      in put_at buf 2 (PutUint64 (UnixMilli (hb_timestamp h))))"

definition Checkpoint_String :: "Checkpoint \<Rightarrow> string" where
  "Checkpoint_String c =
     ''Checkpoint{group='' @ cp_group c @ '', tp='' @ TopicPartition_String (cp_tp c)
       @ '', upstream='' @ itoa (sint (cp_upstream c))
       @ '', downstream='' @ itoa (sint (cp_downstream c)) @ ''}''"

definition Checkpoint_SerializeKey :: "Checkpoint \<Rightarrow> byte list" where
  "Checkpoint_SerializeKey c =
     (let group = bytes_of_string (cp_group c);
          topic = bytes_of_string (tp_topic (cp_tp c));
          buf = replicate (2 + length group + 2 + length topic + 4) 0;
          off = 0;
          buf = put_at buf off (PutUint16 (word_of_nat (length group)));
          off = off + 2;
          buf = put_at buf off group;
          off = off + length group;
          buf = put_at buf off (PutUint16 (word_of_nat (length topic)));
          off = off + 2;
          buf = put_at buf off topic;
          off = off + length topic
      in put_at buf off (PutUint32 (tp_partition (cp_tp c))))"

definition Checkpoint_SerializeValue :: "Checkpoint \<Rightarrow> byte list" where
  "Checkpoint_SerializeValue c =
     (let meta = bytes_of_string (cp_metadata c);
          buf = replicate (2 + 8 + 8 + 2 + length meta) 0;
          off = 0;
          buf = put_at buf off (PutUint16 0);
          off = off + 2;
          buf = put_at buf off (PutUint64 (cp_upstream c));
          off = off + 8;
          buf = put_at buf off (PutUint64 (cp_downstream c));
          off = off + 8;
          buf = put_at buf off (PutUint16 (word_of_nat (length meta)));
          off = off + 2
      in put_at buf off meta)"

definition SourceAndTarget_String :: "SourceAndTarget \<Rightarrow> string" where
  "SourceAndTarget_String st = st_source st @ ''->'' @ st_target st"

section \<open>Byte order lemmas\<close>

lemma length_Put [simp, wire_simps]:
  "length (PutUint16 u) = 2" "length (PutUint32 v) = 4" "length (PutUint64 w) = 8"
  by (simp_all add: PutUint16_def PutUint32_def PutUint64_def)

lemma ucast_byte: "ucast (ucast v :: byte) = take_bit 8 (v :: 'a::len word)"
  by (rule bit_word_eqI) (auto simp: bit_simps)

lemma byte_step:
  "take_bit k v OR push_bit k (take_bit 8 (drop_bit k v)) = take_bit (k + 8) (v :: 'a::len word)"
  by (rule bit_word_eqI) (auto simp: bit_simps)

lemmas byte_steps =
  or.assoc [symmetric] ucast_byte byte_step [of 8, simplified] byte_step [of 16, simplified] byte_step [of 24, simplified]
  byte_step [of 32, simplified] byte_step [of 40, simplified] byte_step [of 48, simplified]
  byte_step [of 56, simplified]

lemma Uint16_Put [simp, wire_simps]: "Uint16 (PutUint16 v @ r) = Some v"
  by (simp only: PutUint16_def append.simps Uint16.simps byte_steps) (simp add: take_bit_word_eq_self)

lemma Uint32_Put [simp, wire_simps]: "Uint32 (PutUint32 v @ r) = Some v"
  by (simp only: PutUint32_def append.simps Uint32.simps byte_steps) (simp add: take_bit_word_eq_self)

lemma Uint64_Put [simp, wire_simps]: "Uint64 (PutUint64 v @ r) = Some v"
  by (simp only: PutUint64_def append.simps Uint64.simps byte_steps) (simp add: take_bit_word_eq_self)

lemmas Uint_Put_Nil [simp] =
  Uint16_Put [where r = "[]", simplified] Uint32_Put [where r = "[]", simplified]
  Uint64_Put [where r = "[]", simplified]

text \<open>
  The encoders are injective into the byte lists of their width, and there are as many of
  those as words: every byte list of the width is an encoding.
\<close>

lemma bytes_surj:
  fixes f :: "'a::len word \<Rightarrow> byte list"
  assumes "inj f" and "\<And>v. length (f v) = n" and "LENGTH('a) = 8 * n" and "length bs = n"
  shows "\<exists>v. bs = f v"
proof -
  let ?L = "{xs :: byte list. set xs \<subseteq> UNIV \<and> length xs = n}"
  have fin: "finite ?L" by (rule finite_lists_length_eq) simp
  have "card ?L = CARD(byte) ^ n" by (rule card_lists_length_eq) simp
  also have "\<dots> = CARD('a word)" by (simp add: card_word assms(3) power_mult)
  also have "\<dots> = card (range f)" using assms(1) by (simp add: card_image)
  finally have "range f = ?L"
    using fin assms(2) by (intro card_subset_eq) auto
  with assms(4) have "bs \<in> range f" by simp
  then show ?thesis by blast
qed

lemma Put_inj: "inj PutUint16" "inj PutUint32" "inj PutUint64"
  by (rule injI, metis Uint_Put_Nil option.inject)+

lemma Put_surj:
  "length bs = 2 \<Longrightarrow> \<exists>v. bs = PutUint16 v"
  "length bs = 4 \<Longrightarrow> \<exists>v. bs = PutUint32 v"
  "length bs = 8 \<Longrightarrow> \<exists>v. bs = PutUint64 v"
  by (rule bytes_surj; simp add: Put_inj)+

lemma Put_eq_iff [simp]:
  "PutUint16 a = PutUint16 b \<longleftrightarrow> a = b"
  "PutUint32 c = PutUint32 d \<longleftrightarrow> c = d"
  "PutUint64 e = PutUint64 f \<longleftrightarrow> e = f"
  by (simp_all add: inj_eq Put_inj)

section \<open>Closed forms of the encoders\<close>

text \<open>A string with its length in front, as every key embeds its strings.\<close>

definition length_prefixed :: "string \<Rightarrow> byte list" where
  "length_prefixed s = PutUint16 (word_of_nat (length s)) @ bytes_of_string s"

text \<open>A buffer of length \<open>n\<close> whose first bytes are written and whose rest is still zero.\<close>

definition padded :: "nat \<Rightarrow> byte list \<Rightarrow> byte list" where
  "padded n xs = xs @ replicate (n - length xs) 0"

lemma replicate_padded: "replicate n 0 = padded n []"
  by (simp add: padded_def)

lemma put_at_padded: "off = length xs \<Longrightarrow> put_at (padded n xs) off bs = padded n (xs @ bs)"
  by (simp add: padded_def put_at_def)

lemma padded_full: "length xs = n \<Longrightarrow> padded n xs = xs"
  by (simp add: padded_def)

lemmas padded_simps = replicate_padded put_at_padded padded_full length_prefixed_def Let_def

lemma unat_uint16: "n < 2 ^ 16 \<Longrightarrow> unat (word_of_nat n :: uint16) = n"
  by (simp add: unat_of_nat)

lemma length_prefixed_eq_iff:
  assumes "length s < 2 ^ 16" and "length t < 2 ^ 16"
  shows "length_prefixed s @ x = length_prefixed t @ y \<longleftrightarrow> s = t \<and> x = y"
proof
  assume eq: "length_prefixed s @ x = length_prefixed t @ y"
  then have w: "(word_of_nat (length s) :: uint16) = word_of_nat (length t)"
    by (simp only: length_prefixed_def append_assoc append_eq_append_conv length_Put Put_eq_iff simp_thms)
  have "length s = unat (word_of_nat (length s) :: uint16)"
    by (rule unat_uint16 [OF assms(1), symmetric])
  also have "\<dots> = length t"
    unfolding w by (rule unat_uint16 [OF assms(2)])
  finally have "length s = length t" .
  with eq show "s = t \<and> x = y" by (simp add: length_prefixed_def)
qed simp

lemma OffsetSync_key_eq [wire_simps]:
  "OffsetSync_SerializeKey s =
     length_prefixed (tp_topic (os_tp s)) @ PutUint32 (tp_partition (os_tp s))"
  by (simp add: OffsetSync_SerializeKey_def padded_simps del: replicate.simps)

lemma OffsetSync_value_eq [wire_simps]:
  "OffsetSync_SerializeValue s = PutUint64 (os_upstream s) @ PutUint64 (os_downstream s)"
  by (simp add: OffsetSync_SerializeValue_def padded_simps del: replicate.simps)

lemma Heartbeat_key_eq [wire_simps]:
  "Heartbeat_SerializeKey h = length_prefixed (hb_source h) @ length_prefixed (hb_target h)"
  by (simp add: Heartbeat_SerializeKey_def padded_simps del: replicate.simps)

lemma Heartbeat_value_eq [wire_simps]:
  "Heartbeat_SerializeValue h = PutUint16 0 @ PutUint64 (UnixMilli (hb_timestamp h))"
  by (simp add: Heartbeat_SerializeValue_def padded_simps del: replicate.simps)

lemma Checkpoint_key_eq [wire_simps]:
  "Checkpoint_SerializeKey c =
     length_prefixed (cp_group c) @ length_prefixed (tp_topic (cp_tp c)) @ PutUint32 (tp_partition (cp_tp c))"
  by (simp add: Checkpoint_SerializeKey_def padded_simps del: replicate.simps)

lemma Checkpoint_value_eq [wire_simps]:
  "Checkpoint_SerializeValue c =
     PutUint16 0 @ PutUint64 (cp_upstream c) @ PutUint64 (cp_downstream c) @ length_prefixed (cp_metadata c)"
  by (simp add: Checkpoint_SerializeValue_def padded_simps del: replicate.simps)

section \<open>Properties\<close>

lemma unat_topic_end:
  assumes "n < 65534"
  shows "unat (2 + word_of_nat n :: uint16) = 2 + n"
proof -
  have "(2 + word_of_nat n :: uint16) = word_of_nat (2 + n)" by (simp only: of_nat_add of_nat_numeral)
  moreover have "2 + n < 2 ^ 16" using assms by simp
  ultimately show ?thesis by (simp only: unat_uint16)
qed

lemma unat_topic_end_wraps:
  assumes "65534 \<le> unat (w :: uint16)"
  shows "unat (2 + w) < 2"
proof -
  have "unat w < 65536" using unsigned_less [of w, where ?'a = nat] by simp
  then show ?thesis using assms by (simp add: unat_word_ariths mod_if) arith
qed

lemma go_slice_app: "length a = lo \<Longrightarrow> hi = lo + length b \<Longrightarrow> go_slice (a @ b @ c) lo hi = Some b"
  by (simp add: go_slice_def)

text \<open>
  The decoder once its length checks have passed and the topic length does not wrap.
\<close>

lemma Uint_defined:
  "2 \<le> length a \<Longrightarrow> \<exists>u. Uint16 a = Some u"
  "4 \<le> length b \<Longrightarrow> \<exists>v. Uint32 b = Some v"
  by (cases a rule: Uint16.cases; simp) (cases b rule: Uint32.cases; simp)

lemma Uint64_value:
  assumes "16 \<le> length v"
  obtains a b where "take 16 v = PutUint64 a @ PutUint64 b"
    "Uint64 (take 8 v) = Some a" "Uint64 (take 8 (drop 8 v)) = Some b"
proof -
  obtain a b where ab: "take 8 v = PutUint64 a" "take 8 (drop 8 v) = PutUint64 b"
    using Put_surj(3) [of "take 8 v"] Put_surj(3) [of "take 8 (drop 8 v)"] assms by auto
  have "take 16 v = take 8 v @ take 8 (drop 8 v)" by (simp flip: take_add)
  with ab show thesis by (intro that [of a b]) simp_all
qed

lemma Deserialize_accepts:
  assumes "Uint16 k = Some n" and "unat n + 6 \<le> length k" and "unat n < 65534"
    and "Uint32 (drop (2 + unat n) k) = Some q"
  shows "DeserializeOffsetSync k v =
    (if length v < 16 then Fail (Errorf ''offset sync value too short: %d bytes'' [itoa (int (length v))])
     else Ret \<lparr>os_tp = \<lparr>tp_topic = string_of_bytes (take (unat n) (drop 2 k)), tp_partition = q\<rparr>,
               os_upstream = the (Uint64 (take 8 v)), os_downstream = the (Uint64 (take 8 (drop 8 v)))\<rparr>)"
proof -
  have e: "unat (2 + n) = 2 + unat n" using unat_topic_end [of "unat n"] assms(3) by simp
  have s: "go_slice k 2 (2 + unat n) = Some (take (unat n) (drop 2 k))"
    using assms(2) by (simp add: go_slice_def)
  have "\<not> length k < 6" "\<not> length k < unat n + 6" using assms(2) by simp_all
  moreover have "16 \<le> length v \<Longrightarrow> \<exists>a b. Uint64 (take 8 v) = Some a \<and> Uint64 (take 8 (drop 8 v)) = Some b"
    by (metis Uint64_value)
  ultimately show ?thesis
    unfolding DeserializeOffsetSync_def e assms(1) s assms(4) option.case if_False by auto
qed

lemma Deserialize_wraps:
  assumes "Uint16 k = Some n" and "unat n + 6 \<le> length k" and "65534 \<le> unat n"
  shows "DeserializeOffsetSync k v = Panic ''slice bounds out of range''"
proof -
  have "go_slice k 2 (unat (2 + n)) = None"
    using unat_topic_end_wraps [OF assms(3)] by (simp add: go_slice_def)
  with assms show ?thesis by (simp add: DeserializeOffsetSync_def)
qed

lemma Deserialize_cases:
  assumes "\<not> length k < 6"
  obtains n where "Uint16 k = Some n" "length k < unat n + 6"
      "DeserializeOffsetSync k v = Fail (Errorf ''offset sync key topic length mismatch'' [])"
    | n where "Uint16 k = Some n" "unat n + 6 \<le> length k" "65534 \<le> unat n"
    | n q where "Uint16 k = Some n" "unat n + 6 \<le> length k" "unat n < 65534"
        "Uint32 (drop (2 + unat n) k) = Some q"
proof -
  obtain n where n: "Uint16 k = Some n" using Uint_defined(1) [of k] assms by auto
  consider "length k < unat n + 6" | "unat n + 6 \<le> length k" "65534 \<le> unat n"
    | "unat n + 6 \<le> length k" "unat n < 65534" by linarith
  then show thesis
  proof cases
    case 1
    with n assms show ?thesis by (intro that(1) [of n]) (simp_all add: DeserializeOffsetSync_def)
  next
    case 2
    with n show ?thesis by (rule that(2))
  next
    case 3
    then have "4 \<le> length (drop (2 + unat n) k)" by simp
    then obtain q where "Uint32 (drop (2 + unat n) k) = Some q" using Uint_defined(2) by blast
    with n 3 show ?thesis by (rule that(3))
  qed
qed

lemma Deserialize_Serialize:
  assumes "length (tp_topic (os_tp s)) < 65534"
  shows "DeserializeOffsetSync (OffsetSync_SerializeKey s @ kr) (OffsetSync_SerializeValue s @ vr) = Ret s"
proof -
  let ?t = "tp_topic (os_tp s)"
  let ?n = "word_of_nat (length ?t) :: uint16"
  have n: "unat ?n = length ?t" using assms by (simp add: unat_uint16)
  have k: "OffsetSync_SerializeKey s @ kr =
      PutUint16 ?n @ bytes_of_string ?t @ PutUint32 (tp_partition (os_tp s)) @ kr"
    by (simp add: wire_simps length_prefixed_def)
  show ?thesis
    unfolding k
    by (subst Deserialize_accepts [where n = ?n and q = "tp_partition (os_tp s)"])
      (use assms n in \<open>simp_all add: OffsetSync_value_eq\<close>)
qed

text \<open>
  C26. Decoding the key and value that \<open>SerializeKey\<close> and \<open>SerializeValue\<close> produce gives
  the offset sync back, whatever follows the encoded bytes, for every topic name shorter than
  65534 bytes, every partition and every pair of offsets.
\<close>

theorem offset_sync_roundtrip:
  assumes "length (tp_topic (os_tp s)) < 65534"
  shows "DeserializeOffsetSync (OffsetSync_SerializeKey s @ kr) (OffsetSync_SerializeValue s @ vr) = Ret s"
  using assms by (rule Deserialize_Serialize)

theorem offset_sync_roundtrip_witness:
  "DeserializeOffsetSync
     (OffsetSync_SerializeKey \<lparr>os_tp = \<lparr>tp_topic = ''orders'', tp_partition = 3\<rparr>,
        os_upstream = 1000, os_downstream = - 1\<rparr> @ [])
     (OffsetSync_SerializeValue \<lparr>os_tp = \<lparr>tp_topic = ''orders'', tp_partition = 3\<rparr>,
        os_upstream = 1000, os_downstream = - 1\<rparr> @ [7])
   = Ret \<lparr>os_tp = \<lparr>tp_topic = ''orders'', tp_partition = 3\<rparr>, os_upstream = 1000, os_downstream = - 1\<rparr>"
  by (rule offset_sync_roundtrip) simp


text \<open>
  C27. Whatever the decoder accepts is an encoding of what it returns: the key and the value start
  with the bytes \<open>SerializeKey\<close> and \<open>SerializeValue\<close> produce for the result. Two accepted
  records with the same result therefore agree on all bytes the decoder reads.
\<close>

theorem deserialize_accepts_only_encodings:
  assumes "DeserializeOffsetSync k v = Ret s"
  shows "\<exists>kr vr. k = OffsetSync_SerializeKey s @ kr \<and> v = OffsetSync_SerializeValue s @ vr"
proof -
  have len: "\<not> length k < 6" using assms by (auto simp: DeserializeOffsetSync_def)
  then show ?thesis
  proof (rule Deserialize_cases [where v = v])
    fix n q
    assume n: "Uint16 k = Some n" and fits: "unat n + 6 \<le> length k" and small: "unat n < 65534"
      and q: "Uint32 (drop (2 + unat n) k) = Some q"
    let ?t = "take (unat n) (drop 2 k)"
    note acc = assms [unfolded Deserialize_accepts [OF n fits small q]]
    have v: "16 \<le> length v" using acc by (simp split: if_splits)
    obtain u where u: "take 2 k = PutUint16 u" using Put_surj(1) [of "take 2 k"] fits by auto
    have "Uint16 k = Some u" using Uint16_Put [of u "drop 2 k"] u by (metis append_take_drop_id)
    then have un: "u = n" using n by simp
    obtain w where w: "take 4 (drop (2 + unat n) k) = PutUint32 w"
      using Put_surj(2) [of "take 4 (drop (2 + unat n) k)"] fits by auto
    have "Uint32 (drop (2 + unat n) k) = Some w"
      using Uint32_Put [of w "drop 4 (drop (2 + unat n) k)"] w by (metis append_take_drop_id)
    then have wq: "w = q" using q by simp
    obtain a b where ab: "take 16 v = PutUint64 a @ PutUint64 b"
        "Uint64 (take 8 v) = Some a" "Uint64 (take 8 (drop 8 v)) = Some b"
      using v by (rule Uint64_value)
    have s: "s = \<lparr>os_tp = \<lparr>tp_topic = string_of_bytes ?t, tp_partition = q\<rparr>, os_upstream = a, os_downstream = b\<rparr>"
      using acc v ab by simp
    have "k = take 2 k @ ?t @ take 4 (drop (2 + unat n) k) @ drop 4 (drop (2 + unat n) k)"
      by (metis append_take_drop_id drop_drop add.commute)
    then have "k = OffsetSync_SerializeKey s @ drop 4 (drop (2 + unat n) k)"
      using u un w wq fits by (simp add: s OffsetSync_key_eq length_prefixed_def)
    moreover have "v = OffsetSync_SerializeValue s @ drop 16 v"
      using ab(1) by (metis OffsetSync_value_eq append_take_drop_id s OffsetSync.select_convs(2,3))
    ultimately show ?thesis by blast
  qed (use assms in \<open>simp_all add: Deserialize_wraps\<close>)
qed

theorem deserialize_accepts_only_encodings_witness:
  "\<exists>kr vr. [0, 1, 116, 0, 0, 0, 2, 9] =
       OffsetSync_SerializeKey \<lparr>os_tp = \<lparr>tp_topic = ''t'', tp_partition = 2\<rparr>, os_upstream = 5, os_downstream = 4\<rparr> @ kr
     \<and> [0, 0, 0, 0, 0, 0, 0, 5, 0, 0, 0, 0, 0, 0, 0, 4] =
       OffsetSync_SerializeValue \<lparr>os_tp = \<lparr>tp_topic = ''t'', tp_partition = 2\<rparr>, os_upstream = 5, os_downstream = 4\<rparr> @ vr"
  by (rule deserialize_accepts_only_encodings) code_simp

text \<open>
  Checkpoint keys identify what they are about: two checkpoints whose group and topic names
  fit in a \<open>uint16\<close> length have the same key only when group, topic and partition agree.
\<close>

lemma checkpoint_key_injective:
  assumes "length (cp_group c) < 2 ^ 16" "length (cp_group d) < 2 ^ 16"
    and "length (tp_topic (cp_tp c)) < 2 ^ 16" "length (tp_topic (cp_tp d)) < 2 ^ 16"
  shows "Checkpoint_SerializeKey c = Checkpoint_SerializeKey d \<longleftrightarrow> cp_group c = cp_group d \<and> cp_tp c = cp_tp d"
  by (auto simp: Checkpoint_key_eq length_prefixed_eq_iff [OF assms(1,2)] length_prefixed_eq_iff [OF assms(3,4)])

lemma checkpoint_key_injective_example:
  "Checkpoint_SerializeKey \<lparr>cp_group = ''ab'', cp_tp = \<lparr>tp_topic = ''c'', tp_partition = 0\<rparr>,
      cp_upstream = 1, cp_downstream = 1, cp_metadata = []\<rparr>
   \<noteq> Checkpoint_SerializeKey \<lparr>cp_group = ''a'', cp_tp = \<lparr>tp_topic = ''bc'', tp_partition = 0\<rparr>,
      cp_upstream = 1, cp_downstream = 1, cp_metadata = []\<rparr>"
  by (subst checkpoint_key_injective) simp_all

text \<open>Heartbeat keys are injective for the same reason.\<close>

lemma heartbeat_key_injective:
  assumes "length (hb_source g) < 2 ^ 16" "length (hb_source h) < 2 ^ 16"
    and "length (hb_target g) < 2 ^ 16" "length (hb_target h) < 2 ^ 16"
  shows "Heartbeat_SerializeKey g = Heartbeat_SerializeKey h \<longleftrightarrow>
    hb_source g = hb_source h \<and> hb_target g = hb_target h"
  using length_prefixed_eq_iff [OF assms(3,4), of "[]" "[]"]
  by (simp add: Heartbeat_key_eq length_prefixed_eq_iff [OF assms(1,2)])

end
