(* ===== verification/Sync_Store.thy ===== *)
theory Sync_Store
  imports Wire_Types
begin

text \<open>
  \<open>internal/offset/sync_store.go\<close>: the offset sync store. Each partition has an array of 64
  syncs, newest first and exponentially spaced; \<open>HandleSync\<close> inserts one, \<open>TranslateDownstream\<close>
  maps a consumer's offset on the source cluster to an offset on the target cluster. Offsets
  are \<open>int64\<close> words and the spacing bound is computed in wrapping arithmetic, as in the code.
\<close>

section \<open>State\<close>

abbreviation syncsPerPartition :: nat where
  "syncsPerPartition \<equiv> 64"

record SyncStore =
  ss_syncs :: "TopicPartition \<rightharpoonup> OffsetSync list"
  ss_initialized :: bool
  ss_readToEnd :: bool

section \<open>Operations\<close>

definition NewSyncStore :: SyncStore where
  "NewSyncStore = \<lparr>ss_syncs = Map.empty, ss_initialized = False, ss_readToEnd = False\<rparr>"

definition MarkReadToEnd :: "SyncStore \<Rightarrow> SyncStore" where
  "MarkReadToEnd s = s\<lparr>ss_readToEnd := True, ss_initialized := True\<rparr>"

definition IsReady :: "SyncStore \<Rightarrow> bool" where
  "IsReady s = ss_readToEnd s"

text \<open>
  The repair loop \<open>for i := 1; i < syncsPerPartition; i++\<close>. The shifts are non-constant, so
  \<open>1 << i\<close> is an \<open>int64\<close>: at \<open>i = 63\<close> it is the minimal value and the sum wraps.
\<close>

definition sync_bound :: "OffsetSync \<Rightarrow> nat \<Rightarrow> int64" where
  "sync_bound s i = os_upstream s + push_bit i 1 - push_bit (i - 1) 1"

function spread_syncs :: "nat \<Rightarrow> OffsetSync list \<Rightarrow> OffsetSync list" where
  "spread_syncs i updated =
     (if i < syncsPerPartition then
        (let prev = i - 1;
             bound = sync_bound (updated ! i) i
         in if 0 \<le>s bound \<and> os_upstream (updated ! prev) \<le>s bound then updated
            else spread_syncs (i + 1) (updated[i := updated ! prev]))
      else updated)"
  by pat_completeness auto
termination
  by (relation "measure (\<lambda>(i, _). syncsPerPartition - i)") auto

declare spread_syncs.simps [simp del]

definition fill_slots :: "OffsetSync \<Rightarrow> OffsetSync list" where
  "fill_slots sync = replicate syncsPerPartition sync"

text \<open>The normal update of a partition's array: \<open>updated := existing; updated[0] = sync\<close> and
  the repair loop.\<close>

definition insert_sync :: "OffsetSync list \<Rightarrow> OffsetSync \<Rightarrow> OffsetSync list" where
  "insert_sync existing sync = spread_syncs 1 (existing[0 := sync])"

definition HandleSync :: "SyncStore \<Rightarrow> OffsetSync \<Rightarrow> SyncStore" where
  "HandleSync s sync =
     (let tp = os_tp sync in
      case ss_syncs s tp of
        None \<Rightarrow> s\<lparr>ss_syncs := (ss_syncs s)(tp \<mapsto> fill_slots sync)\<rparr>
      | Some existing \<Rightarrow>
          if os_upstream sync <s os_upstream (existing ! 0)
          then s\<lparr>ss_syncs := (ss_syncs s)(tp \<mapsto> fill_slots sync)\<rparr>
          else if \<not> ss_readToEnd s
          then s\<lparr>ss_syncs := (ss_syncs s)(tp \<mapsto> fill_slots sync)\<rparr>
          else s\<lparr>ss_syncs := (ss_syncs s)(tp \<mapsto> insert_sync existing sync)\<rparr>)"

text \<open>The search loop of \<open>TranslateDownstream\<close>, over the slots that are left.\<close>

fun find_sync :: "OffsetSync list \<Rightarrow> int64 \<Rightarrow> int64" where
  "find_sync [] off = - 1"
| "find_sync (s # syncs) off =
     (if os_upstream s \<le>s off
      then os_downstream s + (if os_upstream s <s off then 1 else 0)
      else find_sync syncs off)"

definition TranslateDownstream :: "SyncStore \<Rightarrow> TopicPartition \<Rightarrow> int64 \<Rightarrow> int64 \<times> bool" where
  "TranslateDownstream s tp upstreamOffset =
     (if \<not> ss_readToEnd s then (- 1, False)
      else case ss_syncs s tp of
        None \<Rightarrow> (- 1, False)
      | Some syncs \<Rightarrow> (find_sync syncs upstreamOffset, True))"

text \<open>A history of \<open>HandleSync\<close> calls.\<close>

definition handle_all :: "SyncStore \<Rightarrow> OffsetSync list \<Rightarrow> SyncStore" where
  "handle_all = foldl HandleSync"

section \<open>Invariants\<close>

abbreviation up :: "OffsetSync \<Rightarrow> int" where
  "up s \<equiv> sint (os_upstream s)"

abbreviation down :: "OffsetSync \<Rightarrow> int" where
  "down s \<equiv> sint (os_downstream s)"

text \<open>
  \<open>slots_ok\<close>: the array has its 64 entries, upstream offsets never increase from slot to
  slot, and neighbours are within \<open>2^(i-1)\<close> of each other (the code's invariant B).
\<close>

definition slots_ok :: "OffsetSync list \<Rightarrow> bool" where
  "slots_ok a \<longleftrightarrow> length a = syncsPerPartition
     \<and> (\<forall>i. 0 < i \<and> i < syncsPerPartition \<longrightarrow>
          up (a ! i) \<le> up (a ! (i - 1)) \<and> up (a ! (i - 1)) \<le> up (a ! i) + 2 ^ (i - 1))"

text \<open>
  \<open>slots_spread\<close>: different slots are far apart (invariant C of the design document, with a
  larger distance).
\<close>

definition slots_spread :: "OffsetSync list \<Rightarrow> bool" where
  "slots_spread a \<longleftrightarrow> (\<forall>i j. 0 < i \<and> i < j \<and> j < syncsPerPartition \<longrightarrow>
      a ! i = a ! j \<or> up (a ! j) + 2 ^ (i - 1) < up (a ! i))"

definition store_ok :: "SyncStore \<Rightarrow> bool" where
  "store_ok s \<longleftrightarrow> (\<forall>tp a. ss_syncs s tp = Some a \<longrightarrow> slots_ok a \<and> (\<forall>x \<in> set a. os_tp x = tp))"

section \<open>The repair loop\<close>

lemma sint_shift64: "i \<le> 62 \<Longrightarrow> sint (push_bit i 1 :: int64) = 2 ^ i"
proof -
  assume "i \<le> 62"
  then have "(2::int) ^ i < 2 ^ 63" by (intro power_strict_increasing) auto
  moreover have "(push_bit i 1 :: int64) = word_of_int (2 ^ i)"
    by (simp add: push_bit_eq_mult)
  ultimately show ?thesis
    by (metis sint_of_int64 zero_le_power zero_le_numeral neg_le_0_iff_le order_trans)
qed

lemma sync_bound_word: "0 < i \<Longrightarrow> i < 64 \<Longrightarrow> sync_bound s i = os_upstream s + push_bit (i - 1) 1"
  by (cases i) (simp_all add: sync_bound_def push_bit_eq_mult)

text \<open>
  The loop's test in terms of integers: it passes exactly when the bound is a non-negative
  \<open>int64\<close> value and the previous slot is within it. When the sum overflows, the wrapped bound
  is negative and the slot is repaired.
\<close>

definition within_bound :: "OffsetSync \<Rightarrow> nat \<Rightarrow> OffsetSync \<Rightarrow> bool" where
  "within_bound old i x \<longleftrightarrow>
     0 \<le> up old + 2 ^ (i - 1) \<and> up old + 2 ^ (i - 1) < 2 ^ 63 \<and> up x \<le> up old + 2 ^ (i - 1)"

lemma loop_test_iff:
  assumes "0 < i" and "i < 64"
  shows "(0 \<le>s sync_bound old i \<and> os_upstream x \<le>s sync_bound old i) \<longleftrightarrow> within_bound old i x"
proof -
  let ?p = "2 ^ (i - 1) :: int"
  let ?b = "up old + ?p"
  have p: "0 < ?p" "?p \<le> 2 ^ 62" using assms power_increasing [of "i - 1" 62 "2 :: int"] by simp_all
  have sp: "sint (push_bit (i - 1) 1 :: int64) = ?p" using assms by (intro sint_shift64) simp
  note range = sint_range64 [of "os_upstream old"]
  show ?thesis
  proof (cases "?b < 2 ^ 63")
    case True
    then have "sint (sync_bound old i) = ?b"
      unfolding sync_bound_word [OF assms] sp [symmetric]
      by (intro sint_add64; unfold sp) (use True p range in linarith)+
    with True show ?thesis by (auto simp: word_sle_eq within_bound_def)
  next
    case False
    have "sync_bound old i = word_of_int (?b - 2 ^ 64)"
    proof -
      have "sync_bound old i = word_of_int ?b"
        using assms by (simp add: sync_bound_word push_bit_eq_mult)
      also have "\<dots> = word_of_int (?b - 2 ^ 64)"
        by (simp add: word_of_int_eq_iff take_bit_eq_mod)
      finally show ?thesis .
    qed
    moreover have "- (2 ^ 63) \<le> ?b - 2 ^ 64" "?b - 2 ^ 64 < 2 ^ 63" "?b - 2 ^ 64 < 0"
      using False p range by simp_all
    ultimately have "sint (sync_bound old i) < 0" by (metis sint_of_int64)
    with False show ?thesis by (auto simp: word_sle_eq within_bound_def)
  qed
qed

lemma replicate_prefix:
  "length u = n \<Longrightarrow> i \<le> n \<Longrightarrow> (\<And>j. j < i \<Longrightarrow> u ! j = x) \<Longrightarrow> u = replicate i x @ drop i u"
  by (rule nth_equalityI) (auto simp: nth_append)

text \<open>
  The result of the loop: the new sync in the slots below some \<open>k\<close>, the old syncs from \<open>k\<close>
  on; every overwritten slot failed the test, slot \<open>k\<close> passed it.
\<close>

definition repaired :: "OffsetSync \<Rightarrow> OffsetSync list \<Rightarrow> nat \<Rightarrow> nat \<Rightarrow> bool" where
  "repaired x u i k \<longleftrightarrow> i \<le> k \<and> k \<le> 64 \<and> (\<forall>m. i \<le> m \<and> m < k \<longrightarrow> \<not> within_bound (u ! m) m x)
     \<and> (k < 64 \<longrightarrow> within_bound (u ! k) k x)"

lemma spread_syncs_result:
  assumes "0 < i" "i \<le> 64" "length u = 64" "\<And>j. j < i \<Longrightarrow> u ! j = x"
  shows "\<exists>k. repaired x u i k \<and> spread_syncs i u = replicate k x @ drop k u"
  using assms
proof (induction i u rule: spread_syncs.induct)
  case (1 i u)
  have prev: "u ! (i - 1) = x" using "1.prems" by simp
  show ?case
  proof (cases "i < 64 \<and> \<not> within_bound (u ! i) i x")
    case True
    let ?u = "u[i := u ! (i - 1)]"
    have test: "\<not> (0 \<le>s sync_bound (u ! i) i \<and> os_upstream (u ! (i - 1)) \<le>s sync_bound (u ! i) i)"
      using True loop_test_iff [of i "u ! i" x] "1.prems"(1) prev by simp
    have "?u ! j = x" if "j < i + 1" for j
      using that prev "1.prems" True by (cases "j = i") auto
    then obtain k where k: "repaired x ?u (i + 1) k" "spread_syncs (i + 1) ?u = replicate k x @ drop k ?u"
      using "1.IH" [OF _ refl refl] test True "1.prems" by auto
    have "repaired x u i k"
      using k(1) True by (auto simp: repaired_def) (metis Suc_leI le_neq_implies_less nth_list_update_neq)+
    moreover have "drop k ?u = drop k u" using k(1) by (simp add: repaired_def)
    moreover have "spread_syncs i u = spread_syncs (i + 1) ?u"
      using True test by (subst spread_syncs.simps) (auto simp: Let_def)
    ultimately show ?thesis using k(2) by metis
  next
    case False
    then have "spread_syncs i u = u"
      using loop_test_iff [of i "u ! i" x] "1.prems"(1) prev
      by (subst spread_syncs.simps) (auto simp: Let_def)
    moreover have "u = replicate i x @ drop i u"
      using "1.prems" by (intro replicate_prefix) auto
    moreover have "repaired x u i i" using False "1.prems" by (auto simp: repaired_def)
    ultimately show ?thesis by metis
  qed
qed

section \<open>The invariants are kept\<close>

lemma slots_ok_sorted: "slots_ok a \<Longrightarrow> i \<le> j \<Longrightarrow> j < 64 \<Longrightarrow> up (a ! j) \<le> up (a ! i)"
proof (induction j)
  case (Suc j)
  show ?case
  proof (cases "i = Suc j")
    case False
    with Suc have "up (a ! j) \<le> up (a ! i)" by simp
    moreover have "up (a ! Suc j) \<le> up (a ! j)" using Suc.prems by (force simp: slots_ok_def)
    ultimately show ?thesis by simp
  qed simp
qed simp

lemma slots_ok_bound: "slots_ok a \<Longrightarrow> i \<le> j \<Longrightarrow> j < 64 \<Longrightarrow> up (a ! i) \<le> up (a ! j) + 2 ^ j - 2 ^ i"
proof (induction j)
  case (Suc j)
  show ?case
  proof (cases "i = Suc j")
    case False
    with Suc have "up (a ! i) \<le> up (a ! j) + 2 ^ j - 2 ^ i" by simp
    moreover have "up (a ! j) \<le> up (a ! Suc j) + 2 ^ j" using Suc.prems by (force simp: slots_ok_def)
    ultimately show ?thesis by simp
  qed simp
qed simp

lemma fill_slots_ok [store_simps]: "slots_ok (fill_slots x)" "slots_spread (fill_slots x)"
  by (auto simp: slots_ok_def slots_spread_def fill_slots_def)

lemma set_fill_slots [simp]: "set (fill_slots x) = {x}"
  by (simp add: fill_slots_def)

lemma nth_repaired:
  "length u = 64 \<Longrightarrow> k \<le> 64 \<Longrightarrow> i < 64 \<Longrightarrow> (replicate k x @ drop k u) ! i = (if i < k then x else u ! i)"
  by (simp add: nth_append)

text \<open>What \<open>HandleSync\<close> leaves in the slots of a partition in its last branch.\<close>

lemma spread_new_sync:
  assumes "length a = 64"
  shows "\<exists>k. repaired x a 1 k \<and> length (insert_sync a x) = 64
    \<and> (\<forall>i < 64. insert_sync a x ! i = (if i < k then x else a ! i))"
proof -
  have "(a[0 := x]) ! j = x" if "j < 1" for j using that assms by simp
  then obtain k where k: "repaired x (a[0 := x]) 1 k"
      "insert_sync a x = replicate k x @ drop k (a[0 := x])"
    unfolding insert_sync_def using spread_syncs_result [of 1 "a[0 := x]" x] assms
    by (metis length_list_update less_one less_numeral_extra(1) linorder_not_less one_le_numeral)
  have k64: "1 \<le> k" "k \<le> 64" using k(1) by (auto simp: repaired_def)
  have "repaired x a 1 k" using k(1) by (auto simp: repaired_def)
  moreover have "length (insert_sync a x) = 64" unfolding k(2) using k64 assms by simp
  moreover have "insert_sync a x ! i = (if i < k then x else a ! i)" if "i < 64" for i
    unfolding k(2) using k64 that assms by (subst nth_repaired) auto
  ultimately show ?thesis by blast
qed

lemma spread_slots_ok:
  assumes ok: "slots_ok a" and new: "up (a ! 0) \<le> up x"
  shows "slots_ok (insert_sync a x)"
proof -
  have len: "length a = 64" using ok by (simp add: slots_ok_def)
  obtain k where k: "repaired x a 1 k" and l: "length (insert_sync a x) = 64"
    and r: "\<And>i. i < 64 \<Longrightarrow> insert_sync a x ! i = (if i < k then x else a ! i)"
    using spread_new_sync [OF len, of x] by blast
  show ?thesis
    unfolding slots_ok_def
  proof (intro conjI allI impI)
    fix i :: nat
    assume i: "0 < i \<and> i < 64"
    have "up (a ! i) \<le> up x" using slots_ok_sorted [OF ok, of 0 i] new i by simp
    moreover have "up (a ! i) \<le> up (a ! (i - 1))" "up (a ! (i - 1)) \<le> up (a ! i) + 2 ^ (i - 1)"
      using ok i by (auto simp: slots_ok_def)
    moreover have "up x \<le> up (a ! i) + 2 ^ (i - 1)" if "\<not> i < k" "i - 1 < k"
    proof -
      have "i = k" using that i by simp
      then show ?thesis using k i by (auto simp: repaired_def within_bound_def)
    qed
    ultimately show "up (insert_sync a x ! i) \<le> up (insert_sync a x ! (i - 1))"
      "up (insert_sync a x ! (i - 1)) \<le> up (insert_sync a x ! i) + 2 ^ (i - 1)"
      using i by (auto simp: r)
  qed (rule l)
qed

lemma spread_slots_spread:
  assumes ok: "slots_ok a" and spread: "slots_spread a"
    and range: "\<And>y. y \<in> set a \<Longrightarrow> 0 \<le> up y \<and> up y < 2 ^ 62"
  shows "slots_spread (insert_sync a x)"
proof -
  have len: "length a = 64" using ok by (simp add: slots_ok_def)
  obtain k where k: "repaired x a 1 k"
    and r: "\<And>i. i < 64 \<Longrightarrow> insert_sync a x ! i = (if i < k then x else a ! i)"
    using spread_new_sync [OF len, of x] by blast
  show ?thesis
    unfolding slots_spread_def
  proof (intro allI impI)
    fix i j :: nat
    assume ij: "0 < i \<and> i < j \<and> j < 64"
    have gap: "up (a ! j) + 2 ^ (i - 1) < up x" if "i < k"
    proof -
      have "\<not> within_bound (a ! i) i x" using k that ij by (simp add: repaired_def)
      moreover have "0 \<le> up (a ! i)" "up (a ! i) < 2 ^ 62" using range len ij by auto
      moreover have "(2::int) ^ (i - 1) \<le> 2 ^ 62" using ij by (intro power_increasing) auto
      ultimately have "up (a ! i) + 2 ^ (i - 1) < up x" by (auto simp: within_bound_def)
      then show ?thesis using slots_ok_sorted [OF ok, of i j] ij by simp
    qed
    then show "insert_sync a x ! i = insert_sync a x ! j \<or>
        up (insert_sync a x ! j) + 2 ^ (i - 1) < up (insert_sync a x ! i)"
      using ij spread by (auto simp: r slots_spread_def)
  qed
qed

lemma set_spread:
  assumes "length a = 64"
  shows "set (insert_sync a x) \<subseteq> insert x (set a)"
    and "insert_sync a x ! 0 = x"
proof -
  obtain k where k: "repaired x a 1 k" and l: "length (insert_sync a x) = 64"
    and r: "\<And>i. i < 64 \<Longrightarrow> insert_sync a x ! i = (if i < k then x else a ! i)"
    using spread_new_sync [OF assms, of x] by blast
  show "set (insert_sync a x) \<subseteq> insert x (set a)"
    by (auto simp: in_set_conv_nth [where xs = "insert_sync a x"] l r assms)
  show "insert_sync a x ! 0 = x" using k by (simp add: r repaired_def)
qed

section \<open>The store as a whole\<close>

definition slots_of :: "SyncStore \<Rightarrow> TopicPartition \<Rightarrow> OffsetSync list" where
  "slots_of s tp = (case ss_syncs s tp of None \<Rightarrow> [] | Some a \<Rightarrow> a)"

lemma store_okD:
  "store_ok s \<Longrightarrow> ss_syncs s tp = Some a \<Longrightarrow> slots_ok a"
  "store_ok s \<Longrightarrow> ss_syncs s tp = Some a \<Longrightarrow> x \<in> set a \<Longrightarrow> os_tp x = tp"
  by (auto simp: store_ok_def)

lemma slots_ok_length: "slots_ok a \<Longrightarrow> length a = 64"
  by (simp add: slots_ok_def)

text \<open>The three reset branches and the update branch of \<open>HandleSync\<close>, as one case rule.\<close>

lemma HandleSync_cases:
  obtains (reset) "ss_syncs (HandleSync s x) = (ss_syncs s)(os_tp x \<mapsto> fill_slots x)"
      "ss_syncs s (os_tp x) = None \<or> \<not> ss_readToEnd s \<or>
        (\<exists>a. ss_syncs s (os_tp x) = Some a \<and> up x < up (a ! 0))"
    | (update) a where "ss_syncs s (os_tp x) = Some a" "up (a ! 0) \<le> up x" "ss_readToEnd s"
      "ss_syncs (HandleSync s x) = (ss_syncs s)(os_tp x \<mapsto> insert_sync a x)"
proof (cases "ss_syncs s (os_tp x)")
  case None
  then show ?thesis by (intro reset) (simp_all add: HandleSync_def)
next
  case (Some a)
  show ?thesis
  proof (cases "up x < up (a ! 0) \<or> \<not> ss_readToEnd s")
    case True
    then show ?thesis
      by (intro reset) (auto simp: HandleSync_def Let_def Some word_sless_alt)
  next
    case False
    then show ?thesis
      by (intro update [OF Some]) (auto simp: HandleSync_def Let_def Some word_sless_alt)
  qed
qed

lemma HandleSync_update:
  "ss_syncs s (os_tp x) = Some a \<Longrightarrow> up (a ! 0) \<le> up x \<Longrightarrow> ss_readToEnd s \<Longrightarrow>
    ss_syncs (HandleSync s x) (os_tp x) = Some (insert_sync a x)"
  by (simp add: HandleSync_def Let_def word_sless_alt)

lemma HandleSync_rewind:
  "ss_syncs s (os_tp x) = Some a \<Longrightarrow> up x < up (a ! 0) \<Longrightarrow>
    ss_syncs (HandleSync s x) (os_tp x) = Some (fill_slots x)"
  by (simp add: HandleSync_def Let_def word_sless_alt)

lemma HandleSync_flags [simp]:
  "ss_readToEnd (HandleSync s x) = ss_readToEnd s" "ss_initialized (HandleSync s x) = ss_initialized s"
  by (auto simp: HandleSync_def Let_def split: option.splits)

lemma MarkReadToEnd_simps [simp]:
  "ss_syncs (MarkReadToEnd s) = ss_syncs s" "ss_readToEnd (MarkReadToEnd s)" "ss_initialized (MarkReadToEnd s)"
  by (simp_all add: MarkReadToEnd_def)

lemma HandleSync_other: "tp \<noteq> os_tp x \<Longrightarrow> ss_syncs (HandleSync s x) tp = ss_syncs s tp"
  by (rule HandleSync_cases [of s x]) simp_all

lemma HandleSync_newest:
  assumes "store_ok s"
  shows "\<exists>a. ss_syncs (HandleSync s x) (os_tp x) = Some a \<and> slots_ok a \<and> a ! 0 = x
    \<and> set a \<subseteq> insert x (set (slots_of s (os_tp x)))"
proof (rule HandleSync_cases [of s x])
  assume "ss_syncs (HandleSync s x) = (ss_syncs s)(os_tp x \<mapsto> fill_slots x)"
  then show ?thesis by (simp add: store_simps) (simp add: fill_slots_def)
next
  fix a
  assume a: "ss_syncs s (os_tp x) = Some a" and le: "up (a ! 0) \<le> up x"
    and eq: "ss_syncs (HandleSync s x) = (ss_syncs s)(os_tp x \<mapsto> insert_sync a x)"
  have ok: "slots_ok a" using assms a by (rule store_okD(1))
  then show ?thesis
    using spread_slots_ok [OF ok le] set_spread [OF slots_ok_length [OF ok], of x]
    by (simp add: eq slots_of_def a)
qed

lemma store_ok_New [store_simps]: "store_ok NewSyncStore"
  by (simp add: store_ok_def NewSyncStore_def)

lemma store_ok_Mark [store_simps]: "store_ok (MarkReadToEnd s) = store_ok s"
  by (simp add: store_ok_def)

lemma store_ok_Handle [store_simps]:
  assumes "store_ok s"
  shows "store_ok (HandleSync s x)"
  unfolding store_ok_def
proof (intro allI impI)
  fix tp a
  assume a: "ss_syncs (HandleSync s x) tp = Some a"
  show "slots_ok a \<and> (\<forall>y \<in> set a. os_tp y = tp)"
  proof (cases "tp = os_tp x")
    case True
    with a HandleSync_newest [OF assms, of x] have "slots_ok a" "set a \<subseteq> insert x (set (slots_of s tp))"
      by auto
    moreover have "\<forall>y \<in> set (slots_of s tp). os_tp y = tp"
      using assms by (cases "ss_syncs s tp") (auto simp: slots_of_def store_ok_def)
    ultimately show ?thesis using True by auto
  next
    case False
    with a assms show ?thesis by (auto simp: HandleSync_other store_ok_def)
  qed
qed

text \<open>Every store the program can build: created empty, then any interleaving of calls.\<close>

inductive store_reach :: "SyncStore \<Rightarrow> bool" where
  store_new: "store_reach NewSyncStore"
| store_handle: "store_reach s \<Longrightarrow> store_reach (HandleSync s x)"
| store_mark: "store_reach s \<Longrightarrow> store_reach (MarkReadToEnd s)"

lemma store_reach_ok: "store_reach s \<Longrightarrow> store_ok s"
  by (induction rule: store_reach.induct) (simp_all add: store_simps)

section \<open>Searching\<close>

text \<open>What the search returns on slots in descending order: \<open>-1\<close> when all slots are later than
  the offset, otherwise the translation by the latest slot that is not later.\<close>

definition step_from :: "OffsetSync \<Rightarrow> int64 \<Rightarrow> int64" where
  "step_from x off = os_downstream x + (if os_upstream x <s off then 1 else 0)"

lemma find_sync_cases:
  obtains (none) "find_sync a off = - 1" "\<And>x. x \<in> set a \<Longrightarrow> sint off < up x"
    | (hit) j where "j < length a" "up (a ! j) \<le> sint off" "find_sync a off = step_from (a ! j) off"
      "\<And>i. i < j \<Longrightarrow> sint off < up (a ! i)"
proof (induction a arbitrary: thesis)
  case Nil
  then show ?case by simp
next
  case (Cons x a)
  show ?case
  proof (cases "up x \<le> sint off")
    case True
    then show ?thesis
      by (intro Cons.prems(2) [of 0]) (simp_all add: word_sle_eq step_from_def)
  next
    case False
    show ?thesis
    proof (rule Cons.IH)
      assume "find_sync a off = - 1" "\<And>y. y \<in> set a \<Longrightarrow> sint off < up y"
      with False show ?thesis by (intro Cons.prems(1)) (auto simp: word_sle_eq)
    next
      fix j
      assume "j < length a" "up (a ! j) \<le> sint off" "find_sync a off = step_from (a ! j) off"
        "\<And>i. i < j \<Longrightarrow> sint off < up (a ! i)"
      with False show ?thesis
        by (intro Cons.prems(2) [of "Suc j"]) (auto simp: word_sle_eq nth_Cons split: nat.splits)
    qed
  qed
qed

section \<open>The interface\<close>

text \<open>
  The syncs \<open>S\<close> of a partition agree with a placement \<open>f\<close> of its replicated records: the
  record with source offset \<open>o\<close> has target offset \<open>f o\<close>. Kafka keeps the order of a partition,
  so \<open>f\<close> is strictly increasing on the replicated offsets \<open>R\<close>.
\<close>

definition placed :: "OffsetSync set \<Rightarrow> int set \<Rightarrow> (int \<Rightarrow> int) \<Rightarrow> bool" where
  "placed S R f \<longleftrightarrow> strict_mono_on R f \<and> (\<forall>k \<in> R. 0 \<le> f k \<and> f k < 2 ^ 63 - 1)
     \<and> (\<forall>x \<in> S. up x \<in> R \<and> down x = f (up x))"


text \<open>
  What the emitters rely on: a store that retains some of the syncs it was given and translates
  an offset by the latest retained sync that does not lie beyond it. The laws say nothing about
  how many syncs are kept or how they are spaced.
\<close>

locale offset_translator =
  fixes handle :: "'st \<Rightarrow> OffsetSync \<Rightarrow> 'st"
    and translate :: "'st \<Rightarrow> TopicPartition \<Rightarrow> int64 \<Rightarrow> int64 \<times> bool"
    and retained :: "'st \<Rightarrow> TopicPartition \<Rightarrow> OffsetSync set"
    and invar :: "'st \<Rightarrow> bool"
  assumes invar_handle: "invar s \<Longrightarrow> invar (handle s x)"
    and retained_handle: "invar s \<Longrightarrow>
      retained (handle s x) tp \<subseteq> retained s tp \<union> (if tp = os_tp x then {x} else {})"
    and translate_found: "invar s \<Longrightarrow> translate s tp off = (d, True) \<Longrightarrow>
      y \<in> retained s tp \<Longrightarrow> up y \<le> sint off \<Longrightarrow>
      \<exists>x \<in> retained s tp. up y \<le> up x \<and> up x \<le> sint off \<and> d = step_from x off"
    and translate_none: "invar s \<Longrightarrow> translate s tp off = (d, True) \<Longrightarrow>
      (\<And>y. y \<in> retained s tp \<Longrightarrow> sint off < up y) \<Longrightarrow> d = - 1"
begin

text \<open>Along a history of calls, only syncs of the history are retained.\<close>

lemma invar_history: "invar s \<Longrightarrow> invar (foldl handle s xs)"
  by (induction xs arbitrary: s) (simp_all add: invar_handle)

lemma retained_history:
  "invar s \<Longrightarrow> retained (foldl handle s xs) tp \<subseteq> retained s tp \<union> {x \<in> set xs. os_tp x = tp}"
proof (induction xs arbitrary: s)
  case (Cons x xs)
  then have "retained (foldl handle (handle s x) xs) tp \<subseteq> retained (handle s x) tp \<union> {y \<in> set xs. os_tp y = tp}"
    by (simp add: invar_handle)
  with retained_handle [OF Cons.prems, of x tp] show ?case by (auto split: if_splits)
qed simp

lemma step_from_placed:
  assumes "placed (retained s tp) R f" "x \<in> retained s tp"
  shows "sint (step_from x off) = f (up x) + (if up x < sint off then 1 else 0)"
proof -
  have "down x = f (up x)" "0 \<le> f (up x)" "f (up x) < 2 ^ 63 - 1"
    using assms by (auto simp: placed_def)
  then show ?thesis by (auto simp: step_from_def word_sless_alt sint_add64)
qed

lemma translate_cases:
  assumes "invar s" "translate s tp off = (d, True)"
  obtains "d = - 1" "\<And>y. y \<in> retained s tp \<Longrightarrow> sint off < up y"
    | x where "x \<in> retained s tp" "up x \<le> sint off" "d = step_from x off"
      "\<And>y. y \<in> retained s tp \<Longrightarrow> up y \<le> sint off \<Longrightarrow> \<exists>x'. x' \<in> retained s tp \<and> up y \<le> up x' \<and> up x' \<le> sint off \<and> d = step_from x' off"
proof (cases "\<exists>y \<in> retained s tp. up y \<le> sint off")
  case True
  then obtain y where "y \<in> retained s tp" "up y \<le> sint off" by blast
  from translate_found [OF assms this] translate_found [OF assms] show thesis by (metis that(2))
next
  case False
  then have none: "\<And>y. y \<in> retained s tp \<Longrightarrow> sint off < up y" by force
  then have "d = - 1" by (rule translate_none [OF assms])
  then show thesis using none by (rule that(1))
qed

text \<open>A translated offset never lies beyond a record that the consumer has not read.\<close>

lemma translate_skips_nothing:
  assumes "invar s" "translate s tp off = (d, True)" "placed (retained s tp) R f" "k \<in> R" "sint off \<le> k"
  shows "sint d \<le> f k"
  using assms(1,2)
proof (cases rule: translate_cases)
  case 1
  then show ?thesis using assms(3,4) by (auto simp: placed_def)
next
  case (2 x)
  have R: "up x \<in> R" "strict_mono_on R f" using 2(1) assms(3) by (auto simp: placed_def)
  show ?thesis
  proof (cases "up x < sint off")
    case True
    then have "f (up x) < f k" using R assms(4,5) by (auto simp: strict_mono_on_def)
    with True show ?thesis by (simp add: 2(3) step_from_placed [OF assms(3) 2(1)])
  next
    case False
    then have "f (up x) \<le> f k"
      using R assms(4,5) 2(2) by (cases "up x = k") (auto simp: strict_mono_on_def intro: less_imp_le)
    with False show ?thesis by (simp add: 2(3) step_from_placed [OF assms(3) 2(1)])
  qed
qed

text \<open>A larger offset is never translated to a smaller one.\<close>

lemma translate_mono:
  assumes "invar s" "translate s tp a = (d, True)" "translate s tp b = (e, True)"
    and placed: "placed (retained s tp) R f" and le: "sint a \<le> sint b"
  shows "sint d \<le> sint e"
  using assms(1,2)
proof (cases rule: translate_cases)
  case 1
  from assms(1,3) have "- 1 \<le> sint e"
  proof (cases rule: translate_cases)
    case (2 y)
    then have "0 \<le> f (up y)" using placed by (auto simp: placed_def)
    then show ?thesis by (simp add: 2(3) step_from_placed [OF placed 2(1)])
  qed simp
  with 1 show ?thesis by simp
next
  case (2 x)
  have "up x \<le> sint b" using 2(2) le by simp
  with translate_found [OF assms(1,3) 2(1)] obtain y where
    y: "y \<in> retained s tp" "up x \<le> up y" "up y \<le> sint b" "e = step_from y b" by blast
  have "sint (step_from x a) \<le> sint (step_from y b)"
  proof (cases "up x = up y")
    case True
    then show ?thesis
      using le by (simp add: step_from_placed [OF placed 2(1)] step_from_placed [OF placed y(1)])
  next
    case False
    then have "f (up x) < f (up y)"
      using y 2(1) placed by (auto simp: placed_def strict_mono_on_def)
    then show ?thesis
      by (simp add: step_from_placed [OF placed 2(1)] step_from_placed [OF placed y(1)])
  qed
  then show ?thesis using 2(3) y(4) by simp
qed

end

lemma find_sync_best:
  assumes "slots_ok a" "y \<in> set a" "up y \<le> sint off"
  shows "\<exists>x \<in> set a. up y \<le> up x \<and> up x \<le> sint off \<and> find_sync a off = step_from x off"
proof (rule find_sync_cases [of a off])
  assume "\<And>x. x \<in> set a \<Longrightarrow> sint off < up x"
  then show ?thesis using assms(2,3) by force
next
  fix j
  assume j: "j < length a" "up (a ! j) \<le> sint off" "find_sync a off = step_from (a ! j) off"
    and before: "\<And>i. i < j \<Longrightarrow> sint off < up (a ! i)"
  obtain i where i: "i < length a" "a ! i = y" using assms(2) by (auto simp: in_set_conv_nth)
  then have "j \<le> i" using before [of i] assms(3) by force
  then have "up y \<le> up (a ! j)"
    using slots_ok_sorted [OF assms(1), of j i] i slots_ok_length [OF assms(1)] by simp
  with j show ?thesis by (intro bexI [of _ "a ! j"]) auto
qed

lemma find_sync_none: "(\<And>y. y \<in> set a \<Longrightarrow> sint off < up y) \<Longrightarrow> find_sync a off = - 1"
proof (induction a)
  case (Cons x a)
  then have "\<not> os_upstream x \<le>s off" by (force simp: word_sle_eq)
  with Cons show ?case by simp
qed simp

lemma TranslateDownstream_True:
  "TranslateDownstream s tp off = (d, True) \<longleftrightarrow>
     ss_readToEnd s \<and> (\<exists>a. ss_syncs s tp = Some a \<and> d = find_sync a off)"
  by (auto simp: TranslateDownstream_def split: option.splits if_splits)

interpretation store: offset_translator HandleSync TranslateDownstream "\<lambda>s tp. set (slots_of s tp)" store_ok
proof unfold_locales
  fix s x tp
  assume ok: "store_ok s"
  then show "store_ok (HandleSync s x)" by (rule store_ok_Handle)
  show "set (slots_of (HandleSync s x) tp) \<subseteq> set (slots_of s tp) \<union> (if tp = os_tp x then {x} else {})"
    using HandleSync_newest [OF ok, of x]
    by (cases "tp = os_tp x") (auto simp: slots_of_def HandleSync_other)
next
  fix s tp off d y
  assume ok: "store_ok s" and "TranslateDownstream s tp off = (d, True)"
    and y: "y \<in> set (slots_of s tp)" "up y \<le> sint off"
  then obtain a where a: "ss_syncs s tp = Some a" "d = find_sync a off"
    by (auto simp: TranslateDownstream_True)
  then show "\<exists>x \<in> set (slots_of s tp). up y \<le> up x \<and> up x \<le> sint off \<and> d = step_from x off"
    using find_sync_best [OF store_okD(1) [OF ok a(1)], of y off] y by (simp add: slots_of_def)
next
  fix s tp off d
  assume "TranslateDownstream s tp off = (d, True)" "\<And>y. y \<in> set (slots_of s tp) \<Longrightarrow> sint off < up y"
  then show "d = - 1" by (auto simp: TranslateDownstream_True slots_of_def find_sync_none)
qed

section \<open>Histories\<close>

lemma handle_all_simps [simp]:
  "handle_all s [] = s" "handle_all s (x # xs) = handle_all (HandleSync s x) xs"
  "handle_all s (xs @ [x]) = HandleSync (handle_all s xs) x"
  by (simp_all add: handle_all_def)

lemma handle_all_ready [simp]: "ss_readToEnd (handle_all s xs) = ss_readToEnd s"
  by (induction xs rule: rev_induct) simp_all

lemma handle_all_reach: "store_reach s \<Longrightarrow> store_reach (handle_all s xs)"
  by (induction xs rule: rev_induct) (simp_all add: store_handle)

text \<open>Upstream offsets as Kafka assigns them; the upper half of the range is never reached.\<close>

definition usual_offset :: "OffsetSync \<Rightarrow> bool" where
  "usual_offset x \<longleftrightarrow> 0 \<le> up x \<and> up x < 2 ^ 62"

definition spread_store :: "SyncStore \<Rightarrow> bool" where
  "spread_store s \<longleftrightarrow> (\<forall>tp a. ss_syncs s tp = Some a \<longrightarrow> slots_ok a \<and> slots_spread a \<and> (\<forall>y \<in> set a. usual_offset y))"

lemma spread_store_Handle:
  assumes s: "spread_store s" and x: "usual_offset x"
  shows "spread_store (HandleSync s x)"
proof (rule HandleSync_cases [of s x])
  assume "ss_syncs (HandleSync s x) = (ss_syncs s)(os_tp x \<mapsto> fill_slots x)"
  with s x show ?thesis by (auto simp: spread_store_def store_simps split: if_splits)
next
  fix a
  assume a: "ss_syncs s (os_tp x) = Some a" and le: "up (a ! 0) \<le> up x"
    and eq: "ss_syncs (HandleSync s x) = (ss_syncs s)(os_tp x \<mapsto> insert_sync a x)"
  have ok: "slots_ok a" "slots_spread a" "\<And>y. y \<in> set a \<Longrightarrow> usual_offset y"
    using s a by (auto simp: spread_store_def)
  have "slots_ok (insert_sync a x)" using ok(1) le by (rule spread_slots_ok)
  moreover have "slots_spread (insert_sync a x)"
    using ok by (intro spread_slots_spread) (auto simp: usual_offset_def)
  moreover have "\<forall>y \<in> set (insert_sync a x). usual_offset y"
    using set_spread(1) [OF slots_ok_length [OF ok(1)], of x] ok(3) x by auto
  ultimately show ?thesis using s by (auto simp: spread_store_def eq split: if_splits)
qed

lemma spread_store_history:
  "spread_store s \<Longrightarrow> (\<forall>x \<in> set xs. usual_offset x) \<Longrightarrow> spread_store (handle_all s xs)"
  by (induction xs arbitrary: s) (simp_all add: spread_store_Handle)

lemma spread_store_New: "spread_store NewSyncStore" "spread_store (MarkReadToEnd NewSyncStore)"
  by (simp_all add: spread_store_def NewSyncStore_def)

text \<open>With usual offsets the last slot is never overwritten by an update.\<close>

lemma insert_sync_oldest:
  assumes "slots_ok a" "usual_offset (a ! 63)" "usual_offset x"
  shows "insert_sync a x ! 63 = a ! 63"
proof -
  have len: "length a = 64" using assms(1) by (rule slots_ok_length)
  obtain k where k: "repaired x a 1 k"
    and r: "\<And>i. i < 64 \<Longrightarrow> insert_sync a x ! i = (if i < k then x else a ! i)"
    using spread_new_sync [OF len, of x] by blast
  have "within_bound (a ! 63) 63 x" using assms(2,3) by (simp add: within_bound_def usual_offset_def)
  moreover have "\<not> within_bound (a ! 63) 63 x" if "63 < k" using k that by (simp add: repaired_def)
  ultimately have "\<not> 63 < k" by blast
  then show ?thesis using r [of 63] by simp
qed

lemma history_slots:
  assumes "\<forall>x \<in> set (x0 # xs). usual_offset x \<and> os_tp x = tp" and "sorted (map up (x0 # xs))"
  shows "\<exists>a. ss_syncs (handle_all (MarkReadToEnd NewSyncStore) (x0 # xs)) tp = Some a \<and> slots_ok a
    \<and> a ! 63 = x0 \<and> a ! 0 = last (x0 # xs) \<and> set a \<subseteq> set (x0 # xs)"
  using assms
proof (induction xs rule: rev_induct)
  case Nil
  then have "ss_syncs (HandleSync (MarkReadToEnd NewSyncStore) x0) tp = Some (fill_slots x0)"
    by (simp add: HandleSync_def NewSyncStore_def)
  then show ?case by (simp add: store_simps) (simp add: fill_slots_def)
next
  case (snoc x xs)
  let ?s = "handle_all (MarkReadToEnd NewSyncStore) (x0 # xs)"
  have "sorted (map up (x0 # xs))" and le: "\<forall>y \<in> set (x0 # xs). up y \<le> up x"
    using snoc.prems(2) by (auto simp: sorted_append)
  moreover have "\<forall>x \<in> set (x0 # xs). usual_offset x \<and> os_tp x = tp" using snoc.prems(1) by simp
  ultimately obtain a where a: "ss_syncs ?s tp = Some a" "slots_ok a" "a ! 63 = x0"
      "a ! 0 = last (x0 # xs)" "set a \<subseteq> set (x0 # xs)"
    using snoc.IH by blast
  have le0: "up (a ! 0) \<le> up x" using le a(4) by (metis last_in_set list.distinct(1))
  have tp: "os_tp x = tp" using snoc.prems(1) by simp
  have "ss_syncs (HandleSync ?s x) tp = Some (insert_sync a x)"
    using HandleSync_update [of ?s x a, unfolded tp, OF a(1) le0] by simp
  moreover have "usual_offset x0" "usual_offset x" using snoc.prems(1) by auto
  then have "insert_sync a x ! 63 = x0" using insert_sync_oldest [OF a(2), of x] a(3) by metis
  moreover note set_spread [OF slots_ok_length [OF a(2)], of x] spread_slots_ok [OF a(2) le0]
  moreover have "handle_all (MarkReadToEnd NewSyncStore) (x0 # xs @ [x]) = HandleSync ?s x"
    by (simp add: handle_all_def)
  ultimately show ?case using a(5) by auto
qed

section \<open>Properties\<close>

text \<open>A ready store that was given two syncs of a partition, for the concrete instances below.\<close>

definition sync_at :: "int64 \<Rightarrow> int64 \<Rightarrow> OffsetSync" where
  "sync_at u d = \<lparr>os_tp = \<lparr>tp_topic = ''t'', tp_partition = 0\<rparr>, os_upstream = u, os_downstream = d\<rparr>"

abbreviation tp_t0 :: TopicPartition where
  "tp_t0 \<equiv> \<lparr>tp_topic = ''t'', tp_partition = 0\<rparr>"

definition demo_store :: SyncStore where
  "demo_store = handle_all (MarkReadToEnd NewSyncStore) [sync_at 100 50, sync_at 101 51]"

lemma demo_first: "ss_syncs (HandleSync (MarkReadToEnd NewSyncStore) (sync_at 100 50)) tp_t0 = Some (fill_slots (sync_at 100 50))"
  by (simp add: HandleSync_def NewSyncStore_def sync_at_def)

lemma insert_sync_stop:
  "length a = 64 \<Longrightarrow> within_bound (a ! 1) 1 x \<Longrightarrow> insert_sync a x = a[0 := x]"
  using loop_test_iff [of 1 "a ! 1" x]
  by (simp add: insert_sync_def) (subst spread_syncs.simps, simp add: Let_def)

lemma demo_slots: "ss_syncs demo_store tp_t0 = Some ((fill_slots (sync_at 100 50))[0 := sync_at 101 51])"
proof -
  have "insert_sync (fill_slots (sync_at 100 50)) (sync_at 101 51) = (fill_slots (sync_at 100 50))[0 := sync_at 101 51]"
    by (rule insert_sync_stop) (simp_all add: fill_slots_def within_bound_def sync_at_def)
  moreover have "ss_syncs demo_store tp_t0 = Some (insert_sync (fill_slots (sync_at 100 50)) (sync_at 101 51))"
    using HandleSync_update [of "HandleSync (MarkReadToEnd NewSyncStore) (sync_at 100 50)" "sync_at 101 51"
        "fill_slots (sync_at 100 50)"] demo_first
    by (simp add: demo_store_def) (simp add: sync_at_def fill_slots_def)
  ultimately show ?thesis by simp
qed

lemma demo_reach: "store_reach demo_store"
  by (simp add: demo_store_def store_reach.intros)

lemma demo_ready: "ss_readToEnd demo_store"
  by (simp add: demo_store_def)

lemma demo_translate:
  "TranslateDownstream demo_store tp_t0 120 = (52, True)" "TranslateDownstream demo_store tp_t0 100 = (50, True)"
proof -
  have "fill_slots (sync_at 100 50) = sync_at 100 50 # sync_at 100 50 # replicate 62 (sync_at 100 50)"
    by (simp add: fill_slots_def numeral_eq_Suc)
  then show "TranslateDownstream demo_store tp_t0 120 = (52, True)" "TranslateDownstream demo_store tp_t0 100 = (50, True)"
    by (simp_all add: TranslateDownstream_True demo_ready demo_slots sync_at_def)
qed

lemma demo_placed: "placed (set (slots_of demo_store tp_t0)) {100, 101, 150} (\<lambda>k. k - 50)"
proof -
  have "set (slots_of demo_store tp_t0) \<subseteq> {sync_at 100 50, sync_at 101 51}"
    using set_update_subset_insert [of "fill_slots (sync_at 100 50)" 0 "sync_at 101 51"]
    by (auto simp: slots_of_def demo_slots)
  then show ?thesis by (auto simp: placed_def strict_mono_on_def sync_at_def)
qed

text \<open>
  C3. In every store the program can build, each partition's array has 64 syncs of that partition,
  upstream offsets do not increase along the slots, and any two slots \<open>i \<le> j\<close> are within
  \<open>2^j - 2^i\<close> of each other: the invariants that \<open>HandleSync\<close> is meant to maintain, also when
  the spacing bound overflows.
\<close>

theorem store_slots_invariant:
  assumes "store_reach s" and "ss_syncs s tp = Some a" and "i \<le> j" and "j < 64"
  shows "length a = 64 \<and> up (a ! j) \<le> up (a ! i) \<and> up (a ! i) \<le> up (a ! j) + 2 ^ j - 2 ^ i \<and> os_tp (a ! j) = tp"
proof -
  have ok: "store_ok s" using assms(1) by (rule store_reach_ok)
  note slots = store_okD(1) [OF ok assms(2)]
  moreover have "a ! j \<in> set a" using slots assms(4) by (simp add: slots_ok_length)
  ultimately show ?thesis
    using slots_ok_sorted [OF slots assms(3,4)] slots_ok_bound [OF slots assms(3,4)]
      store_okD(2) [OF ok assms(2)] by (simp add: slots_ok_length)
qed

theorem store_slots_invariant_witness:
  "length ((fill_slots (sync_at 100 50))[0 := sync_at 101 51]) = 64
   \<and> up ((fill_slots (sync_at 100 50))[0 := sync_at 101 51] ! 1) \<le> up ((fill_slots (sync_at 100 50))[0 := sync_at 101 51] ! 0)
   \<and> up ((fill_slots (sync_at 100 50))[0 := sync_at 101 51] ! 0)
       \<le> up ((fill_slots (sync_at 100 50))[0 := sync_at 101 51] ! 1) + 2 ^ 1 - 2 ^ 0
   \<and> os_tp ((fill_slots (sync_at 100 50))[0 := sync_at 101 51] ! 1) = tp_t0"
  by (rule store_slots_invariant [OF demo_reach demo_slots]) simp_all

text \<open>
  Slots that differ are exponentially far apart: after any history of syncs with ordinary
  Kafka offsets (below \<open>2^62\<close>), two slots \<open>0 < i < j\<close> of a partition hold the same sync or are
  more than \<open>2^(i-1)\<close> apart. Together with the upper bound of the slot invariant this is the
  exponential spacing the store promises.
\<close>

lemma store_slots_spread:
  assumes "\<forall>x \<in> set xs. usual_offset x"
    and "ss_syncs (handle_all (MarkReadToEnd NewSyncStore) xs) tp = Some a"
    and "0 < i" and "i < j" and "j < 64"
  shows "a ! i = a ! j \<or> up (a ! j) + 2 ^ (i - 1) < up (a ! i)"
proof -
  have "spread_store (handle_all (MarkReadToEnd NewSyncStore) xs)"
    using spread_store_New(2) assms(1) by (rule spread_store_history)
  then show ?thesis using assms(2-5) by (auto simp: spread_store_def slots_spread_def)
qed

lemma store_slots_spread_example:
  "((fill_slots (sync_at 100 50))[0 := sync_at 101 51]) ! 2 = ((fill_slots (sync_at 100 50))[0 := sync_at 101 51]) ! 5
   \<or> up (((fill_slots (sync_at 100 50))[0 := sync_at 101 51]) ! 5) + 2 ^ (2 - 1)
       < up (((fill_slots (sync_at 100 50))[0 := sync_at 101 51]) ! 2)"
proof (rule store_slots_spread [where xs = "[sync_at 100 50, sync_at 101 51]" and tp = tp_t0])
  show "\<forall>x \<in> set [sync_at 100 50, sync_at 101 51]. usual_offset x" by (simp add: usual_offset_def sync_at_def)
qed (use demo_slots in \<open>simp_all add: demo_store_def\<close>)





text \<open>
  The newest sync is translated exactly, and other partitions are not touched: after
  \<open>HandleSync x\<close> on any reachable ready store, the partition of \<open>x\<close> maps the upstream offset of
  \<open>x\<close> to its downstream offset, later offsets to the one after it, and every other partition
  translates as before.
\<close>

lemma handle_sync_translates_exactly:
  assumes "store_reach s" and "ss_readToEnd s"
  shows "TranslateDownstream (HandleSync s x) (os_tp x) (os_upstream x) = (os_downstream x, True)
    \<and> (up x < sint off \<longrightarrow> TranslateDownstream (HandleSync s x) (os_tp x) off = (os_downstream x + 1, True))
    \<and> (tp \<noteq> os_tp x \<longrightarrow> TranslateDownstream (HandleSync s x) tp off = TranslateDownstream s tp off)"
proof -
  obtain a where a: "ss_syncs (HandleSync s x) (os_tp x) = Some a" "slots_ok a" "a ! 0 = x"
    using HandleSync_newest [OF store_reach_ok [OF assms(1)], of x] by blast
  then obtain r where "a = x # r" using slots_ok_length [of a] by (cases a) auto
  with a(1) assms(2) show ?thesis
    by (auto simp: TranslateDownstream_def HandleSync_other word_sle_eq word_sless_alt)
qed

lemma handle_sync_translates_exactly_example:
  "TranslateDownstream (HandleSync demo_store (sync_at 500 300)) tp_t0 500 = (300, True)"
  using handle_sync_translates_exactly [OF demo_reach demo_ready, of "sync_at 500 300"]
  by (simp add: sync_at_def)

text \<open>
  C11. Every offset since the first sync stays translatable. Feed a ready store any non-empty
  in-order history of one partition. Then an offset at or after the first sync is translated by
  a sync of the history that does not lie beyond it, and that sync is the newest one or, in slot
  \<open>j\<close>, less than \<open>2^(j-1)\<close> behind the offset.
\<close>

theorem history_stays_translatable:
  assumes "\<forall>x \<in> set (x0 # xs). usual_offset x \<and> os_tp x = tp" and "sorted (map up (x0 # xs))"
    and "up x0 \<le> sint off"
  shows "\<exists>x j. x \<in> set (x0 # xs) \<and> up x \<le> sint off \<and> j < 64
    \<and> TranslateDownstream (handle_all (MarkReadToEnd NewSyncStore) (x0 # xs)) tp off = (step_from x off, True)
    \<and> (j = 0 \<and> x = last (x0 # xs) \<or> 0 < j \<and> sint off - up x < 2 ^ (j - 1))"
proof -
  obtain a where a: "ss_syncs (handle_all (MarkReadToEnd NewSyncStore) (x0 # xs)) tp = Some a" "slots_ok a"
      "a ! 63 = x0" "a ! 0 = last (x0 # xs)" "set a \<subseteq> set (x0 # xs)"
    using history_slots [OF assms(1,2)] by blast
  have len: "length a = 64" using a(2) by (rule slots_ok_length)
  show ?thesis
  proof (rule find_sync_cases [of a off])
    assume "\<And>x. x \<in> set a \<Longrightarrow> sint off < up x"
    then have "sint off < up x0" using a(3) len by (metis nth_mem numeral_less_iff semiring_norm(68,76,81))
    with assms(3) show ?thesis by simp
  next
    fix j
    assume j: "j < length a" "up (a ! j) \<le> sint off" "find_sync a off = step_from (a ! j) off"
      and before: "\<And>i. i < j \<Longrightarrow> sint off < up (a ! i)"
    have "sint off - up (a ! j) < 2 ^ (j - 1)" if "0 < j"
      using before [of "j - 1"] that a(2) j(1) len by (force simp: slots_ok_def)
    then have "j = 0 \<and> a ! j = last (x0 # xs) \<or> 0 < j \<and> sint off - up (a ! j) < 2 ^ (j - 1)"
      using a(4) by (cases "j = 0") simp_all
    moreover have "a ! j \<in> set (x0 # xs)" using a(5) j(1) nth_mem by blast
    moreover have "TranslateDownstream (handle_all (MarkReadToEnd NewSyncStore) (x0 # xs)) tp off = (step_from (a ! j) off, True)"
      unfolding TranslateDownstream_True using a(1) j(3) by (simp del: handle_all_simps)
    ultimately show ?thesis using j(1,2) len by metis
  qed
qed

theorem history_stays_translatable_witness:
  "\<exists>x j. x \<in> set [sync_at 100 50, sync_at 101 51] \<and> up x \<le> sint (100 :: int64) \<and> j < 64
    \<and> TranslateDownstream (handle_all (MarkReadToEnd NewSyncStore) [sync_at 100 50, sync_at 101 51]) tp_t0 100
        = (step_from x 100, True)
    \<and> (j = 0 \<and> x = last [sync_at 100 50, sync_at 101 51] \<or> 0 < j \<and> sint (100 :: int64) - up x < 2 ^ (j - 1))"
  by (rule history_stays_translatable) (simp_all add: usual_offset_def sync_at_def)

text \<open>
  A sync older than the newest one wipes the partition's history: all 64 slots become that
  sync, so every offset before it is reported as too old and every later one is translated
  as if nothing after it were known. The store cannot tell an upstream rewind from a late or
  repeated sync of the same stream.
\<close>

lemma older_sync_wipes_history:
  assumes "store_reach s" and "ss_readToEnd s" and "ss_syncs s (os_tp x) = Some a" and "up x < up (a ! 0)"
  shows "ss_syncs (HandleSync s x) (os_tp x) = Some (fill_slots x)
    \<and> TranslateDownstream (HandleSync s x) (os_tp x) off = (if sint off < up x then - 1 else step_from x off, True)"
proof -
  have "ss_syncs (HandleSync s x) (os_tp x) = Some (fill_slots x)"
    using assms(3,4) by (rule HandleSync_rewind)
  moreover have "find_sync (fill_slots x) off = (if sint off < up x then - 1 else step_from x off)"
    by (rule find_sync_cases [of "fill_slots x" off]) (auto simp: fill_slots_def)
  ultimately show ?thesis using assms(2) by (simp add: TranslateDownstream_True)
qed

lemma older_sync_wipes_history_example:
  "TranslateDownstream (HandleSync demo_store (sync_at 60 30)) tp_t0 101 = (31, True)"
proof -
  have "ss_syncs demo_store (os_tp (sync_at 60 30)) = Some ((fill_slots (sync_at 100 50))[0 := sync_at 101 51])"
    using demo_slots by (simp add: sync_at_def)
  from older_sync_wipes_history [OF demo_reach demo_ready this, of 101] show ?thesis
    by (simp add: fill_slots_def) (simp add: sync_at_def step_from_def)
qed

end
