(* ===== verification/Kafka_Types.thy ===== *)
theory Kafka_Types
  imports Mirror_Prelude
begin

text \<open>
  The values the code exchanges with the Kafka client library: records, the result of a poll,
  and the errors a produce call reports to its callback. The library itself is not modelled:
  what a poll returns and whether a produce succeeds are inputs of the definitions that use them.
\<close>

record RecordHeader =
  rh_key :: string
  rh_value :: "byte list"

record Record =
  rec_topic :: string
  rec_partition :: int32
  rec_key :: "byte list"
  rec_value :: "byte list"
  rec_headers :: "RecordHeader list"
  rec_timestamp :: int
  rec_offset :: int64

text \<open>The zero \<open>kgo.Record\<close>, from which a composite literal sets some fields.\<close>

definition zero_record :: Record where
  "zero_record = \<lparr>rec_topic = [], rec_partition = 0, rec_key = [], rec_value = [], rec_headers = [],
     rec_timestamp = 0, rec_offset = 0\<rparr>"

text \<open>
  One \<open>PollFetches\<close> call: what \<open>ctx.Err()\<close> is when it returns, the partition errors and the
  records of the fetches.
\<close>

record Poll =
  poll_ctx :: "go_error option"
  poll_errors :: "go_error list"
  poll_records :: "Record list"

end
