(* ===== verification/Topic_Filter.thy ===== *)
theory Topic_Filter
  imports Mirror_Prelude
begin

text \<open>
  \<open>internal/filter/topic.go\<close>: the whitelist/blacklist filters for topics, consumer groups and
  topic configuration properties. A compiled pattern is a value of a type \<open>'re\<close>; the regular
  expression engine is a parameter: \<open>compile\<close> is \<open>regexp.Compile\<close> and \<open>match\<close> is
  \<open>MatchString\<close>. The filters only iterate over the patterns in order and stop at the first
  match, so their behaviour does not depend on the pattern language.
\<close>

section \<open>Data\<close>

record 're TopicFilter =
  tf_whitelist :: "'re list"
  tf_blacklist :: "'re list"

record 're GroupFilter =
  gf_whitelist :: "'re list"
  gf_blacklist :: "'re list"

record 're ConfigPropertyFilter =
  cf_whitelist :: "'re list"
  cf_blacklist :: "'re list"

section \<open>Operations\<close>

fun compilePatterns :: "(string \<Rightarrow> go_error + 're) \<Rightarrow> string list \<Rightarrow> go_error + 're list" where
  "compilePatterns compile [] = Inr []"
| "compilePatterns compile (p # ps) =
     (case compile p of
        Inl err \<Rightarrow> Inl err
      | Inr re \<Rightarrow> (case compilePatterns compile ps of Inl err \<Rightarrow> Inl err | Inr res \<Rightarrow> Inr (re # res)))"

text \<open>The loop \<open>for _, re := range list { if re.MatchString(name) { ... } }\<close>.\<close>

fun any_match :: "('re \<Rightarrow> string \<Rightarrow> bool) \<Rightarrow> 're list \<Rightarrow> string \<Rightarrow> bool" where
  "any_match match [] name = False"
| "any_match match (re # res) name = (if match re name then True else any_match match res name)"

definition NewTopicFilter :: "(string \<Rightarrow> go_error + 're) \<Rightarrow> string list \<Rightarrow> string list \<Rightarrow> go_error + 're TopicFilter" where
  "NewTopicFilter compile whitelist blacklist =
     (case compilePatterns compile whitelist of
        Inl err \<Rightarrow> Inl err
      | Inr wl \<Rightarrow> (case compilePatterns compile blacklist of
          Inl err \<Rightarrow> Inl err
        | Inr bl \<Rightarrow> Inr \<lparr>tf_whitelist = wl, tf_blacklist = bl\<rparr>))"

definition TopicFilter_ShouldReplicate :: "('re \<Rightarrow> string \<Rightarrow> bool) \<Rightarrow> 're TopicFilter \<Rightarrow> string \<Rightarrow> bool" where
  "TopicFilter_ShouldReplicate match tf topic =
     (if HasPrefix topic ''__'' \<or> HasPrefix topic ''.'' then False
      else if any_match match (tf_blacklist tf) topic then False
      else if tf_whitelist tf = [] then True
      else any_match match (tf_whitelist tf) topic)"

definition NewGroupFilter :: "(string \<Rightarrow> go_error + 're) \<Rightarrow> string list \<Rightarrow> string list \<Rightarrow> go_error + 're GroupFilter" where
  "NewGroupFilter compile whitelist blacklist =
     (case compilePatterns compile whitelist of
        Inl err \<Rightarrow> Inl err
      | Inr wl \<Rightarrow> (case compilePatterns compile blacklist of
          Inl err \<Rightarrow> Inl err
        | Inr bl \<Rightarrow> Inr \<lparr>gf_whitelist = wl, gf_blacklist = bl\<rparr>))"

definition GroupFilter_ShouldReplicate :: "('re \<Rightarrow> string \<Rightarrow> bool) \<Rightarrow> 're GroupFilter \<Rightarrow> string \<Rightarrow> bool" where
  "GroupFilter_ShouldReplicate match gf grp =
     (if any_match match (gf_blacklist gf) grp then False
      else if gf_whitelist gf = [] then True
      else any_match match (gf_whitelist gf) grp)"

definition NewConfigPropertyFilter ::
    "(string \<Rightarrow> go_error + 're) \<Rightarrow> string list \<Rightarrow> string list \<Rightarrow> go_error + 're ConfigPropertyFilter" where
  "NewConfigPropertyFilter compile whitelist blacklist =
     (case compilePatterns compile whitelist of
        Inl err \<Rightarrow> Inl err
      | Inr wl \<Rightarrow> (case compilePatterns compile blacklist of
          Inl err \<Rightarrow> Inl err
        | Inr bl \<Rightarrow> Inr \<lparr>cf_whitelist = wl, cf_blacklist = bl\<rparr>))"

definition ConfigPropertyFilter_ShouldReplicate ::
    "('re \<Rightarrow> string \<Rightarrow> bool) \<Rightarrow> 're ConfigPropertyFilter \<Rightarrow> string \<Rightarrow> bool" where
  "ConfigPropertyFilter_ShouldReplicate match cf property =
     (if any_match match (cf_blacklist cf) property then False
      else if cf_whitelist cf = [] then True
      else any_match match (cf_whitelist cf) property)"

section \<open>Lemmas\<close>

lemma any_match_iff: "any_match match res name \<longleftrightarrow> (\<exists>re \<in> set res. match re name)"
  by (induction res) auto

text \<open>Compilation succeeds exactly when every pattern compiles, and then keeps their order.\<close>

lemma compilePatterns_Inr:
  "compilePatterns compile ps = Inr res \<longleftrightarrow> map compile ps = map Inr res"
proof (induction ps arbitrary: res)
  case (Cons p ps)
  show ?case by (cases res) (auto simp: Cons.IH [symmetric] split: sum.splits)
qed auto

lemma compilable_iff:
  "(\<exists>res. map compile ps = map Inr res) = (\<forall>p \<in> set ps. \<exists>re. compile p = Inr re)"
proof (induction ps)
  case (Cons p ps)
  then show ?case by (auto simp: Cons_eq_map_conv map_eq_Cons_conv)
qed simp

lemma compiled_match_iff:
  "map compile ps = map Inr res \<Longrightarrow>
    (\<exists>re \<in> set res. match re x) = (\<exists>p \<in> set ps. \<exists>re. compile p = Inr re \<and> match re x)"
  by (induction ps arbitrary: res) (auto simp: Cons_eq_map_conv)

lemma NewTopicFilter_iff:
  "NewTopicFilter compile wl bl = Inr tf \<longleftrightarrow>
    map compile wl = map Inr (tf_whitelist tf) \<and> map compile bl = map Inr (tf_blacklist tf)"
  for tf :: "'re TopicFilter"
  by (auto simp: NewTopicFilter_def compilePatterns_Inr [symmetric] split: sum.splits)

section \<open>The interface\<close>

text \<open>
  The contract the three filters share: some names are reserved, the blacklist wins, an empty
  whitelist admits everything.
\<close>

locale list_filter =
  fixes accepts :: "'f \<Rightarrow> string \<Rightarrow> bool"
    and white :: "'f \<Rightarrow> 're list"
    and black :: "'f \<Rightarrow> 're list"
    and match :: "'re \<Rightarrow> string \<Rightarrow> bool"
    and reserved :: "string \<Rightarrow> bool"
  assumes accepts_iff: "accepts f x \<longleftrightarrow> \<not> reserved x \<and> (\<forall>re \<in> set (black f). \<not> match re x)
      \<and> (white f = [] \<or> (\<exists>re \<in> set (white f). match re x))"
begin

lemma blacklist_wins: "re \<in> set (black f) \<Longrightarrow> match re x \<Longrightarrow> \<not> accepts f x"
  by (auto simp: accepts_iff)

text \<open>Only the sets of patterns matter, not their order or multiplicity.\<close>

lemma order_irrelevant:
  assumes "set (white f) = set (white g)" "set (black f) = set (black g)"
  shows "accepts f x = accepts g x"
proof -
  have "(white f = []) = (white g = [])" using assms(1) by (metis set_empty)
  with assms show ?thesis by (simp add: accepts_iff)
qed

text \<open>More blacklist patterns accept less.\<close>

lemma blacklist_antimono:
  "white f = white g \<Longrightarrow> set (black f) \<subseteq> set (black g) \<Longrightarrow> accepts g x \<Longrightarrow> accepts f x"
  by (auto simp: accepts_iff)

end

interpretation topic_filter: list_filter "TopicFilter_ShouldReplicate match" tf_whitelist tf_blacklist match
    "\<lambda>x. HasPrefix x ''__'' \<or> HasPrefix x ''.''" for match
  by unfold_locales (auto simp: TopicFilter_ShouldReplicate_def any_match_iff)

interpretation group_filter: list_filter "GroupFilter_ShouldReplicate match" gf_whitelist gf_blacklist match
    "\<lambda>_. False" for match
  by unfold_locales (auto simp: GroupFilter_ShouldReplicate_def any_match_iff)

interpretation config_filter: list_filter "ConfigPropertyFilter_ShouldReplicate match" cf_whitelist cf_blacklist match
    "\<lambda>_. False" for match
  by unfold_locales (auto simp: ConfigPropertyFilter_ShouldReplicate_def any_match_iff)

section \<open>Properties\<close>

text \<open>
  A filter built from pattern lists decides by the patterns as sets: building succeeds exactly
  when every pattern compiles, and then a topic is replicated iff it is not an internal name, no
  blacklist pattern matches it, and the whitelist is empty or one of its patterns matches.
\<close>

lemma topic_filter_decision:
  "(\<exists>tf. NewTopicFilter compile wl bl = Inr tf) = (\<forall>p \<in> set (wl @ bl). \<exists>re. compile p = Inr re)
   \<and> (\<forall>tf. NewTopicFilter compile wl bl = Inr tf \<longrightarrow>
        TopicFilter_ShouldReplicate match tf topic =
          (\<not> HasPrefix topic ''__'' \<and> \<not> HasPrefix topic ''.''
           \<and> \<not> (\<exists>p \<in> set bl. \<exists>re. compile p = Inr re \<and> match re topic)
           \<and> (wl = [] \<or> (\<exists>p \<in> set wl. \<exists>re. compile p = Inr re \<and> match re topic))))"
proof (rule conjI)
  have "(\<exists>tf. NewTopicFilter compile wl bl = Inr tf) \<longleftrightarrow>
      (\<exists>a. map compile wl = map Inr a) \<and> (\<exists>b. map compile bl = map Inr b)"
    unfolding NewTopicFilter_iff by (metis TopicFilter.select_convs(1,2))
  then show "(\<exists>tf. NewTopicFilter compile wl bl = Inr tf) = (\<forall>p \<in> set (wl @ bl). \<exists>re. compile p = Inr re)"
    unfolding compilable_iff by auto
next
  show "\<forall>tf. NewTopicFilter compile wl bl = Inr tf \<longrightarrow>
        TopicFilter_ShouldReplicate match tf topic =
          (\<not> HasPrefix topic ''__'' \<and> \<not> HasPrefix topic ''.''
           \<and> \<not> (\<exists>p \<in> set bl. \<exists>re. compile p = Inr re \<and> match re topic)
           \<and> (wl = [] \<or> (\<exists>p \<in> set wl. \<exists>re. compile p = Inr re \<and> match re topic)))"
    unfolding NewTopicFilter_iff
  proof (intro allI impI)
    fix tf :: "'a TopicFilter"
    assume c: "map compile wl = map Inr (tf_whitelist tf) \<and> map compile bl = map Inr (tf_blacklist tf)"
    then have "wl = [] \<longleftrightarrow> tf_whitelist tf = []" by auto
    with c show "TopicFilter_ShouldReplicate match tf topic =
          (\<not> HasPrefix topic ''__'' \<and> \<not> HasPrefix topic ''.''
           \<and> \<not> (\<exists>p \<in> set bl. \<exists>re. compile p = Inr re \<and> match re topic)
           \<and> (wl = [] \<or> (\<exists>p \<in> set wl. \<exists>re. compile p = Inr re \<and> match re topic)))"
      using compiled_match_iff [of compile wl "tf_whitelist tf" match topic]
        compiled_match_iff [of compile bl "tf_blacklist tf" match topic]
      by (simp add: topic_filter.accepts_iff) blast
  qed
qed

text \<open>A pattern without metacharacters matches the strings that contain it.\<close>

definition literal_compile :: "string \<Rightarrow> go_error + string" where
  "literal_compile p = (if CHR 0x5B \<in> set p then Inl (Errorf ''missing closing ]'' []) else Inr p)"

definition literal_match :: "string \<Rightarrow> string \<Rightarrow> bool" where
  "literal_match re name = (Index name re \<noteq> None)"

lemma topic_filter_decision_example:
  "TopicFilter_ShouldReplicate literal_match \<lparr>tf_whitelist = [''ord''], tf_blacklist = [''tmp'']\<rparr> ''orders''
   \<and> \<not> TopicFilter_ShouldReplicate literal_match \<lparr>tf_whitelist = [''ord''], tf_blacklist = [''tmp'']\<rparr> ''orders-tmp''
   \<and> (\<nexists>tf. NewTopicFilter literal_compile [''[''] [] = Inr tf)"
proof -
  have "NewTopicFilter literal_compile [''ord''] [''tmp''] = Inr \<lparr>tf_whitelist = [''ord''], tf_blacklist = [''tmp'']\<rparr>"
    by (simp add: NewTopicFilter_def literal_compile_def)
  then show ?thesis
    using topic_filter_decision [of literal_compile "[''ord'']" "[''tmp'']" literal_match "''orders''"]
      topic_filter_decision [of literal_compile "[''ord'']" "[''tmp'']" literal_match "''orders-tmp''"]
      topic_filter_decision [of literal_compile "[''['']" "[]"]
    by (simp add: literal_compile_def literal_match_def HasPrefix_def)
qed

end
