(* ===== verification/Replication_Policy.thy ===== *)
theory Replication_Policy
  imports Mirror_Prelude
begin

text \<open>
  \<open>internal/policy/replication.go\<close>: how topics are named on the target cluster. The Go
  interface \<open>ReplicationPolicy\<close> is a datatype with one constructor per implementation, its
  methods dispatch on it. The lemmas give the names the policies produce and recognise; the
  locale \<open>cycle_free_policy\<close> is what topic discovery needs to stop replication cycles.
\<close>

section \<open>Data and operations\<close>

datatype ReplicationPolicy = DefaultPolicy string | IdentityPolicy

definition NewDefaultPolicy :: "string \<Rightarrow> ReplicationPolicy" where
  "NewDefaultPolicy separator = DefaultPolicy (if separator = [] then ''.'' else separator)"

text \<open>The methods of the identity policy.\<close>

definition NewIdentityPolicy :: ReplicationPolicy where
  "NewIdentityPolicy = IdentityPolicy"

definition IdentityPolicy_FormatRemoteTopic :: "string \<Rightarrow> string \<Rightarrow> string" where
  "IdentityPolicy_FormatRemoteTopic sourceCluster topic = topic"

definition IdentityPolicy_TopicSource :: "string \<Rightarrow> string" where
  "IdentityPolicy_TopicSource topic = []"

definition IdentityPolicy_UpstreamTopic :: "string \<Rightarrow> string" where
  "IdentityPolicy_UpstreamTopic topic = topic"

definition IdentityPolicy_IsInternalTopic :: "string \<Rightarrow> bool" where
  "IdentityPolicy_IsInternalTopic topic \<longleftrightarrow>
     HasPrefix topic ''mm2'' \<and> HasSuffix topic ''.internal'' \<or> HasSuffix topic ''.checkpoints.internal''"

definition IdentityPolicy_IsHeartbeatsTopic :: "string \<Rightarrow> bool" where
  "IdentityPolicy_IsHeartbeatsTopic topic \<longleftrightarrow> topic = ''heartbeats''"

definition IdentityPolicy_OffsetSyncsTopic :: "string \<Rightarrow> string" where
  "IdentityPolicy_OffsetSyncsTopic clusterAlias = ''mm2-offset-syncs.'' @ clusterAlias @ ''.internal''"

definition IdentityPolicy_CheckpointsTopic :: "string \<Rightarrow> string" where
  "IdentityPolicy_CheckpointsTopic clusterAlias = clusterAlias @ ''.checkpoints.internal''"

definition IdentityPolicy_HeartbeatsTopic :: string where
  "IdentityPolicy_HeartbeatsTopic = ''heartbeats''"

lemmas identity_policy_methods [simp] = NewIdentityPolicy_def IdentityPolicy_FormatRemoteTopic_def IdentityPolicy_TopicSource_def
  IdentityPolicy_UpstreamTopic_def IdentityPolicy_IsInternalTopic_def IdentityPolicy_IsHeartbeatsTopic_def
  IdentityPolicy_OffsetSyncsTopic_def IdentityPolicy_CheckpointsTopic_def IdentityPolicy_HeartbeatsTopic_def

definition NewPolicy :: "string \<Rightarrow> string \<Rightarrow> go_error + ReplicationPolicy" where
  "NewPolicy name separator =
     (if name = ''default'' \<or> name = [] then Inr (NewDefaultPolicy separator)
      else if name = ''identity'' then Inr NewIdentityPolicy
      else Inl (Errorf ''unknown replication policy: %s'' [name]))"

fun FormatRemoteTopic :: "ReplicationPolicy \<Rightarrow> string \<Rightarrow> string \<Rightarrow> string" where
  "FormatRemoteTopic (DefaultPolicy sep) sourceCluster topic = sourceCluster @ sep @ topic"
| "FormatRemoteTopic IdentityPolicy sourceCluster topic = IdentityPolicy_FormatRemoteTopic sourceCluster topic"

fun TopicSource :: "ReplicationPolicy \<Rightarrow> string \<Rightarrow> string" where
  "TopicSource (DefaultPolicy sep) topic =
     (case Index topic sep of None \<Rightarrow> [] | Some idx \<Rightarrow> take idx topic)"
| "TopicSource IdentityPolicy topic = IdentityPolicy_TopicSource topic"

fun UpstreamTopic :: "ReplicationPolicy \<Rightarrow> string \<Rightarrow> string" where
  "UpstreamTopic (DefaultPolicy sep) topic =
     (let source = TopicSource (DefaultPolicy sep) topic
      in if source = [] then [] else drop (length source + length sep) topic)"
| "UpstreamTopic IdentityPolicy topic = IdentityPolicy_UpstreamTopic topic"

fun IsInternalTopic :: "ReplicationPolicy \<Rightarrow> string \<Rightarrow> bool" where
  "IsInternalTopic (DefaultPolicy sep) topic \<longleftrightarrow>
     HasPrefix topic ''mm2'' \<and> HasSuffix topic (sep @ ''internal'') \<or>
     HasSuffix topic (sep @ ''checkpoints'' @ sep @ ''internal'')"
| "IsInternalTopic IdentityPolicy topic = IdentityPolicy_IsInternalTopic topic"

fun IsHeartbeatsTopic :: "ReplicationPolicy \<Rightarrow> string \<Rightarrow> bool" where
  "IsHeartbeatsTopic (DefaultPolicy sep) topic \<longleftrightarrow> topic = ''heartbeats''"
| "IsHeartbeatsTopic IdentityPolicy topic = IdentityPolicy_IsHeartbeatsTopic topic"

fun OffsetSyncsTopic :: "ReplicationPolicy \<Rightarrow> string \<Rightarrow> string" where
  "OffsetSyncsTopic (DefaultPolicy sep) clusterAlias = ''mm2-offset-syncs'' @ sep @ clusterAlias @ sep @ ''internal''"
| "OffsetSyncsTopic IdentityPolicy clusterAlias = IdentityPolicy_OffsetSyncsTopic clusterAlias"

fun CheckpointsTopic :: "ReplicationPolicy \<Rightarrow> string \<Rightarrow> string" where
  "CheckpointsTopic (DefaultPolicy sep) clusterAlias = clusterAlias @ sep @ ''checkpoints'' @ sep @ ''internal''"
| "CheckpointsTopic IdentityPolicy clusterAlias = IdentityPolicy_CheckpointsTopic clusterAlias"

fun HeartbeatsTopic :: "ReplicationPolicy \<Rightarrow> string" where
  "HeartbeatsTopic (DefaultPolicy sep) = ''heartbeats''"
| "HeartbeatsTopic IdentityPolicy = IdentityPolicy_HeartbeatsTopic"

section \<open>Lemmas\<close>

text \<open>A cluster alias in which the separator does not show up before the one that ends it.\<close>

definition clean_alias :: "string \<Rightarrow> string \<Rightarrow> bool" where
  "clean_alias sep alias \<longleftrightarrow> (\<forall>j < length alias. \<not> HasPrefix (drop j (alias @ sep)) sep)"

lemma HasPrefix_drop_app:
  assumes "j + length sep \<le> length s"
  shows "HasPrefix (drop j (s @ t)) sep = HasPrefix (drop j s) sep"
proof -
  have "length sep \<le> length (drop j s)" using assms by simp
  moreover have "drop j (s @ t) = drop j s @ t" using assms by simp
  ultimately show ?thesis by (simp add: HasPrefix_def)
qed

lemma Index_clean_alias:
  assumes "clean_alias sep alias"
  shows "Index (alias @ sep @ topic) sep = Some (length alias)"
proof (rule Index_eqI)
  show "HasPrefix (drop (length alias) (alias @ sep @ topic)) sep" by (simp add: HasPrefix_iff)
  show "\<not> HasPrefix (drop j (alias @ sep @ topic)) sep" if "j < length alias" for j
    using assms that HasPrefix_drop_app [of j sep "alias @ sep" topic] by (simp add: clean_alias_def)
qed simp

text \<open>With a one-character separator an alias is clean iff it does not contain it.\<close>

lemma clean_alias_char [simp]: "clean_alias [c] alias \<longleftrightarrow> c \<notin> set alias"
proof -
  have "HasPrefix (drop j (alias @ [c])) [c] \<longleftrightarrow> alias ! j = c" if "j < length alias" for j
    using that by (simp add: HasPrefix_def take_Suc_conv_app_nth take_drop nth_append Cons_nth_drop_Suc [symmetric])
  then show ?thesis by (auto simp: clean_alias_def in_set_conv_nth)
qed

lemma TopicSource_remote:
  "clean_alias sep alias \<Longrightarrow> TopicSource (DefaultPolicy sep) (FormatRemoteTopic (DefaultPolicy sep) alias topic) = alias"
  by (simp add: Index_clean_alias)

lemma UpstreamTopic_remote:
  assumes "clean_alias sep alias" "alias \<noteq> []"
  shows "UpstreamTopic (DefaultPolicy sep) (FormatRemoteTopic (DefaultPolicy sep) alias topic) = topic"
  using TopicSource_remote [OF assms(1), of topic] assms(2) by (simp add: Let_def)

text \<open>Whatever the alias is: a remote topic has a source unless the separator comes first.\<close>

lemma Index_remote: "\<exists>i. Index (a @ sep @ t) sep = Some i"
  using Index_None [of "a @ sep @ t" sep "length a"] by (cases "Index (a @ sep @ t) sep") (auto simp: HasPrefix_iff)

lemma TopicSource_remote_nonempty:
  assumes "alias \<noteq> []" "\<not> HasPrefix (alias @ sep @ topic) sep"
  shows "TopicSource (DefaultPolicy sep) (FormatRemoteTopic (DefaultPolicy sep) alias topic) \<noteq> []"
proof -
  obtain i where i: "Index (alias @ sep @ topic) sep = Some i" using Index_remote by blast
  have "i \<noteq> 0"
  proof
    assume "i = 0"
    then have "HasPrefix (alias @ sep @ topic) sep" using Index_Some [OF i] by (auto simp: HasPrefix_iff)
    with assms(2) show False by simp
  qed
  moreover have "alias @ sep @ topic \<noteq> []" using assms(1) by simp
  ultimately show ?thesis using i by simp
qed

lemma internal_topics_recognised:
  "IsInternalTopic p (OffsetSyncsTopic p alias)" "IsInternalTopic p (CheckpointsTopic p alias)"
  "IsHeartbeatsTopic p (HeartbeatsTopic p)"
proof -
  show "IsInternalTopic p (OffsetSyncsTopic p alias)"
  proof (cases p)
    case (DefaultPolicy sep)
    have "HasSuffix (OffsetSyncsTopic p alias) (sep @ ''internal'')"
      unfolding DefaultPolicy HasSuffix_iff by (rule exI [of _ "''mm2-offset-syncs'' @ sep @ alias"]) simp
    moreover have "HasPrefix (OffsetSyncsTopic p alias) ''mm2''" by (simp add: DefaultPolicy HasPrefix_iff)
    ultimately show ?thesis by (simp add: DefaultPolicy)
  next
    case IdentityPolicy
    have "HasSuffix (OffsetSyncsTopic p alias) ''.internal''"
      unfolding IdentityPolicy HasSuffix_iff by (rule exI [of _ "''mm2-offset-syncs.'' @ alias"]) simp
    then show ?thesis by (simp add: IdentityPolicy HasPrefix_iff)
  qed
  show "IsInternalTopic p (CheckpointsTopic p alias)"
    by (cases p) (auto simp: HasSuffix_iff)
  show "IsHeartbeatsTopic p (HeartbeatsTopic p)" by (cases p) simp_all
qed

section \<open>The interface\<close>

text \<open>
  What topic discovery relies on to keep mirrored data from being mirrored again: the name a
  topic gets on the target cluster shows where it comes from.
\<close>

locale cycle_free_policy =
  fixes format_remote :: "string \<Rightarrow> string \<Rightarrow> string"
    and topic_source :: "string \<Rightarrow> string"
    and upstream_topic :: "string \<Rightarrow> string"
    and good_alias :: "string \<Rightarrow> bool"
  assumes source_of_remote: "good_alias alias \<Longrightarrow> topic_source (format_remote alias topic) = alias"
    and upstream_of_remote: "good_alias alias \<Longrightarrow> upstream_topic (format_remote alias topic) = topic"
    and good_nonempty: "good_alias alias \<Longrightarrow> alias \<noteq> []"
begin

lemma remote_injective:
  assumes "good_alias a" "good_alias b" "format_remote a t = format_remote b u"
  shows "a = b \<and> t = u"
  using assms by (metis source_of_remote upstream_of_remote)

lemma remote_has_source: "good_alias a \<Longrightarrow> topic_source (format_remote a t) \<noteq> []"
  by (simp add: source_of_remote good_nonempty)

end

interpretation default_policy: cycle_free_policy
  "FormatRemoteTopic (DefaultPolicy sep)" "TopicSource (DefaultPolicy sep)" "UpstreamTopic (DefaultPolicy sep)"
  "\<lambda>alias. clean_alias sep alias \<and> alias \<noteq> []" for sep
  by unfold_locales (blast intro: TopicSource_remote UpstreamTopic_remote)+

section \<open>Properties\<close>

text \<open>
  The default policy's names can be taken apart again: for a non-empty cluster alias that does
  not contain the (one-character) separator, \<open>TopicSource\<close> and \<open>UpstreamTopic\<close> of the remote
  name give back the alias and the topic, so remote names never collide; the topic may contain
  the separator.
\<close>

lemma default_policy_roundtrip:
  assumes "c \<notin> set alias" and "alias \<noteq> []"
  shows "TopicSource (DefaultPolicy [c]) (FormatRemoteTopic (DefaultPolicy [c]) alias topic) = alias
    \<and> UpstreamTopic (DefaultPolicy [c]) (FormatRemoteTopic (DefaultPolicy [c]) alias topic) = topic"
  using assms by (simp only: default_policy.source_of_remote default_policy.upstream_of_remote clean_alias_char simp_thms)

lemma default_policy_roundtrip_example:
  "TopicSource (DefaultPolicy ''.'') (FormatRemoteTopic (DefaultPolicy ''.'') ''us-west'' ''a.b'') = ''us-west''
    \<and> UpstreamTopic (DefaultPolicy ''.'') (FormatRemoteTopic (DefaultPolicy ''.'') ''us-west'' ''a.b'') = ''a.b''"
  by (rule default_policy_roundtrip) simp_all

end
