(* ===== verification/Replication_Config.thy ===== *)
theory Replication_Config
  imports Topic_Filter Replication_Policy
begin

text \<open>
  \<open>internal/config/config.go\<close>: the configuration tree, the expansion of environment variables,
  the defaults and the validation. Durations are integers (nanoseconds). The YAML parser and the
  regular expression compiler are parameters. A Go map is iterated in an unspecified order: the
  list of clusters stands for the order of one iteration.
\<close>

section \<open>Data\<close>

record SASLConfig =
  sasl_Mechanism :: string
  sasl_Username :: string
  sasl_Password :: string
  sasl_SessionToken :: string

record TLSConfig =
  tls_Enabled :: bool
  tls_CACertFile :: string
  tls_CertFile :: string
  tls_KeyFile :: string
  tls_SkipVerify :: bool

record ClusterConfig =
  cc_BootstrapServers :: "string list"
  cc_SASL :: "SASLConfig option"
  cc_TLS :: "TLSConfig option"

record TopicFilterConfig =
  tfc_Whitelist :: "string list"
  tfc_Blacklist :: "string list"

record GroupFilterConfig =
  gfc_Whitelist :: "string list"
  gfc_Blacklist :: "string list"

record ConfigFilterConfig =
  cfc_Whitelist :: "string list"
  cfc_Blacklist :: "string list"

record ReplicationConfig =
  r_Source :: string
  r_Target :: string
  r_Enabled :: bool
  r_TopicFilter :: TopicFilterConfig
  r_GroupFilter :: GroupFilterConfig
  r_ConfigFilter :: ConfigFilterConfig
  r_ReplicationPolicy :: string
  r_Separator :: string
  r_ReplicationFactor :: int
  r_SyncTopicConfigs :: "bool option"
  r_SyncTopicACLs :: bool
  r_EmitHeartbeats :: "bool option"
  r_EmitCheckpoints :: "bool option"
  r_EmitOffsetSyncs :: "bool option"
  r_RefreshTopicsInterval :: int
  r_RefreshGroupsInterval :: int
  r_SyncTopicConfigsInterval :: int
  r_SyncTopicACLsInterval :: int
  r_HeartbeatInterval :: int
  r_CheckpointInterval :: int
  r_ProducerBatchSize :: int
  r_ProducerLingerMs :: int
  r_ConsumerPollTimeout :: int
  r_MaxPollRecords :: int
  r_Compression :: string
  r_ReadCommitted :: bool
  r_WorkersPerPartition :: int
  r_FetchMaxPartitionBytes :: int
  r_RingBufferCapacity :: int
  r_ExactlyOnce :: bool
  r_OffsetCommitInterval :: int
  r_OffsetCommitBatch :: int
  r_MaxRetries :: int
  r_RetryBackoffBase :: int
  r_RetryBackoffMax :: int
  r_DLQEnabled :: bool
  r_ShutdownTimeout :: int
  r_OffsetSyncInterval :: int

record MetricsConfig =
  mc_Enabled :: bool
  mc_Address :: string

record LoggingConfig =
  lc_Level :: string
  lc_Format :: string

record Config =
  c_Clusters :: "(string \<times> ClusterConfig) list"
  c_Replications :: "ReplicationConfig list"
  c_Metrics :: MetricsConfig
  c_Logging :: LoggingConfig

definition Second :: int where "Second = 1000000000"
definition Millisecond :: int where "Millisecond = 1000000"

section \<open>Defaults\<close>

definition BoolDefault :: "bool option \<Rightarrow> bool \<Rightarrow> bool" where
  "BoolDefault b def = (case b of None \<Rightarrow> def | Some v \<Rightarrow> v)"

text \<open>\<open>if x == zero { x = def }\<close> on a number, a string and a pointer.\<close>

definition dflt :: "int \<Rightarrow> int \<Rightarrow> int" where
  "dflt def x = (if x = 0 then def else x)"

definition dflt_str :: "string \<Rightarrow> string \<Rightarrow> string" where
  "dflt_str def s = (if s = [] then def else s)"

definition dflt_true :: "bool option \<Rightarrow> bool option" where
  "dflt_true b = (case b of None \<Rightarrow> Some True | Some v \<Rightarrow> Some v)"

definition set_replication_defaults :: "ReplicationConfig \<Rightarrow> ReplicationConfig" where
  "set_replication_defaults r = r\<lparr>
     r_Separator := dflt_str ''.'' (r_Separator r),
     r_ReplicationPolicy := dflt_str ''default'' (r_ReplicationPolicy r),
     r_ReplicationFactor := dflt 3 (r_ReplicationFactor r),
     r_RefreshTopicsInterval := dflt (10 * Second) (r_RefreshTopicsInterval r),
     r_RefreshGroupsInterval := dflt (10 * Second) (r_RefreshGroupsInterval r),
     r_SyncTopicConfigsInterval := dflt (10 * Second) (r_SyncTopicConfigsInterval r),
     r_SyncTopicACLsInterval := dflt (10 * Second) (r_SyncTopicACLsInterval r),
     r_HeartbeatInterval := dflt (1 * Second) (r_HeartbeatInterval r),
     r_CheckpointInterval := dflt (60 * Second) (r_CheckpointInterval r),
     r_ConsumerPollTimeout := dflt (1 * Second) (r_ConsumerPollTimeout r),
     r_ProducerBatchSize := dflt 16384 (r_ProducerBatchSize r),
     r_ProducerLingerMs := dflt 5 (r_ProducerLingerMs r),
     r_MaxPollRecords := dflt 500 (r_MaxPollRecords r),
     r_Compression := dflt_str ''lz4'' (r_Compression r),
     r_EmitHeartbeats := dflt_true (r_EmitHeartbeats r),
     r_EmitCheckpoints := dflt_true (r_EmitCheckpoints r),
     r_EmitOffsetSyncs := dflt_true (r_EmitOffsetSyncs r),
     r_SyncTopicConfigs := dflt_true (r_SyncTopicConfigs r),
     r_WorkersPerPartition := dflt 4 (r_WorkersPerPartition r),
     r_FetchMaxPartitionBytes := dflt (5 * 1024 * 1024) (r_FetchMaxPartitionBytes r),
     r_RingBufferCapacity := dflt 16384 (r_RingBufferCapacity r),
     r_OffsetCommitInterval := dflt (5 * Second) (r_OffsetCommitInterval r),
     r_OffsetCommitBatch := dflt 1000 (r_OffsetCommitBatch r),
     r_MaxRetries := dflt 10 (r_MaxRetries r),
     r_RetryBackoffBase := dflt (100 * Millisecond) (r_RetryBackoffBase r),
     r_RetryBackoffMax := dflt (30 * Second) (r_RetryBackoffMax r),
     r_ShutdownTimeout := dflt (30 * Second) (r_ShutdownTimeout r),
     r_OffsetSyncInterval := dflt 100 (r_OffsetSyncInterval r)\<rparr>"

definition setDefaults :: "Config \<Rightarrow> Config" where
  "setDefaults cfg = cfg\<lparr>
     c_Replications := map set_replication_defaults (c_Replications cfg),
     c_Metrics := (c_Metrics cfg)\<lparr>mc_Address := dflt_str '':9090'' (mc_Address (c_Metrics cfg))\<rparr>,
     c_Logging := (c_Logging cfg)\<lparr>lc_Level := dflt_str ''info'' (lc_Level (c_Logging cfg)),
                                   lc_Format := dflt_str ''json'' (lc_Format (c_Logging cfg))\<rparr>\<rparr>"

section \<open>Loading\<close>

text \<open>\<open>os.ExpandEnv\<close>: \<open>$name\<close> and \<open>${name}\<close> are replaced by the environment's value.\<close>

definition isShellSpecialVar :: "char \<Rightarrow> bool" where
  "isShellSpecialVar c \<longleftrightarrow> c \<in> set ''*#$@!?-0123456789''"

definition isAlphaNum :: "char \<Rightarrow> bool" where
  "isAlphaNum c \<longleftrightarrow> (let n = (of_char c :: nat) in
     c = CHR ''_'' \<or> 48 \<le> n \<and> n \<le> 57 \<or> 97 \<le> n \<and> n \<le> 122 \<or> 65 \<le> n \<and> n \<le> 90)"

definition getShellName :: "string \<Rightarrow> string \<times> nat" where
  "getShellName s =
     (if HasPrefix s ''{'' then
        let rest = drop 1 s in
        if length rest > 1 \<and> isShellSpecialVar (hd rest) \<and> rest ! 1 = CHR ''}'' then ([hd rest], 3)
        else case Index rest ''}'' of
            None \<Rightarrow> ([], 1)
          | Some i \<Rightarrow> if i = 0 then ([], 2) else (take i rest, i + 2)
      else if s \<noteq> [] \<and> isShellSpecialVar (hd s) then ([hd s], 1)
      else (takeWhile isAlphaNum s, length (takeWhile isAlphaNum s)))"

function ExpandEnv :: "(string \<Rightarrow> string) \<Rightarrow> string \<Rightarrow> string" where
  "ExpandEnv getenv s =
     (case s of
        [] \<Rightarrow> []
      | c # rest \<Rightarrow>
          if c = CHR ''$'' \<and> rest \<noteq> [] then
            let (name, w) = getShellName rest
            in (if name = [] then (if w > 0 then [] else [c]) else getenv name) @ ExpandEnv getenv (drop w rest)
          else c # ExpandEnv getenv rest)"
  by pat_completeness auto
termination
  by (relation "measure (length \<circ> snd)") auto

declare ExpandEnv.simps [simp del]

text \<open>\<open>unmarshal\<close> is \<open>yaml.Unmarshal\<close> into a zero \<open>Config\<close>.\<close>

definition Parse :: "(string \<Rightarrow> string) \<Rightarrow> (string \<Rightarrow> go_error + Config) \<Rightarrow> string \<Rightarrow> go_error + Config" where
  "Parse getenv unmarshal data =
     (case unmarshal (ExpandEnv getenv data) of
        Inl err \<Rightarrow> Inl (Wrapf ''parse config: %w'' [] err)
      | Inr cfg \<Rightarrow> Inr (setDefaults cfg))"

definition Load :: "(string \<Rightarrow> go_error + string) \<Rightarrow> (string \<Rightarrow> string) \<Rightarrow> (string \<Rightarrow> go_error + Config)
    \<Rightarrow> string \<Rightarrow> go_error + Config" where
  "Load readFile getenv unmarshal path =
     (case readFile path of
        Inl err \<Rightarrow> Inl (Wrapf ''read config file %s: %w'' [path] err)
      | Inr data \<Rightarrow> Parse getenv unmarshal data)"

section \<open>Validation\<close>

text \<open>The first of two checks that fails.\<close>

definition or_else :: "go_error option \<Rightarrow> go_error option \<Rightarrow> go_error option" where
  "or_else a b = (case a of None \<Rightarrow> b | Some err \<Rightarrow> Some err)"

fun check_clusters :: "(string \<times> ClusterConfig) list \<Rightarrow> go_error option" where
  "check_clusters [] = None"
| "check_clusters ((name, cc) # ccs) =
     (if cc_BootstrapServers cc = [] then Some (Errorf ''cluster %q: bootstrap_servers is empty'' [name])
      else check_clusters ccs)"

fun check_patterns :: "(string \<Rightarrow> go_error + 're) \<Rightarrow> string \<Rightarrow> nat \<Rightarrow> string list \<Rightarrow> go_error option" where
  "check_patterns compile fmt i [] = None"
| "check_patterns compile fmt i (p # ps) =
     (case compile p of
        Inl err \<Rightarrow> Some (Wrapf fmt [itoa (int i), p] err)
      | Inr _ \<Rightarrow> check_patterns compile fmt i ps)"

definition valid_compressions :: "string list" where
  "valid_compressions = [''none'', ''gzip'', ''snappy'', ''lz4'', ''zstd'', []]"

definition check_replication :: "(string \<Rightarrow> go_error + 're) \<Rightarrow> (string \<times> ClusterConfig) list
    \<Rightarrow> nat \<Rightarrow> ReplicationConfig \<Rightarrow> go_error option" where
  "check_replication compile clusters i r =
     (if \<not> r_Enabled r then None
      else if map_of clusters (r_Source r) = None
      then Some (Errorf ''replication[%d]: source cluster %q not defined'' [itoa (int i), r_Source r])
      else if map_of clusters (r_Target r) = None
      then Some (Errorf ''replication[%d]: target cluster %q not defined'' [itoa (int i), r_Target r])
      else if r_Source r = r_Target r
      then Some (Errorf ''replication[%d]: source and target must differ'' [itoa (int i)])
      else if r_ExactlyOnce r
      then Some (Errorf ''replication[%d]: exactly_once is not yet implemented; remove this option or set to false''
                   [itoa (int i)])
      else or_else
        (check_patterns compile ''replication[%d]: invalid topic whitelist regex %q: %w'' i (tfc_Whitelist (r_TopicFilter r)))
        (or_else
          (check_patterns compile ''replication[%d]: invalid topic blacklist regex %q: %w'' i (tfc_Blacklist (r_TopicFilter r)))
          (if r_Compression r \<notin> set valid_compressions
           then Some (Errorf ''replication[%d]: unsupported compression %q'' [itoa (int i), r_Compression r])
           else None)))"

fun check_replications :: "(string \<Rightarrow> go_error + 're) \<Rightarrow> (string \<times> ClusterConfig) list
    \<Rightarrow> nat \<Rightarrow> ReplicationConfig list \<Rightarrow> go_error option" where
  "check_replications compile clusters i [] = None"
| "check_replications compile clusters i (r # rs) =
     or_else (check_replication compile clusters i r) (check_replications compile clusters (Suc i) rs)"

definition Validate :: "(string \<Rightarrow> go_error + 're) \<Rightarrow> Config \<Rightarrow> go_error option" where
  "Validate compile c =
     (if c_Clusters c = [] then Some (Errorf ''no clusters defined'' [])
      else or_else (check_clusters (c_Clusters c))
        (if c_Replications c = [] then Some (Errorf ''no replications defined'' [])
         else check_replications compile (c_Clusters c) 0 (c_Replications c)))"

section \<open>Lemmas\<close>

lemma or_else_None [simp]: "or_else a b = None \<longleftrightarrow> a = None \<and> b = None"
  by (cases a) (simp_all add: or_else_def)

lemma check_clusters_None:
  "check_clusters ccs = None \<longleftrightarrow> (\<forall>(name, cc) \<in> set ccs. cc_BootstrapServers cc \<noteq> [])"
  by (induction ccs rule: check_clusters.induct) auto

lemma check_patterns_None:
  "check_patterns compile fmt i ps = None \<longleftrightarrow> (\<forall>p \<in> set ps. \<exists>re. compile p = Inr re)"
  by (induction ps) (auto split: sum.splits)

text \<open>What makes an enabled flow acceptable.\<close>

definition flow_ok :: "(string \<Rightarrow> go_error + 're) \<Rightarrow> (string \<times> ClusterConfig) list \<Rightarrow> ReplicationConfig \<Rightarrow> bool" where
  "flow_ok compile clusters r \<longleftrightarrow>
     r_Source r \<in> fst ` set clusters \<and> r_Target r \<in> fst ` set clusters \<and> r_Source r \<noteq> r_Target r \<and>
     \<not> r_ExactlyOnce r \<and> r_Compression r \<in> set valid_compressions \<and>
     (\<forall>p \<in> set (tfc_Whitelist (r_TopicFilter r)) \<union> set (tfc_Blacklist (r_TopicFilter r)). \<exists>re. compile p = Inr re)"

lemma check_replication_None:
  "check_replication compile clusters i r = None \<longleftrightarrow> (r_Enabled r \<longrightarrow> flow_ok compile clusters r)"
  by (auto simp: check_replication_def flow_ok_def check_patterns_None map_of_eq_None_iff)

lemma check_replications_None:
  "check_replications compile clusters i rs = None \<longleftrightarrow>
     (\<forall>r \<in> set rs. r_Enabled r \<longrightarrow> flow_ok compile clusters r)"
  by (induction rs arbitrary: i) (auto simp: check_replication_None)

text \<open>
  \<open>Validate\<close> accepts a configuration exactly when it has clusters, each with bootstrap
  servers, has replications, and each enabled replication names two different defined
  clusters, does not ask for exactly-once, uses a supported compression and has topic patterns
  that compile.
\<close>

lemma validate_accepts_iff:
  "Validate compile c = None \<longleftrightarrow>
     c_Clusters c \<noteq> [] \<and> (\<forall>(name, cc) \<in> set (c_Clusters c). cc_BootstrapServers cc \<noteq> []) \<and>
     c_Replications c \<noteq> [] \<and>
     (\<forall>r \<in> set (c_Replications c). r_Enabled r \<longrightarrow> flow_ok compile (c_Clusters c) r)"
  by (simp add: Validate_def check_clusters_None check_replications_None)

text \<open>An example: two clusters and one flow, every knob left at its zero value.\<close>

definition zero_replication :: ReplicationConfig where
  "zero_replication = \<lparr>r_Source = [], r_Target = [], r_Enabled = False,
     r_TopicFilter = \<lparr>tfc_Whitelist = [], tfc_Blacklist = []\<rparr>,
     r_GroupFilter = \<lparr>gfc_Whitelist = [], gfc_Blacklist = []\<rparr>,
     r_ConfigFilter = \<lparr>cfc_Whitelist = [], cfc_Blacklist = []\<rparr>,
     r_ReplicationPolicy = [], r_Separator = [], r_ReplicationFactor = 0, r_SyncTopicConfigs = None,
     r_SyncTopicACLs = False, r_EmitHeartbeats = None, r_EmitCheckpoints = None, r_EmitOffsetSyncs = None,
     r_RefreshTopicsInterval = 0, r_RefreshGroupsInterval = 0, r_SyncTopicConfigsInterval = 0,
     r_SyncTopicACLsInterval = 0, r_HeartbeatInterval = 0, r_CheckpointInterval = 0, r_ProducerBatchSize = 0,
     r_ProducerLingerMs = 0, r_ConsumerPollTimeout = 0, r_MaxPollRecords = 0, r_Compression = [],
     r_ReadCommitted = False, r_WorkersPerPartition = 0, r_FetchMaxPartitionBytes = 0, r_RingBufferCapacity = 0,
     r_ExactlyOnce = False, r_OffsetCommitInterval = 0, r_OffsetCommitBatch = 0, r_MaxRetries = 0,
     r_RetryBackoffBase = 0, r_RetryBackoffMax = 0, r_DLQEnabled = False, r_ShutdownTimeout = 0,
     r_OffsetSyncInterval = 0\<rparr>"

definition demo_flow :: ReplicationConfig where
  "demo_flow = zero_replication\<lparr>r_Source := ''east'', r_Target := ''west'', r_Enabled := True,
     r_TopicFilter := \<lparr>tfc_Whitelist = [''orders''], tfc_Blacklist = []\<rparr>\<rparr>"

definition demo_config :: Config where
  "demo_config = \<lparr>
     c_Clusters = [(''east'', \<lparr>cc_BootstrapServers = [''e:9092''], cc_SASL = None, cc_TLS = None\<rparr>),
                   (''west'', \<lparr>cc_BootstrapServers = [''w:9092''], cc_SASL = None, cc_TLS = None\<rparr>)],
     c_Replications = [demo_flow],
     c_Metrics = \<lparr>mc_Enabled = False, mc_Address = []\<rparr>,
     c_Logging = \<lparr>lc_Level = [], lc_Format = []\<rparr>\<rparr>"

lemma validate_accepts_iff_example:
  "Validate literal_compile demo_config = None \<and>
   Validate literal_compile (demo_config\<lparr>c_Replications := [demo_flow\<lparr>r_Target := ''east''\<rparr>]\<rparr>) \<noteq> None"
  unfolding validate_accepts_iff
  by (simp add: demo_config_def demo_flow_def zero_replication_def flow_ok_def valid_compressions_def literal_compile_def)

section \<open>Lemmas: defaults\<close>

text \<open>A flow in which every knob with a default is set.\<close>

definition complete_flow :: "ReplicationConfig \<Rightarrow> bool" where
  "complete_flow r \<longleftrightarrow>
     r_Separator r \<noteq> [] \<and> r_ReplicationPolicy r \<noteq> [] \<and> r_Compression r \<noteq> [] \<and>
     0 \<notin> set [r_ReplicationFactor r, r_RefreshTopicsInterval r, r_RefreshGroupsInterval r,
       r_SyncTopicConfigsInterval r, r_SyncTopicACLsInterval r, r_HeartbeatInterval r, r_CheckpointInterval r,
       r_ConsumerPollTimeout r, r_ProducerBatchSize r, r_ProducerLingerMs r, r_MaxPollRecords r,
       r_WorkersPerPartition r, r_FetchMaxPartitionBytes r, r_RingBufferCapacity r, r_OffsetCommitInterval r,
       r_OffsetCommitBatch r, r_MaxRetries r, r_RetryBackoffBase r, r_RetryBackoffMax r, r_ShutdownTimeout r,
       r_OffsetSyncInterval r] \<and>
     None \<notin> set [r_EmitHeartbeats r, r_EmitCheckpoints r, r_EmitOffsetSyncs r, r_SyncTopicConfigs r]"

lemma dflt_simps [simp]:
  "x \<noteq> 0 \<Longrightarrow> dflt d x = x" "dflt d 0 = d"
  "s \<noteq> [] \<Longrightarrow> dflt_str t s = s" "dflt_str t [] = t"
  "dflt_true (Some b) = Some b" "dflt_true None = Some True"
  "None \<noteq> v \<Longrightarrow> dflt_true v = v"
  by (auto simp: dflt_def dflt_str_def dflt_true_def split: option.splits)

lemma dflt_nonzero [simp]: "d \<noteq> 0 \<Longrightarrow> dflt d x \<noteq> 0" "t \<noteq> [] \<Longrightarrow> dflt_str t s \<noteq> []" "dflt_true b \<noteq> None"
  by (auto simp: dflt_def dflt_str_def dflt_true_def split: option.splits)

lemma complete_set_defaults: "complete_flow (set_replication_defaults r)"
  by (simp add: complete_flow_def set_replication_defaults_def Second_def Millisecond_def dflt_def dflt_str_def
      dflt_true_def split: option.splits)

lemma set_defaults_complete: "complete_flow r \<Longrightarrow> set_replication_defaults r = r"
  by (auto simp: complete_flow_def set_replication_defaults_def)

lemma flow_ok_defaults [simp]: "flow_ok compile clusters (set_replication_defaults r) = flow_ok compile clusters r"
  by (auto simp: flow_ok_def set_replication_defaults_def valid_compressions_def dflt_str_def)

lemma enabled_defaults [simp]: "r_Enabled (set_replication_defaults r) = r_Enabled r"
  by (simp add: set_replication_defaults_def)



end
