(* ===== verification/Client_Builder.thy ===== *)
theory Client_Builder
  imports Replication_Config Wire_Types
begin

text \<open>
  \<open>internal/kafka/builder.go\<close>, \<open>internal/config/sasl.go\<close> and \<open>TLSConfig.BuildTLSConfig\<close>: the options
  every Kafka client of the program is created with. The client library, the file system, the
  X.509 parser and the AWS credential chain are parameters; an option of the library is a value
  of the datatype \<open>kgo_opt\<close>, one constructor per option the code uses.
\<close>

section \<open>Data\<close>

record tls_Config =
  tlsc_InsecureSkipVerify :: bool
  tlsc_RootCAs :: "byte list option"
  tlsc_Certificates :: "(string \<times> string) list"

datatype sasl_Mechanism =
    PlainAuth string string
  | ScramSha256 string string
  | ScramSha512 string string
  | ManagedStreamingIAM string string string
  | RefreshableIAM

datatype CompressionCodec = NoCompression | GzipCompression | SnappyCompression | Lz4Compression | ZstdCompression

datatype kgo_opt =
    SeedBrokers "string list"
  | DialTLSConfig tls_Config
  | SASL sasl_Mechanism
  | ConsumeResetOffset_AtStart
  | ConsumeTopics "string list"
  | ConsumePartitions string int32 int64
  | ConsumerGroup string
  | DisableAutoCommit
  | FetchIsolationLevel_ReadCommitted
  | FetchMaxBytes int32
  | FetchMaxPartitionBytes int32
  | FetchMinBytes int32
  | FetchMaxWait int
  | ProducerBatchMaxBytes int32
  | ProducerLinger int
  | RecordPartitioner_Manual
  | RequiredAcks_AllISR
  | ProducerBatchCompression CompressionCodec
  | MaxProduceRequestsInflightPerBroker int
  | MaxBufferedRecords int

record aws_Credentials =
  ac_AccessKeyID :: string
  ac_SecretAccessKey :: string
  ac_SessionToken :: string
  ac_CanExpire :: bool

text \<open>
  What the builder asks of its environment: reading a file, whether bytes hold a PEM
  certificate, loading a key pair, and the AWS default configuration and credentials.
\<close>

record build_env =
  be_ReadFile :: "string \<Rightarrow> go_error + byte list"
  be_AppendCertsFromPEM :: "byte list \<Rightarrow> bool"
  be_LoadX509KeyPair :: "string \<Rightarrow> string \<Rightarrow> go_error option"
  be_LoadDefaultConfig :: "go_error option"
  be_Retrieve :: "go_error + aws_Credentials"

section \<open>TLS and SASL\<close>

definition BuildTLSConfig :: "build_env \<Rightarrow> TLSConfig option \<Rightarrow> go_error + tls_Config option" where
  "BuildTLSConfig env tco =
     (case tco of
        None \<Rightarrow> Inr None
      | Some tc \<Rightarrow>
          if \<not> tls_Enabled tc then Inr None
          else
            let tlsCfg = \<lparr>tlsc_InsecureSkipVerify = tls_SkipVerify tc, tlsc_RootCAs = None, tlsc_Certificates = []\<rparr>;
                withCA = (if tls_CACertFile tc \<noteq> [] then
                    (case be_ReadFile env (tls_CACertFile tc) of
                       Inl err \<Rightarrow> Inl (Wrapf ''read CA cert: %w'' [] err)
                     | Inr caCert \<Rightarrow>
                         if \<not> be_AppendCertsFromPEM env caCert
                         then Inl (Errorf ''failed to parse CA cert from %s'' [tls_CACertFile tc])
                         else Inr (tlsCfg\<lparr>tlsc_RootCAs := Some caCert\<rparr>))
                  else Inr tlsCfg)
            in case withCA of
                 Inl err \<Rightarrow> Inl err
               | Inr tlsCfg \<Rightarrow>
                   if tls_CertFile tc \<noteq> [] \<and> tls_KeyFile tc \<noteq> [] then
                     (case be_LoadX509KeyPair env (tls_CertFile tc) (tls_KeyFile tc) of
                        Some err \<Rightarrow> Inl (Wrapf ''load client cert: %w'' [] err)
                      | None \<Rightarrow> Inr (Some (tlsCfg\<lparr>tlsc_Certificates := [(tls_CertFile tc, tls_KeyFile tc)]\<rparr>)))
                   else Inr (Some tlsCfg))"

text \<open>\<open>strings.ToUpper\<close> and \<open>strings.TrimSpace\<close> on ASCII text (on other text they follow Unicode).\<close>

definition to_upper :: "char \<Rightarrow> char" where
  "to_upper c = (let n = (of_char c :: nat) in if 97 \<le> n \<and> n \<le> 122 then char_of (n - 32) else c)"

definition ToUpper :: "string \<Rightarrow> string" where
  "ToUpper = map to_upper"

definition is_space :: "char \<Rightarrow> bool" where
  "is_space c \<longleftrightarrow> (let n = (of_char c :: nat) in 9 \<le> n \<and> n \<le> 13 \<or> n = 32)"

definition TrimSpace :: "string \<Rightarrow> string" where
  "TrimSpace s = rev (dropWhile is_space (rev (dropWhile is_space s)))"

definition BuildSASLOpt :: "build_env \<Rightarrow> SASLConfig option \<Rightarrow> go_error + kgo_opt option" where
  "BuildSASLOpt env sco =
     (case sco of
        None \<Rightarrow> Inr None
      | Some sc \<Rightarrow>
          let mechanism = ToUpper (TrimSpace (sasl_Mechanism sc)) in
          if mechanism = ''PLAIN'' then Inr (Some (SASL (PlainAuth (sasl_Username sc) (sasl_Password sc))))
          else if mechanism = ''SCRAM-SHA-256'' then Inr (Some (SASL (ScramSha256 (sasl_Username sc) (sasl_Password sc))))
          else if mechanism = ''SCRAM-SHA-512'' then Inr (Some (SASL (ScramSha512 (sasl_Username sc) (sasl_Password sc))))
          else if mechanism = ''AWS_MSK_IAM'' then
            if sasl_Username sc \<noteq> [] then
              Inr (Some (SASL (ManagedStreamingIAM (sasl_Username sc) (sasl_Password sc) (sasl_SessionToken sc))))
            else (case be_LoadDefaultConfig env of
                Some err \<Rightarrow> Inl (Wrapf ''load AWS default credential chain for MSK IAM: %w'' [] err)
              | None \<Rightarrow> (case be_Retrieve env of
                  Inl err \<Rightarrow> Inl (Wrapf ''retrieve AWS credentials for MSK IAM: %w'' [] err)
                | Inr creds \<Rightarrow>
                    Inr (Some (SASL (if ac_CanExpire creds then RefreshableIAM
                      else ManagedStreamingIAM (ac_AccessKeyID creds) (ac_SecretAccessKey creds) (ac_SessionToken creds))))))
          else Inl (Errorf ''unsupported SASL mechanism %q (supported: PLAIN, SCRAM-SHA-256, SCRAM-SHA-512, AWS_MSK_IAM)''
                      [sasl_Mechanism sc]))"

text \<open>\<open>refreshableIAM.Authenticate\<close>: fresh credentials for every attempt; \<open>inner\<close> is the library's
  mechanism.\<close>

definition refreshableIAM_Authenticate :: "(sasl_Mechanism \<Rightarrow> string \<Rightarrow> go_error + 'session)
    \<Rightarrow> go_error + aws_Credentials \<Rightarrow> string \<Rightarrow> go_error + 'session" where
  "refreshableIAM_Authenticate inner retrieved host =
     (case retrieved of
        Inl err \<Rightarrow> Inl (Wrapf ''refresh AWS credentials for MSK IAM: %w'' [] err)
      | Inr creds \<Rightarrow> inner (ManagedStreamingIAM (ac_AccessKeyID creds) (ac_SecretAccessKey creds) (ac_SessionToken creds)) host)"

section \<open>The builder\<close>

definition BuildClientOpts :: "build_env \<Rightarrow> ClusterConfig \<Rightarrow> go_error + kgo_opt list" where
  "BuildClientOpts env cc =
     (let opts = [SeedBrokers (cc_BootstrapServers cc)];
          withTLS = (case cc_TLS cc of
              Some tc \<Rightarrow>
                if tls_Enabled tc then
                  (case BuildTLSConfig env (cc_TLS cc) of
                     Inl err \<Rightarrow> Inl (Wrapf ''build TLS config: %w'' [] err)
                   | Inr (Some tlsCfg) \<Rightarrow> Inr (opts @ [DialTLSConfig tlsCfg])
                   | Inr None \<Rightarrow> Inr opts)
                else Inr opts
            | None \<Rightarrow> Inr opts)
      in case withTLS of
           Inl err \<Rightarrow> Inl err
         | Inr opts \<Rightarrow>
             (case cc_SASL cc of
                None \<Rightarrow> Inr opts
              | Some _ \<Rightarrow>
                  (case BuildSASLOpt env (cc_SASL cc) of
                     Inl err \<Rightarrow> Inl (Wrapf ''build SASL config: %w'' [] err)
                   | Inr None \<Rightarrow> Inr opts
                   | Inr (Some saslOpt) \<Rightarrow> Inr (opts @ [saslOpt]))))"

definition compressionCodec :: "string \<Rightarrow> CompressionCodec" where
  "compressionCodec name =
     (if name = ''gzip'' then GzipCompression
      else if name = ''snappy'' then SnappyCompression
      else if name = ''lz4'' then Lz4Compression
      else if name = ''zstd'' then ZstdCompression
      else NoCompression)"

section \<open>Lemmas\<close>

lemma BuildTLSConfig_enabled:
  "tls_Enabled tc \<Longrightarrow> BuildTLSConfig env (Some tc) = Inr r \<Longrightarrow>
   \<exists>cfg. r = Some cfg \<and> tlsc_InsecureSkipVerify cfg = tls_SkipVerify tc \<and>
     (tls_CACertFile tc \<noteq> [] \<longrightarrow> be_ReadFile env (tls_CACertFile tc) = Inr (the (tlsc_RootCAs cfg)) \<and> tlsc_RootCAs cfg \<noteq> None)"
  by (auto simp: BuildTLSConfig_def Let_def split: if_splits sum.splits option.splits)

lemma BuildSASLOpt_some:
  "BuildSASLOpt env (Some sc) = Inr r \<Longrightarrow> \<exists>m. r = Some (SASL m)"
  by (auto simp: BuildSASLOpt_def Let_def split: if_splits sum.splits option.splits)


definition offline_env :: build_env where
  "offline_env = \<lparr>be_ReadFile = (\<lambda>_. Inl (Errorf ''no such file'' [])), be_AppendCertsFromPEM = (\<lambda>_. False),
     be_LoadX509KeyPair = (\<lambda>_ _. None), be_LoadDefaultConfig = None, be_Retrieve = Inl (Errorf ''no EC2 IMDS role found'' [])\<rparr>"

definition secure_cluster :: ClusterConfig where
  "secure_cluster = \<lparr>cc_BootstrapServers = [''b1:9094''],
     cc_SASL = Some \<lparr>sasl_Mechanism = '' scram-sha-512 '', sasl_Username = ''u'', sasl_Password = ''p'', sasl_SessionToken = []\<rparr>,
     cc_TLS = Some \<lparr>tls_Enabled = True, tls_CACertFile = [], tls_CertFile = [], tls_KeyFile = [], tls_SkipVerify = False\<rparr>\<rparr>"


end
