(* ===== verification/Sync_Topic.thy ===== *)
theory Sync_Topic
  imports Sync_Store Kafka_Types Client_Builder
begin

text \<open>
  \<open>internal/offset/sync_reader.go\<close> and \<open>internal/offset/sync_writer.go\<close>: offset syncs are
  persisted to an internal topic by the writer and read back by the reader, once to the end at
  start-up (\<open>ReadToEnd\<close>) and continuously afterwards (\<open>Follow\<close>). The Kafka client is a
  parameter: the reader gets the sequence of its polls, the writer the outcome of a produce.
\<close>

section \<open>Reader\<close>

text \<open>
  The reader's client, by the options it is made with. The store it feeds is shared with the flow's
  other components; the reading functions take it as an argument and return it.
\<close>

record SyncReader =
  sr_topic :: string
  sr_consumer :: "kgo_opt list"

definition NewSyncReader :: "build_env \<Rightarrow> (kgo_opt list \<Rightarrow> go_error option) \<Rightarrow> ClusterConfig \<Rightarrow> string
    \<Rightarrow> go_error + SyncReader" where
  "NewSyncReader env newClient cc topic =
     (case BuildClientOpts env cc of
        Inl err \<Rightarrow> Inl (Wrapf ''build client opts for sync reader: %w'' [] err)
      | Inr opts \<Rightarrow>
          (let opts = opts @ [ConsumeTopics [topic], ConsumeResetOffset_AtStart] in
           case newClient opts of
             Some err \<Rightarrow> Inl (Wrapf ''create sync reader consumer: %w'' [] err)
           | None \<Rightarrow> Inr \<lparr>sr_topic = topic, sr_consumer = opts\<rparr>))"

text \<open>
  The record loop of both reader functions: a record that does not decode is skipped, a
  record on which the decoder panics ends the program. The number counts the handled syncs.
\<close>

fun absorb_records :: "SyncStore \<Rightarrow> nat \<Rightarrow> Record list \<Rightarrow> (SyncStore \<times> nat) outcome" where
  "absorb_records store n [] = Ret (store, n)"
| "absorb_records store n (r # rs) =
     (case DeserializeOffsetSync (rec_key r) (rec_value r) of
        Ret os \<Rightarrow> absorb_records (HandleSync store os) (n + 1) rs
      | Fail _ \<Rightarrow> absorb_records store n rs
      | Panic m \<Rightarrow> Panic m)"

text \<open>
  \<open>ReadToEnd\<close> over the polls it makes. \<open>None\<close>: it is still polling when the listed polls are
  used up. Otherwise the error it returns, if any, and the store it leaves.
\<close>

fun ReadToEnd :: "SyncStore \<Rightarrow> nat \<Rightarrow> Poll list \<Rightarrow> (go_error option \<times> SyncStore) outcome option" where
  "ReadToEnd store totalRecords [] = None"
| "ReadToEnd store totalRecords (p # ps) =
     (case poll_ctx p of
        Some e \<Rightarrow>
          if e = DeadlineExceeded then Some (Ret (None, MarkReadToEnd store))
          else Some (Ret (Some (Wrapf ''context cancelled while reading offset-syncs: %w'' [] e), store))
      | None \<Rightarrow>
          (case absorb_records store totalRecords (poll_records p) of
             Ret (store', totalRecords') \<Rightarrow>
               if poll_records p = [] \<and> poll_errors p = [] then Some (Ret (None, MarkReadToEnd store'))
               else ReadToEnd store' totalRecords' ps
           | Fail e \<Rightarrow> Some (Fail e)
           | Panic m \<Rightarrow> Some (Panic m)))"

text \<open>\<open>Follow\<close> runs until the context ends; the store after the listed polls, and whether it has
  returned.\<close>

fun Follow :: "SyncStore \<Rightarrow> Poll list \<Rightarrow> (bool \<times> SyncStore) outcome" where
  "Follow store [] = Ret (False, store)"
| "Follow store (p # ps) =
     (if poll_ctx p \<noteq> None then Ret (True, store)
      else case absorb_records store 0 (poll_records p) of
             Ret (store', _) \<Rightarrow> Follow store' ps
           | Fail e \<Rightarrow> Fail e
           | Panic m \<Rightarrow> Panic m)"

section \<open>Writer\<close>

record SyncWriter =
  sw_topic :: string
  sw_closed :: bool

definition NewSyncWriter :: "build_env \<Rightarrow> (kgo_opt list \<Rightarrow> go_error option) \<Rightarrow> ClusterConfig \<Rightarrow> string
    \<Rightarrow> go_error + SyncWriter" where
  "NewSyncWriter env newClient cc topic =
     (case BuildClientOpts env cc of
        Inl err \<Rightarrow> Inl (Wrapf ''build client opts for sync writer: %w'' [] err)
      | Inr opts \<Rightarrow>
          (case newClient (opts @ [RequiredAcks_AllISR, ProducerBatchMaxBytes (64 * 1024)]) of
             Some err \<Rightarrow> Inl (Wrapf ''create sync writer producer: %w'' [] err)
           | None \<Rightarrow> Inr \<lparr>sw_topic = topic, sw_closed = False\<rparr>))"

definition sync_record :: "SyncWriter \<Rightarrow> OffsetSync \<Rightarrow> Record" where
  "sync_record sw os = zero_record\<lparr>rec_topic := sw_topic sw, rec_key := OffsetSync_SerializeKey os,
     rec_value := OffsetSync_SerializeValue os\<rparr>"

text \<open>\<open>Write\<close>: the error it returns and the records it hands to the producer, whose answer to the
  record is \<open>produce\<close>.\<close>

definition Write :: "(Record \<Rightarrow> go_error option) \<Rightarrow> SyncWriter \<Rightarrow> OffsetSync \<Rightarrow> go_error option \<times> Record list" where
  "Write produce sw os =
     (if sw_closed sw then (Some (Errorf ''sync writer is closed'' []), [])
      else let record = sync_record sw os in
        case produce record of
          Some produceErr \<Rightarrow>
            (Some (Wrapf ''produce offset sync for %s: %w'' [TopicPartition_String (os_tp os)] produceErr), [record])
        | None \<Rightarrow> (None, [record]))"

definition SyncWriter_Close :: "SyncWriter \<Rightarrow> SyncWriter" where
  "SyncWriter_Close sw = (if sw_closed sw then sw else sw\<lparr>sw_closed := True\<rparr>)"

section \<open>What a stream of records means\<close>

text \<open>The syncs that the records of a stream decode to, and the last one of a partition.\<close>

definition decoded :: "Record list \<Rightarrow> OffsetSync list" where
  "decoded rs = List.map_filter (\<lambda>r. case DeserializeOffsetSync (rec_key r) (rec_value r) of
      Ret os \<Rightarrow> Some os | _ \<Rightarrow> None) rs"

definition last_sync :: "TopicPartition \<Rightarrow> OffsetSync list \<Rightarrow> OffsetSync option" where
  "last_sync tp xs =
     (let ys = filter (\<lambda>x. os_tp x = tp) xs in if ys = [] then None else Some (last ys))"

definition no_panic :: "Record \<Rightarrow> bool" where
  "no_panic r \<longleftrightarrow> (\<forall>m. DeserializeOffsetSync (rec_key r) (rec_value r) \<noteq> Panic m)"

section \<open>Lemmas\<close>

lemma decoded_simps [simp]:
  "decoded [] = []"
  "decoded (r # rs) = (case DeserializeOffsetSync (rec_key r) (rec_value r) of
      Ret os \<Rightarrow> os # decoded rs | _ \<Rightarrow> decoded rs)"
  by (simp_all add: decoded_def List.map_filter_simps split: outcome.splits)

lemma decoded_append [simp]: "decoded (rs @ qs) = decoded rs @ decoded qs"
  by (induction rs) (auto split: outcome.splits)

lemma absorb_records_eq:
  "(\<forall>r \<in> set rs. no_panic r) \<Longrightarrow>
    absorb_records s n rs = Ret (handle_all s (decoded rs), n + length (decoded rs))"
  by (induction rs arbitrary: s n) (auto simp: no_panic_def split: outcome.splits)

lemma absorb_records_Ret:
  "absorb_records s n rs = Ret (s', n') \<Longrightarrow> s' = handle_all s (decoded rs)"
  by (induction rs arbitrary: s n) (auto split: outcome.splits)

lemma last_sync_snoc:
  "last_sync tp (xs @ [x]) = (if os_tp x = tp then Some x else last_sync tp xs)"
  by (simp add: last_sync_def Let_def)

text \<open>Before the end is reached, a partition holds its last sync in every slot.\<close>

lemma handle_all_initial:
  assumes "\<not> ss_readToEnd s"
  shows "ss_syncs (handle_all s xs) tp =
    (case last_sync tp xs of None \<Rightarrow> ss_syncs s tp | Some x \<Rightarrow> Some (fill_slots x))"
proof (induction xs rule: rev_induct)
  case Nil
  then show ?case by (simp add: last_sync_def)
next
  case (snoc x xs)
  have "ss_syncs (HandleSync (handle_all s xs) x) (os_tp x) = Some (fill_slots x)"
    using assms by (simp add: HandleSync_def Let_def split: option.splits)
  with snoc show ?case
    by (cases "os_tp x = tp") (auto simp: last_sync_snoc HandleSync_other)
qed

lemma ReadToEnd_store:
  "ReadToEnd s n ps = Some (Ret (None, st)) \<Longrightarrow>
    \<exists>k \<le> length ps. st = MarkReadToEnd (handle_all s (decoded (concat (map poll_records (take k ps)))))"
proof (induction s n ps rule: ReadToEnd.induct)
  case (2 s n p ps)
  show ?case
  proof (cases "poll_ctx p")
    case (Some e)
    with "2.prems" show ?thesis by (intro exI [of _ 0]) (auto split: if_splits)
  next
    case None
    then obtain s' n' where a: "absorb_records s n (poll_records p) = Ret (s', n')"
      using "2.prems" by (auto split: outcome.splits)
    note s' = absorb_records_Ret [OF a]
    show ?thesis
    proof (cases "poll_records p = [] \<and> poll_errors p = []")
      case True
      with "2.prems" None a s' show ?thesis by (intro exI [of _ 0]) auto
    next
      case False
      then obtain k where "k \<le> length ps"
          "st = MarkReadToEnd (handle_all s' (decoded (concat (map poll_records (take k ps)))))"
        using "2.IH" [OF None a refl] "2.prems" None a by auto
      then show ?thesis
        by (intro exI [of _ "Suc k"]) (simp add: s' handle_all_def)
    qed
  qed
qed simp

lemma Deserialize_sync_record:
  "length (tp_topic (os_tp x)) < 65534 \<Longrightarrow>
    DeserializeOffsetSync (rec_key (sync_record sw x)) (rec_value (sync_record sw x)) = Ret x"
  using Deserialize_Serialize [of x "[]" "[]"] by (simp add: sync_record_def zero_record_def)

lemma decoded_sync_records:
  "(\<forall>x \<in> set xs. length (tp_topic (os_tp x)) < 65534) \<Longrightarrow> decoded (map (sync_record sw) xs) = xs"
  by (induction xs) (simp_all add: Deserialize_sync_record)

lemma sync_record_no_panic:
  "length (tp_topic (os_tp x)) < 65534 \<Longrightarrow> no_panic (sync_record sw x)"
  by (simp add: no_panic_def Deserialize_sync_record)

lemma ReadToEnd_None:
  "ReadToEnd s n ps = None \<Longrightarrow> p \<in> set ps \<Longrightarrow> poll_ctx p = None \<and> (poll_records p \<noteq> [] \<or> poll_errors p \<noteq> [])"
  by (induction ps arbitrary: s n) (auto split: option.splits outcome.splits if_splits)

section \<open>Properties\<close>

text \<open>
  Start-up never hangs on the offset-syncs topic: \<open>ReadToEnd\<close> has returned once one of its
  polls ends with the context done (its timeout makes sure of that) or comes back empty
  without an error.
\<close>

lemma read_to_end_returns:
  assumes "p \<in> set ps" and "poll_ctx p \<noteq> None \<or> (poll_records p = [] \<and> poll_errors p = [])"
  shows "\<exists>res. ReadToEnd s n ps = Some res"
  using ReadToEnd_None [of s n ps p] assms by (cases "ReadToEnd s n ps") auto

lemma read_to_end_returns_example:
  "\<exists>res. ReadToEnd NewSyncStore 0
     [\<lparr>poll_ctx = None, poll_errors = [Canceled], poll_records = []\<rparr>,
      \<lparr>poll_ctx = Some DeadlineExceeded, poll_errors = [], poll_records = []\<rparr>] = Some res"
  by (rule read_to_end_returns [of "\<lparr>poll_ctx = Some DeadlineExceeded, poll_errors = [], poll_records = []\<rparr>"]) simp_all

text \<open>
  When \<open>ReadToEnd\<close> on a new store returns without an error, the store is ready and holds for
  every partition exactly the last decodable sync of the records read, in all 64 slots, and
  nothing for a partition without one; malformed records leave no trace.
\<close>

lemma read_to_end_loads_last_syncs:
  assumes "ReadToEnd NewSyncStore n ps = Some (Ret (None, st))"
  shows "IsReady st \<and> (\<exists>k \<le> length ps. \<forall>tp. ss_syncs st tp =
    map_option fill_slots (last_sync tp (decoded (concat (map poll_records (take k ps))))))"
proof -
  obtain k where "k \<le> length ps"
      "st = MarkReadToEnd (handle_all NewSyncStore (decoded (concat (map poll_records (take k ps)))))"
    using ReadToEnd_store [OF assms] by blast
  moreover have "\<not> ss_readToEnd NewSyncStore" by (simp add: NewSyncStore_def)
  ultimately show ?thesis
    by (auto simp: handle_all_initial IsReady_def NewSyncStore_def split: option.splits
        intro!: exI [of _ k])
qed

lemma read_to_end_loads_last_syncs_example:
  "IsReady (MarkReadToEnd NewSyncStore) \<and> (\<exists>k \<le> length [\<lparr>poll_ctx = None, poll_errors = [], poll_records = []\<rparr>].
     \<forall>tp. ss_syncs (MarkReadToEnd NewSyncStore) tp = map_option fill_slots (last_sync tp
       (decoded (concat (map poll_records (take k [\<lparr>poll_ctx = None, poll_errors = [], poll_records = []\<rparr>]))))))"
  by (rule read_to_end_loads_last_syncs [where n = 0]) simp



text \<open>
  C37. The follower feeds persisted syncs back into the store that the replicator has already
  updated. When the persisted sync is older than the newest one, which is the normal case as the
  replicator has moved on meanwhile, \<open>Follow\<close> wipes the partition's history down to that one
  older sync.
\<close>

theorem follow_echo_wipes_history:
  assumes "store_reach st" and "ss_readToEnd st" and "ss_syncs st (os_tp x) = Some a" and "up x < up (a ! 0)"
    and "length (tp_topic (os_tp x)) < 65534"
  shows "\<exists>st'. Follow st [\<lparr>poll_ctx = None, poll_errors = [], poll_records = [sync_record sw x]\<rparr>] = Ret (False, st')
    \<and> ss_syncs st' (os_tp x) = Some (fill_slots x)"
  using assms(5) HandleSync_rewind [OF assms(3,4)] by (simp add: Deserialize_sync_record)

theorem follow_echo_wipes_history_witness:
  "\<exists>st'. Follow demo_store [\<lparr>poll_ctx = None, poll_errors = [],
        poll_records = [sync_record \<lparr>sw_topic = ''s'', sw_closed = False\<rparr> (sync_at 100 50)]\<rparr>] = Ret (False, st')
    \<and> ss_syncs st' (os_tp (sync_at 100 50)) = Some (fill_slots (sync_at 100 50))"
proof (rule follow_echo_wipes_history [OF demo_reach demo_ready])
  show "ss_syncs demo_store (os_tp (sync_at 100 50)) = Some ((fill_slots (sync_at 100 50))[0 := sync_at 101 51])"
    using demo_slots by (simp add: sync_at_def)
qed (simp_all add: fill_slots_def sync_at_def)

end
