(* ===== verification/Ring_Buffer.thy ===== *)
theory Ring_Buffer
  imports Kafka_Types
begin

text \<open>
  \<open>internal/mirror/ring_buffer.go\<close>: the offset-indexed ring buffer between the parallel fetchers
  and the drainer of a partition. Each call is a function of the buffer; a call that waits on
  the condition variable has the result \<open>None\<close> and is tried again after the buffer changed.
  Offsets are integers: Kafka's never come near \<open>2^63\<close>. The theory shows that the buffer refines
  an abstract ordered buffer as long as every put stays in the window of \<open>capacity\<close> offsets
  from the drain position, and what happens outside it.
\<close>

section \<open>Definitions\<close>

datatype slotState = slotEmpty | slotFilled | slotTaken

record ringSlot =
  sl_state :: slotState
  sl_record :: "Record option"
  sl_offset :: int

record OrderedRingBuffer =
  rb_slots :: "ringSlot list"
  rb_capacity :: int
  rb_drainOffset :: int
  rb_closed :: bool

definition zero_slot :: ringSlot where
  "zero_slot = \<lparr>sl_state = slotEmpty, sl_record = None, sl_offset = 0\<rparr>"

definition NewOrderedRingBuffer :: "int \<Rightarrow> int \<Rightarrow> OrderedRingBuffer outcome" where
  "NewOrderedRingBuffer capacity startOffset =
     (if capacity < 0 then Panic ''makeslice: len out of range''
      else Ret \<lparr>rb_slots = replicate (nat capacity) zero_slot, rb_capacity = capacity,
                rb_drainOffset = startOffset, rb_closed = False\<rparr>)"

text \<open>\<open>slotIndex\<close>, for a capacity that is not zero (Go's \<open>%\<close> panics on zero; the calls check).\<close>

definition slotIndex :: "OrderedRingBuffer \<Rightarrow> int \<Rightarrow> nat" where
  "slotIndex rb offset =
     (let idx = go_rem offset (rb_capacity rb)
      in nat (if idx < 0 then idx + rb_capacity rb else idx))"

definition slot_at :: "OrderedRingBuffer \<Rightarrow> int \<Rightarrow> ringSlot" where
  "slot_at rb offset = rb_slots rb ! slotIndex rb offset"

definition fill_slot :: "int \<Rightarrow> Record \<Rightarrow> OrderedRingBuffer \<Rightarrow> OrderedRingBuffer" where
  "fill_slot offset record rb =
     rb\<lparr>rb_slots := (rb_slots rb)[slotIndex rb offset :=
       (slot_at rb offset)\<lparr>sl_record := Some record, sl_offset := offset, sl_state := slotFilled\<rparr>]\<rparr>"

text \<open>
  \<open>Put\<close>: the fast path looks neither at \<open>closed\<close> nor at the context; the slow path waits while
  the slot is occupied, the buffer is open and the context is alive, and then refuses if the
  buffer was closed or the context ended.
\<close>

definition Put_slow :: "go_error option \<Rightarrow> int \<Rightarrow> Record \<Rightarrow> OrderedRingBuffer \<Rightarrow> bool option \<times> OrderedRingBuffer" where
  "Put_slow ctxErr offset record rb =
     (if sl_state (slot_at rb offset) \<noteq> slotEmpty \<and> \<not> rb_closed rb \<and> ctxErr = None then (None, rb)
      else if rb_closed rb \<or> ctxErr \<noteq> None then (Some False, rb)
      else (Some True, fill_slot offset record rb))"

definition Put :: "go_error option \<Rightarrow> int \<Rightarrow> Record \<Rightarrow> OrderedRingBuffer \<Rightarrow> (bool option \<times> OrderedRingBuffer) outcome" where
  "Put ctxErr offset record rb =
     (if rb_capacity rb = 0 then Panic ''integer divide by zero''
      else if sl_state (slot_at rb offset) = slotEmpty then Ret (Some True, fill_slot offset record rb)
      else Ret (Put_slow ctxErr offset record rb))"

text \<open>The loop of \<open>DrainBatch\<close>: \<open>n\<close> is what is left of \<open>maxBatch\<close>.\<close>

fun drain_loop :: "nat \<Rightarrow> int \<Rightarrow> OrderedRingBuffer \<Rightarrow> Record option list \<times> OrderedRingBuffer" where
  "drain_loop 0 off rb = ([], rb)"
| "drain_loop (Suc n) off rb =
     (let s = slot_at rb off
      in if sl_state s \<noteq> slotFilled then ([], rb)
         else let rb' = rb\<lparr>rb_slots := (rb_slots rb)[slotIndex rb off := s\<lparr>sl_record := None, sl_state := slotEmpty\<rparr>]\<rparr>;
                  (batch, rb'') = drain_loop n (off + 1) rb'
              in (sl_record s # batch, rb''))"

definition DrainBatch :: "go_error option \<Rightarrow> int \<Rightarrow> OrderedRingBuffer
    \<Rightarrow> ((Record option list \<times> bool) option \<times> OrderedRingBuffer) outcome" where
  "DrainBatch ctxErr maxBatch rb =
     (let maxBatch = (if maxBatch \<le> 0 then 256 else maxBatch);
          nextOffset = rb_drainOffset rb
      in if rb_capacity rb = 0 then Panic ''integer divide by zero''
         else let slot = slot_at rb nextOffset
              in if sl_state slot \<noteq> slotFilled \<and> \<not> rb_closed rb \<and> ctxErr = None then Ret (None, rb)
                 else if rb_closed rb \<and> sl_state slot \<noteq> slotFilled then Ret (Some ([], False), rb)
                 else if ctxErr \<noteq> None then Ret (Some ([], False), rb)
                 else let (batch, rb') = drain_loop (nat maxBatch) nextOffset rb
                      in Ret (Some (batch, True), rb'\<lparr>rb_drainOffset := rb_drainOffset rb' + int (length batch)\<rparr>))"

definition Close :: "OrderedRingBuffer \<Rightarrow> OrderedRingBuffer" where
  "Close rb = rb\<lparr>rb_closed := True\<rparr>"

definition CloseWithError :: "OrderedRingBuffer \<Rightarrow> OrderedRingBuffer" where
  "CloseWithError rb = rb\<lparr>rb_closed := True\<rparr>"

definition DrainOffset :: "OrderedRingBuffer \<Rightarrow> int" where
  "DrainOffset rb = rb_drainOffset rb"

definition Capacity :: "OrderedRingBuffer \<Rightarrow> int" where
  "Capacity rb = rb_capacity rb"

section \<open>The interface: an ordered buffer\<close>

text \<open>
  What the drainer relies on: a buffer with a position \<open>pos\<close>, a window of \<open>room\<close> offsets from
  it and a partial map \<open>pending\<close> of the records waiting in the window. \<open>put\<close> adds one, \<open>take\<close>
  removes the longest run of consecutive records from \<open>pos\<close>, at most \<open>n\<close> of them.
\<close>

locale ordered_buffer =
  fixes ok :: "'b \<Rightarrow> bool"
    and pos :: "'b \<Rightarrow> int"
    and room :: "'b \<Rightarrow> int"
    and pending :: "'b \<Rightarrow> int \<Rightarrow> 'r option"
    and put :: "int \<Rightarrow> 'r \<Rightarrow> 'b \<Rightarrow> 'b"
    and take_run :: "nat \<Rightarrow> 'b \<Rightarrow> 'r list \<times> 'b"
  assumes put_law: "ok b \<Longrightarrow> pos b \<le> off \<Longrightarrow> off < pos b + room b \<Longrightarrow> pending b off = None \<Longrightarrow>
      ok (put off r b) \<and> pos (put off r b) = pos b \<and> room (put off r b) = room b \<and>
      pending (put off r b) = (pending b)(off \<mapsto> r)"
    and take_law: "ok b \<Longrightarrow> take_run n b = (rs, b') \<Longrightarrow>
      ok b' \<and> pos b' = pos b + int (length rs) \<and> room b' = room b \<and> length rs \<le> n \<and>
      (\<forall>i < length rs. pending b (pos b + int i) = Some (rs ! i)) \<and>
      (length rs < n \<longrightarrow> pending b (pos b + int (length rs)) = None) \<and>
      pending b' = (\<lambda>off. if off < pos b' then None else pending b off)"
begin

text \<open>The pending records come from the source log \<open>src\<close>.\<close>

definition from_log :: "(int \<Rightarrow> 'r) \<Rightarrow> 'b \<Rightarrow> bool" where
  "from_log src b \<longleftrightarrow> (\<forall>off r. pending b off = Some r \<longrightarrow> r = src off)"

lemma put_from_log:
  assumes "ok b" "from_log src b" "pos b \<le> off" "off < pos b + room b" "pending b off = None"
  shows "ok (put off (src off) b) \<and> from_log src (put off (src off) b) \<and> pos (put off (src off) b) = pos b"
  using put_law [of b off "src off"] assms by (simp add: from_log_def)

lemma take_from_log:
  assumes "ok b" "from_log src b" "take_run n b = (rs, b')"
  shows "ok b' \<and> from_log src b' \<and> rs = map src [pos b..pos b' - 1] \<and> pos b \<le> pos b'"
proof -
  note l = take_law [OF assms(1,3)]
  have "rs = map src [pos b..pos b' - 1]"
  proof (rule nth_equalityI)
    show "length rs = length (map src [pos b..pos b' - 1])" using l by simp
    fix i assume "i < length rs"
    then show "rs ! i = map src [pos b..pos b' - 1] ! i"
      using l assms(2) by (auto simp: from_log_def nth_upto)
  qed
  then show ?thesis using l assms(2) by (auto simp: from_log_def split: if_splits)
qed

end

section \<open>The ring buffer is an ordered buffer\<close>

text \<open>
  The invariant, relative to a drain position \<open>d\<close>: every filled slot holds a record whose offset
  lies in the window \<open>[d, d + capacity)\<close> and maps to that slot.
\<close>

definition ring_ok_at :: "int \<Rightarrow> OrderedRingBuffer \<Rightarrow> bool" where
  "ring_ok_at d rb \<longleftrightarrow> 0 < rb_capacity rb \<and> length (rb_slots rb) = nat (rb_capacity rb) \<and>
     (\<forall>i < length (rb_slots rb). let s = rb_slots rb ! i in
        sl_state s = slotEmpty \<or>
        sl_state s = slotFilled \<and> sl_record s \<noteq> None \<and> d \<le> sl_offset s \<and>
          sl_offset s < d + rb_capacity rb \<and> slotIndex rb (sl_offset s) = i)"

definition pending_at :: "int \<Rightarrow> OrderedRingBuffer \<Rightarrow> int \<Rightarrow> Record option" where
  "pending_at d rb off =
     (if d \<le> off \<and> off < d + rb_capacity rb \<and> sl_state (slot_at rb off) = slotFilled
      then sl_record (slot_at rb off) else None)"

definition ring_ok :: "OrderedRingBuffer \<Rightarrow> bool" where
  "ring_ok rb \<longleftrightarrow> ring_ok_at (rb_drainOffset rb) rb"

definition ring_pending :: "OrderedRingBuffer \<Rightarrow> int \<Rightarrow> Record option" where
  "ring_pending rb = pending_at (rb_drainOffset rb) rb"

definition take_batch :: "nat \<Rightarrow> OrderedRingBuffer \<Rightarrow> Record list \<times> OrderedRingBuffer" where
  "take_batch n rb =
     (let (batch, rb') = drain_loop n (rb_drainOffset rb) rb
      in (map the batch, rb'\<lparr>rb_drainOffset := rb_drainOffset rb' + int (length batch)\<rparr>))"

lemma slotIndex_mod: "0 < rb_capacity rb \<Longrightarrow> slotIndex rb off = nat (off mod rb_capacity rb)"
  using go_rem_fixed [of "rb_capacity rb" off] by (auto simp: slotIndex_def Let_def)

lemma slotIndex_update [simp]:
  "slotIndex (rb\<lparr>rb_slots := x\<rparr>) = slotIndex rb"
  "slotIndex (rb\<lparr>rb_drainOffset := y\<rparr>) = slotIndex rb"
  "slotIndex (rb\<lparr>rb_closed := z\<rparr>) = slotIndex rb"
  by (simp_all add: slotIndex_def fun_eq_iff Let_def)

lemma slotIndex_less: "0 < rb_capacity rb \<Longrightarrow> slotIndex rb off < nat (rb_capacity rb)"
  by (simp add: slotIndex_mod)

lemma slotIndex_eq_iff: "0 < rb_capacity rb \<Longrightarrow>
   slotIndex rb a = slotIndex rb b \<longleftrightarrow> a mod rb_capacity rb = b mod rb_capacity rb"
  by (simp add: slotIndex_mod eq_nat_nat_iff)

lemma slotIndex_window:
  assumes "0 < rb_capacity rb" "d \<le> a" "a < d + rb_capacity rb" "d \<le> b" "b < d + rb_capacity rb"
  shows "slotIndex rb a = slotIndex rb b \<longleftrightarrow> a = b"
proof
  assume "slotIndex rb a = slotIndex rb b"
  then have "a mod rb_capacity rb = b mod rb_capacity rb" using assms(1) by (simp add: slotIndex_eq_iff)
  then have "rb_capacity rb dvd a - b" by (simp add: mod_eq_dvd_iff)
  moreover have "\<bar>a - b\<bar> < rb_capacity rb" using assms by linarith
  ultimately show "a = b" using zdvd_imp_le [of "rb_capacity rb" "\<bar>a - b\<bar>"] by fastforce
qed simp


lemma ring_ok_atD:
  assumes "ring_ok_at d rb"
  shows "0 < rb_capacity rb" "length (rb_slots rb) = nat (rb_capacity rb)"
    and "slotIndex rb off < length (rb_slots rb)"
    and "sl_state (slot_at rb off) = slotEmpty \<or> sl_state (slot_at rb off) = slotFilled"
    and "sl_state (slot_at rb off) = slotFilled \<Longrightarrow> sl_record (slot_at rb off) \<noteq> None"
  using assms slotIndex_less [of rb off] by (auto simp: ring_ok_at_def Let_def slot_at_def)

lemma ring_filled_offset:
  assumes "ring_ok_at d rb" "sl_state (slot_at rb off) = slotFilled" "d \<le> off" "off < d + rb_capacity rb"
  shows "sl_offset (slot_at rb off) = off"
proof -
  let ?o = "sl_offset (slot_at rb off)"
  have "d \<le> ?o" "?o < d + rb_capacity rb" "slotIndex rb ?o = slotIndex rb off"
    using assms(1,2) ring_ok_atD(3) [OF assms(1), of off]
    by (auto simp: ring_ok_at_def Let_def slot_at_def)
  then show ?thesis using slotIndex_window [of rb d ?o off] assms ring_ok_atD(1) by blast
qed

text \<open>Writing one slot.\<close>

lemma slot_at_update:
  assumes "ring_ok_at d rb" "d \<le> off" "off < d + rb_capacity rb" "d \<le> off'" "off' < d + rb_capacity rb"
  shows "slot_at (rb\<lparr>rb_slots := (rb_slots rb)[slotIndex rb off := s]\<rparr>) off' =
         (if off' = off then s else slot_at rb off')"
  using slotIndex_window [OF ring_ok_atD(1) [OF assms(1)] assms(2-5)] ring_ok_atD(3) [OF assms(1), of off]
  by (auto simp: slot_at_def nth_list_update)

lemma fill_slot_law:
  assumes "ring_ok_at d rb" "d \<le> off" "off < d + rb_capacity rb"
  shows "ring_ok_at d (fill_slot off r rb)" "pending_at d (fill_slot off r rb) = (pending_at d rb)(off \<mapsto> r)"
proof -
  note [simp] = ring_ok_atD(1) [OF assms(1)]
  show "ring_ok_at d (fill_slot off r rb)"
    using assms ring_ok_atD(3) [OF assms(1), of off]
    by (auto simp: ring_ok_at_def fill_slot_def Let_def nth_list_update)
  show "pending_at d (fill_slot off r rb) = (pending_at d rb)(off \<mapsto> r)"
    using slot_at_update [OF assms] assms by (auto simp: pending_at_def fill_slot_def fun_eq_iff)
qed

lemma clear_slot_law:
  assumes ok: "ring_ok_at d rb" and filled: "sl_state (slot_at rb d) = slotFilled"
    and rb': "rb' = rb\<lparr>rb_slots := (rb_slots rb)[slotIndex rb d := (slot_at rb d)\<lparr>sl_record := None, sl_state := slotEmpty\<rparr>]\<rparr>"
  shows "ring_ok_at (d + 1) rb'" "pending_at (d + 1) rb' = (\<lambda>off. if off < d + 1 then None else pending_at d rb off)"
proof -
  note c = ring_ok_atD [OF ok]
  have shift: "d + 1 \<le> sl_offset (rb_slots rb ! i)"
    if "i < length (rb_slots rb)" "sl_state (rb_slots rb ! i) = slotFilled" "i \<noteq> slotIndex rb d" for i
  proof -
    have "d \<le> sl_offset (rb_slots rb ! i)" "slotIndex rb (sl_offset (rb_slots rb ! i)) = i"
      using that ok by (auto simp: ring_ok_at_def Let_def)
    then show ?thesis using that(3) by (cases "sl_offset (rb_slots rb ! i) = d") auto
  qed
  show "ring_ok_at (d + 1) rb'"
    using ok shift c(3) [of d] by (auto simp: ring_ok_at_def Let_def rb' nth_list_update)
  show "pending_at (d + 1) rb' = (\<lambda>off. if off < d + 1 then None else pending_at d rb off)"
  proof
    fix off
    consider "off < d + 1" | "d + rb_capacity rb \<le> off" | "d < off" "off < d + rb_capacity rb" by linarith
    then show "pending_at (d + 1) rb' off = (if off < d + 1 then None else pending_at d rb off)"
    proof cases
      case 2
      show ?thesis
      proof (cases "off = d + rb_capacity rb")
        case True
        then have "slotIndex rb off = slotIndex rb d" using c(1) by (simp add: slotIndex_eq_iff)
        then have "sl_state (slot_at rb' off) = slotEmpty" using c(3) [of d] by (simp add: rb' slot_at_def)
        with True c(1) show ?thesis by (simp add: pending_at_def)
      qed (use 2 in \<open>simp add: pending_at_def rb'\<close>)
    next
      case 3
      then show ?thesis
        using slot_at_update [OF ok, of d off] c(1) by (simp add: pending_at_def rb')
    qed (simp add: pending_at_def)
  qed
qed

lemma drain_loop_law:
  assumes "ring_ok_at d rb" "drain_loop n d rb = (batch, rb')"
  shows "ring_ok_at (d + int (length batch)) rb' \<and> rb_capacity rb' = rb_capacity rb \<and>
    rb_drainOffset rb' = rb_drainOffset rb \<and> length batch \<le> n \<and>
    (\<forall>i < length batch. batch ! i \<noteq> None \<and> pending_at d rb (d + int i) = batch ! i) \<and>
    (length batch < n \<longrightarrow> pending_at d rb (d + int (length batch)) = None) \<and>
    pending_at (d + int (length batch)) rb' = (\<lambda>off. if off < d + int (length batch) then None else pending_at d rb off)"
  using assms
proof (induction n arbitrary: d rb batch)
  case 0
  then show ?case by (auto simp: pending_at_def fun_eq_iff)
next
  case (Suc n)
  show ?case
  proof (cases "sl_state (slot_at rb d) = slotFilled")
    case False
    with Suc.prems show ?thesis by (auto simp: pending_at_def fun_eq_iff)
  next
    case True
    define rb1 where "rb1 = rb\<lparr>rb_slots := (rb_slots rb)[slotIndex rb d := (slot_at rb d)\<lparr>sl_record := None, sl_state := slotEmpty\<rparr>]\<rparr>"
    obtain batch1 where b: "drain_loop n (d + 1) rb1 = (batch1, rb')" "batch = sl_record (slot_at rb d) # batch1"
      using Suc.prems(2) True by (auto simp: rb1_def Let_def split: prod.splits)
    have head: "sl_record (slot_at rb d) \<noteq> None" "pending_at d rb d = sl_record (slot_at rb d)"
      using ring_ok_atD(1,5) [OF Suc.prems(1)] True by (auto simp: pending_at_def)
    note clear = clear_slot_law [OF Suc.prems(1) True rb1_def]
    have idx: "d + 1 + int i = d + int (Suc i)" for i by simp
    from Suc.IH [OF clear(1) b(1)] show ?thesis
      using head b(2) clear(2)
      by (auto simp: rb1_def idx nth_Cons fun_eq_iff split: nat.split)
  qed
qed

interpretation ring: ordered_buffer ring_ok rb_drainOffset rb_capacity ring_pending fill_slot take_batch
proof
  fix b off r
  assume "ring_ok b" "rb_drainOffset b \<le> off" "off < rb_drainOffset b + rb_capacity b"
  then show "ring_ok (fill_slot off r b) \<and> rb_drainOffset (fill_slot off r b) = rb_drainOffset b \<and>
      rb_capacity (fill_slot off r b) = rb_capacity b \<and> ring_pending (fill_slot off r b) = (ring_pending b)(off \<mapsto> r)"
    using fill_slot_law [of "rb_drainOffset b" b off r]
    by (simp add: ring_ok_def ring_pending_def) (simp add: fill_slot_def)
next
  fix b n rs b'
  assume a: "ring_ok b" "take_batch n b = (rs, b')"
  then obtain batch rb' where l: "drain_loop n (rb_drainOffset b) b = (batch, rb')" "rs = map the batch"
    "b' = rb'\<lparr>rb_drainOffset := rb_drainOffset rb' + int (length batch)\<rparr>"
    by (auto simp: take_batch_def split: prod.splits)
  have upd: "pending_at d (rb\<lparr>rb_drainOffset := x\<rparr>) = pending_at d rb" "ring_ok_at d (rb\<lparr>rb_drainOffset := x\<rparr>) = ring_ok_at d rb"
    for d x rb by (auto simp: pending_at_def ring_ok_at_def slot_at_def fun_eq_iff)
  show "ring_ok b' \<and> rb_drainOffset b' = rb_drainOffset b + int (length rs) \<and> rb_capacity b' = rb_capacity b \<and>
      length rs \<le> n \<and> (\<forall>i < length rs. ring_pending b (rb_drainOffset b + int i) = Some (rs ! i)) \<and>
      (length rs < n \<longrightarrow> ring_pending b (rb_drainOffset b + int (length rs)) = None) \<and>
      ring_pending b' = (\<lambda>off. if off < rb_drainOffset b' then None else ring_pending b off)"
    using drain_loop_law [OF a(1) [unfolded ring_ok_def] l(1)] l
    by (simp add: ring_ok_def ring_pending_def upd cong: if_cong)
qed


section \<open>Runs of the buffer\<close>

text \<open>
  A run: fetchers put records of the source log \<open>src\<close>, the drainer drains batches, and the
  buffer may be closed. Every put lies in the window.
\<close>

definition in_window :: "OrderedRingBuffer \<Rightarrow> int \<Rightarrow> bool" where
  "in_window rb off \<longleftrightarrow> rb_drainOffset rb \<le> off \<and> off < rb_drainOffset rb + rb_capacity rb"

inductive ring_run :: "(int \<Rightarrow> Record) \<Rightarrow> OrderedRingBuffer \<Rightarrow> Record option list \<Rightarrow> OrderedRingBuffer \<Rightarrow> bool"
  for src rb0 where
  run_start: "ring_run src rb0 [] rb0"
| run_put: "ring_run src rb0 out rb \<Longrightarrow> in_window rb off \<Longrightarrow>
    Put ctxErr off (src off) rb = Ret (res, rb') \<Longrightarrow> ring_run src rb0 out rb'"
| run_drain: "ring_run src rb0 out rb \<Longrightarrow>
    DrainBatch ctxErr n rb = Ret (Some (batch, alive), rb') \<Longrightarrow> ring_run src rb0 (out @ batch) rb'"
| run_close: "ring_run src rb0 out rb \<Longrightarrow> ring_run src rb0 out (Close rb)"

lemma upto_append: "i \<le> j \<Longrightarrow> j \<le> k + 1 \<Longrightarrow> [i..j - 1] @ [j..k] = [i..k]"
proof (cases "j \<le> k")
  case False
  moreover assume "j \<le> k + 1"
  ultimately have "j = k + 1" by simp
  then show ?thesis by simp
qed (use upto_split1 [of i j k] in simp)

lemma NewOrderedRingBuffer_ok:
  assumes "NewOrderedRingBuffer capacity start = Ret rb" "0 < capacity"
  shows "ring_ok rb" "rb_drainOffset rb = start" "ring_pending rb = Map.empty" "rb_capacity rb = capacity"
proof -
  show new: "rb_drainOffset rb = start" "rb_capacity rb = capacity"
    using assms by (auto simp: NewOrderedRingBuffer_def split: if_splits)
  have slots: "rb_slots rb = replicate (nat capacity) zero_slot"
    using assms by (auto simp: NewOrderedRingBuffer_def split: if_splits)
  then show "ring_ok rb"
    using assms(2) new by (simp add: ring_ok_def ring_ok_at_def zero_slot_def)
  have "slot_at rb off = zero_slot" for off
    using slotIndex_less [of rb off] new assms(2) by (simp add: slot_at_def slots)
  then show "ring_pending rb = Map.empty"
    by (simp add: ring_pending_def pending_at_def fun_eq_iff zero_slot_def)
qed

lemma ring_pending_None: "ring_ok rb \<Longrightarrow> sl_state (slot_at rb off) = slotEmpty \<Longrightarrow> ring_pending rb off = None"
  by (simp add: ring_pending_def pending_at_def)

lemma Put_cases:
  assumes "Put ctxErr off r rb = Ret (res, rb')"
  shows "rb' = rb \<and> res \<noteq> Some True \<or> rb' = fill_slot off r rb \<and> res = Some True \<and> sl_state (slot_at rb off) = slotEmpty"
  using assms by (auto simp: Put_def Put_slow_def split: if_splits)

lemma DrainBatch_cases:
  assumes "DrainBatch ctxErr n rb = Ret (Some (batch, alive), rb')" "ring_ok rb"
  shows "batch = [] \<and> \<not> alive \<and> rb' = rb \<or>
     alive \<and> (\<exists>rs. batch = map Some rs \<and> take_batch (nat (if n \<le> 0 then 256 else n)) rb = (rs, rb'))"
proof -
  let ?n = "nat (if n \<le> 0 then 256 else n)"
  obtain b rb1 where l: "drain_loop ?n (rb_drainOffset rb) rb = (b, rb1)" by fastforce
  have "b = map Some (map the b)"
    using drain_loop_law [OF assms(2) [unfolded ring_ok_def] l] by (intro nth_equalityI) auto
  then show ?thesis
    using assms(1) l by (auto simp: DrainBatch_def take_batch_def Let_def split: if_splits)
qed

lemma Close_laws [simp]:
  "ring_ok (Close rb) = ring_ok rb" "rb_closed (Close rb)" "rb_drainOffset (Close rb) = rb_drainOffset rb" "ring_pending (Close rb) = ring_pending rb"
  by (auto simp: Close_def ring_ok_def ring_ok_at_def ring_pending_def pending_at_def slot_at_def fun_eq_iff)

text \<open>
  C8. Strict order inside the window: from a fresh buffer, however puts, drains and closing
  interleave, as long as each put offset lies in the window of \<open>capacity\<close> offsets from the drain
  position at that moment, the records drained so far are exactly the source records of the
  offsets from the start to the drain position, in offset order, none missing and none twice.
\<close>

theorem ring_drains_in_order:
  assumes "NewOrderedRingBuffer capacity start = Ret rb0" and "0 < capacity"
    and "ring_run src rb0 out rb"
  shows "out = map (Some \<circ> src) [start..rb_drainOffset rb - 1] \<and> start \<le> rb_drainOffset rb"
proof -
  note new = NewOrderedRingBuffer_ok [OF assms(1,2)]
  from assms(3) have "ring_ok rb \<and> ring.from_log src rb \<and> start \<le> rb_drainOffset rb \<and>
      out = map (Some \<circ> src) [start..rb_drainOffset rb - 1]"
  proof induction
    case run_start
    then show ?case using new by (simp add: ring.from_log_def)
  next
    case (run_put out rb off ctxErr res rb')
    then show ?case
      using Put_cases [OF run_put(3)] ring.put_from_log [of rb src off] ring_pending_None [of rb off]
      by (auto simp: in_window_def)
  next
    case (run_drain out rb ctxErr n batch alive rb')
    show ?case
    proof (cases alive)
      case False
      then show ?thesis using DrainBatch_cases [OF run_drain(2)] run_drain by auto
    next
      case True
      then obtain rs where rs: "batch = map Some rs" "take_batch (nat (if n \<le> 0 then 256 else n)) rb = (rs, rb')"
        using DrainBatch_cases [OF run_drain(2)] run_drain by auto
      from run_drain have IH: "ring_ok rb" "ring.from_log src rb" "start \<le> rb_drainOffset rb"
        "out = map (Some \<circ> src) [start..rb_drainOffset rb - 1]" by auto
      note t = ring.take_from_log [OF IH(1,2) rs(2)]
      then have "batch = map (Some \<circ> src) [rb_drainOffset rb..rb_drainOffset rb' - 1]" using rs(1) by simp
      then show ?thesis
        using t IH(3,4) upto_append [of start "rb_drainOffset rb" "rb_drainOffset rb' - 1"]
        by (simp flip: map_append)
    qed
  next
    case (run_close out rb)
    then show ?case by (simp add: ring.from_log_def)
  qed
  then show ?thesis by blast
qed


text \<open>A source log for the examples: the record at an offset carries that offset.\<close>

definition log_record :: "int \<Rightarrow> Record" where
  "log_record off = zero_record\<lparr>rec_offset := word_of_int off\<rparr>"

definition ring4 :: OrderedRingBuffer where
  "ring4 = \<lparr>rb_slots = replicate 4 zero_slot, rb_capacity = 4, rb_drainOffset = 10, rb_closed = False\<rparr>"

lemmas ring_eval = ring4_def slot_at_def slotIndex_def go_rem_def fill_slot_def zero_slot_def Put_def Put_slow_def
  DrainBatch_def Close_def Let_def

theorem ring_drains_in_order_witness:
  "\<exists>rb. ring_run log_record ring4 [Some (log_record 10), Some (log_record 11)] rb \<and>
        [Some (log_record 10), Some (log_record 11)] = map (Some \<circ> log_record) [10..rb_drainOffset rb - 1]"
proof -
  have new: "NewOrderedRingBuffer 4 10 = Ret ring4" by (simp add: NewOrderedRingBuffer_def ring4_def)
  let ?a = "fill_slot 11 (log_record 11) ring4"
  let ?b = "fill_slot 10 (log_record 10) ?a"
  obtain rb where rb: "DrainBatch None 8 ?b = Ret (Some ([Some (log_record 10), Some (log_record 11)], True), rb)"
    by (simp add: ring_eval eval_nat_numeral)
  have "ring_run log_record ring4 [] ?a"
    by (rule run_put [where off = 11 and ctxErr = None and res = "Some True", OF run_start]) (simp_all add: ring_eval in_window_def)
  then have "ring_run log_record ring4 [] ?b"
    by (rule run_put [where off = 10 and ctxErr = None and res = "Some True"]) (simp_all add: ring_eval in_window_def)
  then have run: "ring_run log_record ring4 [Some (log_record 10), Some (log_record 11)] rb"
    using run_drain [OF _ rb] by fastforce
  from ring_drains_in_order [OF new _ run] run show ?thesis by auto
qed

text \<open>
  Progress of the drainer: when the record at the drain position is pending and the context
  is alive, \<open>DrainBatch\<close> does not wait; it returns the maximal run of consecutive pending
  records, at most \<open>maxBatch\<close> of them (256 if that is not positive), removes just those from the
  buffer and advances the position past them, also after the buffer was closed.
\<close>

lemma drain_batch_takes_maximal_run:
  assumes "ring_ok rb" and "ring_pending rb (rb_drainOffset rb) \<noteq> None"
    and "m = nat (if maxBatch \<le> 0 then 256 else maxBatch)"
  shows "\<exists>rs rb'. DrainBatch None maxBatch rb = Ret (Some (map Some rs, True), rb') \<and>
     rs \<noteq> [] \<and> length rs \<le> m \<and> rb_drainOffset rb' = rb_drainOffset rb + int (length rs) \<and>
     (\<forall>i < length rs. ring_pending rb (rb_drainOffset rb + int i) = Some (rs ! i)) \<and>
     (length rs < m \<longrightarrow> ring_pending rb (rb_drainOffset rb + int (length rs)) = None) \<and>
     ring_pending rb' = (\<lambda>off. if off < rb_drainOffset rb' then None else ring_pending rb off) \<and>
     ring_ok rb'"
proof -
  have filled: "sl_state (slot_at rb (rb_drainOffset rb)) = slotFilled"
    using assms(2) by (auto simp: ring_pending_def pending_at_def split: if_splits)
  have cap: "0 < rb_capacity rb" using assms(1) ring_ok_atD(1) by (auto simp: ring_ok_def)
  obtain batch rb' where d: "DrainBatch None maxBatch rb = Ret (Some (batch, True), rb')"
    using filled cap
    by (cases "drain_loop m (rb_drainOffset rb) rb") (simp add: DrainBatch_def Let_def flip: assms(3))
  then obtain rs where rs: "batch = map Some rs" "take_batch m rb = (rs, rb')"
    using DrainBatch_cases [OF d assms(1)] assms(3) by auto
  note t = ring.take_law [OF assms(1) rs(2)]
  have "rs \<noteq> []" using t assms(2,3) by (auto split: if_splits)
  then show ?thesis using d rs(1) t by blast
qed

lemma drain_batch_takes_maximal_run_example:
  "\<exists>rs rb'. DrainBatch None 0 (fill_slot 10 (log_record 10) ring4) = Ret (Some (map Some rs, True), rb') \<and> rs \<noteq> []"
proof -
  have "ring_ok ring4" "ring_pending ring4 = Map.empty" "rb_drainOffset ring4 = 10" "rb_capacity ring4 = 4"
    using NewOrderedRingBuffer_ok [of 4 10 ring4] by (simp_all add: NewOrderedRingBuffer_def ring4_def)
  then have "ring_ok (fill_slot 10 (log_record 10) ring4)"
    "ring_pending (fill_slot 10 (log_record 10) ring4) 10 \<noteq> None" "rb_drainOffset (fill_slot 10 (log_record 10) ring4) = 10"
    using ring.put_law [of ring4 10 "log_record 10"] by auto
  then show ?thesis
    using drain_batch_takes_maximal_run [of "fill_slot 10 (log_record 10) ring4" 256 0] by auto
qed

text \<open>
  Outside the window the order is lost. The buffer checks neither in \<open>Put\<close> that an offset is
  within \<open>capacity\<close> of the drain position nor in \<open>DrainBatch\<close> that the record of a slot has the
  expected offset: if a record any multiple of the capacity ahead arrives while nothing is
  pending, it is accepted and drained next, in the place of the missing record, and the drain
  position moves past the offset that was never delivered.
\<close>

lemma out_of_window_put_overtakes:
  assumes "ring_ok rb" and "ring_pending rb = Map.empty" and "0 < k"
    and "off = rb_drainOffset rb + k * rb_capacity rb"
  shows "\<exists>rb' rb''. Put ctxErr off r rb = Ret (Some True, rb') \<and>
     DrainBatch None 1 rb' = Ret (Some ([Some r], True), rb'') \<and>
     rb_drainOffset rb'' = rb_drainOffset rb + 1 \<and> off \<noteq> rb_drainOffset rb"
proof -
  let ?d = "rb_drainOffset rb"
  note c = ring_ok_atD [OF assms(1) [unfolded ring_ok_def]]
  have idx: "slotIndex rb off = slotIndex rb ?d" using c(1) assms(4) by (simp add: slotIndex_eq_iff)
  then have same: "slot_at rb off = slot_at rb ?d" by (simp add: slot_at_def)
  have "sl_state (slot_at rb ?d) = slotEmpty"
    using fun_cong [OF assms(2), of ?d] c(1) c(4,5) [of ?d] by (auto simp: ring_pending_def pending_at_def split: if_splits)
  then have put: "Put ctxErr off r rb = Ret (Some True, fill_slot off r rb)"
    using c(1) same by (simp add: Put_def)
  have "slot_at (fill_slot off r rb) ?d = (slot_at rb off)\<lparr>sl_record := Some r, sl_offset := off, sl_state := slotFilled\<rparr>"
    using c(3) [of ?d] idx by (simp add: slot_at_def fill_slot_def)
  then show ?thesis
    using put c(1) assms(3,4) by (auto simp: DrainBatch_def Let_def fill_slot_def eval_nat_numeral)
qed

lemma out_of_window_put_overtakes_example:
  "\<exists>rb' rb''. Put None 18 (log_record 18) ring4 = Ret (Some True, rb') \<and>
     DrainBatch None 1 rb' = Ret (Some ([Some (log_record 18)], True), rb'') \<and> rb_drainOffset rb'' = 11"
  using out_of_window_put_overtakes [of ring4 2 18 None "log_record 18"] NewOrderedRingBuffer_ok [of 4 10 ring4]
  by (simp add: NewOrderedRingBuffer_def ring4_def)

text \<open>
  A gap in the source offsets (a compacted topic, a transaction marker) ends the drain: while
  the record at the drain position is missing, \<open>DrainBatch\<close> waits on an open buffer, and once
  the buffer is closed it gives up at once, whatever later records are pending: none of them is
  ever drained.
\<close>

lemma gap_ends_drain:
  assumes "ring_ok rb" and "ring_pending rb (rb_drainOffset rb) = None"
  shows "DrainBatch None maxBatch rb = Ret (if rb_closed rb then Some ([], False) else None, rb)"
proof -
  note c = ring_ok_atD [OF assms(1) [unfolded ring_ok_def]]
  have "sl_state (slot_at rb (rb_drainOffset rb)) \<noteq> slotFilled"
    using assms(2) c(1) c(5) [of "rb_drainOffset rb"] by (auto simp: ring_pending_def pending_at_def split: if_splits)
  then show ?thesis using c(1) by (simp add: DrainBatch_def Let_def)
qed

lemma gap_ends_drain_example:
  "DrainBatch None 512 (Close (fill_slot 11 (log_record 11) ring4)) =
     Ret (Some ([], False), Close (fill_slot 11 (log_record 11) ring4))"
proof -
  have "ring_ok ring4" "ring_pending ring4 = Map.empty" "rb_drainOffset ring4 = 10" "rb_capacity ring4 = 4"
    using NewOrderedRingBuffer_ok [of 4 10 ring4] by (simp_all add: NewOrderedRingBuffer_def ring4_def)
  then show ?thesis
    using ring.put_law [of ring4 11 "log_record 11"] gap_ends_drain [of "Close (fill_slot 11 (log_record 11) ring4)" 512]
    by simp
qed

end
