(* ===== verification/Metrics_Registry.thy ===== *)
theory Metrics_Registry
  imports Mirror_Prelude
begin

text \<open>
  \<open>internal/metrics/metrics.go\<close>: the metric vectors of the program, with their names and label
  names. Of the Prometheus client library the theory models what the code relies on:
  registering a name twice panics (\<open>promauto\<close>), and \<open>WithLabelValues\<close> panics when the number of
  values is not the number of label names. Help texts and histogram buckets are left out.
\<close>

section \<open>Definitions\<close>

datatype vec_kind = CounterVec | GaugeVec | HistogramVec

record MetricVec =
  mv_kind :: vec_kind
  mv_name :: string
  mv_labels :: "string list"

record Metrics =
  m_RecordsReplicated :: MetricVec
  m_BytesReplicated :: MetricVec
  m_ReplicationLag :: MetricVec
  m_RecordAge :: MetricVec
  m_HeartbeatLatency :: MetricVec
  m_CheckpointsEmitted :: MetricVec
  m_OffsetSyncsEmitted :: MetricVec
  m_TopicsDiscovered :: MetricVec
  m_GroupsDiscovered :: MetricVec
  m_PollBatchSize :: MetricVec
  m_ProduceErrors :: MetricVec
  m_ConsumeErrors :: MetricVec
  m_DLQRecordsTotal :: MetricVec
  m_RetryAttempts :: MetricVec
  m_RetryExhausted :: MetricVec
  m_CircuitBreakerState :: MetricVec
  m_OffsetCommits :: MetricVec
  m_OffsetCommitErrors :: MetricVec
  m_TxnCommits :: MetricVec
  m_TxnAborts :: MetricVec

definition vec :: "vec_kind \<Rightarrow> string \<Rightarrow> string list \<Rightarrow> MetricVec" where
  "vec k name labels = \<lparr>mv_kind = k, mv_name = ''gomm2_'' @ name, mv_labels = labels\<rparr>"

definition all_metrics :: Metrics where
  "all_metrics = \<lparr>
     m_RecordsReplicated = vec CounterVec ''records_replicated_total'' [''source'', ''target'', ''topic''],
     m_BytesReplicated = vec CounterVec ''bytes_replicated_total'' [''source'', ''target'', ''topic''],
     m_ReplicationLag = vec GaugeVec ''replication_lag_records'' [''source'', ''target'', ''topic'', ''partition''],
     m_RecordAge = vec HistogramVec ''record_age_seconds'' [''source'', ''target'', ''topic''],
     m_HeartbeatLatency = vec HistogramVec ''heartbeat_latency_seconds'' [''source'', ''target''],
     m_CheckpointsEmitted = vec CounterVec ''checkpoints_emitted_total'' [''source'', ''target''],
     m_OffsetSyncsEmitted = vec CounterVec ''offset_syncs_emitted_total'' [''source'', ''target''],
     m_TopicsDiscovered = vec GaugeVec ''topics_discovered'' [''source'', ''target''],
     m_GroupsDiscovered = vec GaugeVec ''groups_discovered'' [''source'', ''target''],
     m_PollBatchSize = vec HistogramVec ''poll_batch_size'' [''source'', ''target''],
     m_ProduceErrors = vec CounterVec ''produce_errors_total'' [''source'', ''target'', ''topic''],
     m_ConsumeErrors = vec CounterVec ''consume_errors_total'' [''source'', ''target''],
     m_DLQRecordsTotal = vec CounterVec ''dlq_records_total'' [''source'', ''target'', ''topic''],
     m_RetryAttempts = vec CounterVec ''retry_attempts_total'' [''source'', ''target'', ''operation''],
     m_RetryExhausted = vec CounterVec ''retry_exhausted_total'' [''source'', ''target'', ''operation''],
     m_CircuitBreakerState = vec GaugeVec ''circuit_breaker_state'' [''source'', ''target'', ''operation''],
     m_OffsetCommits = vec CounterVec ''offset_commits_total'' [''source'', ''target''],
     m_OffsetCommitErrors = vec CounterVec ''offset_commit_errors_total'' [''source'', ''target''],
     m_TxnCommits = vec CounterVec ''txn_commits_total'' [''source'', ''target''],
     m_TxnAborts = vec CounterVec ''txn_aborts_total'' [''source'', ''target'']\<rparr>"

definition vectors :: "Metrics \<Rightarrow> MetricVec list" where
  "vectors m = [m_RecordsReplicated m, m_BytesReplicated m, m_ReplicationLag m, m_RecordAge m,
     m_HeartbeatLatency m, m_CheckpointsEmitted m, m_OffsetSyncsEmitted m, m_TopicsDiscovered m,
     m_GroupsDiscovered m, m_PollBatchSize m, m_ProduceErrors m, m_ConsumeErrors m,
     m_DLQRecordsTotal m, m_RetryAttempts m, m_RetryExhausted m, m_CircuitBreakerState m,
     m_OffsetCommits m, m_OffsetCommitErrors m, m_TxnCommits m, m_TxnAborts m]"

text \<open>\<open>New\<close> registers every vector in the process-wide registry, given by the registered names.\<close>

definition Metrics_New :: "string list \<Rightarrow> (Metrics \<times> string list) outcome" where
  "Metrics_New registered =
     (let names = map mv_name (vectors all_metrics)
      in if \<not> distinct (registered @ names) then Panic ''duplicate metrics collector registration attempted''
         else Ret (all_metrics, registered @ names))"

text \<open>\<open>WithLabelValues\<close>: the child of the vector, named by its label values.\<close>

definition WithLabelValues :: "MetricVec \<Rightarrow> string list \<Rightarrow> (string \<times> string list) outcome" where
  "WithLabelValues v vals =
     (if length vals = length (mv_labels v) then Ret (mv_name v, vals) else Panic ''inconsistent label cardinality'')"

text \<open>The values of the metrics: a number per child; the code adds counts and sets gauges.\<close>

type_synonym metric_values = "string \<times> string list \<Rightarrow> int"

definition add_metric :: "MetricVec \<Rightarrow> string list \<Rightarrow> int \<Rightarrow> metric_values \<Rightarrow> metric_values outcome" where
  "add_metric v vals n mv =
     (case WithLabelValues v vals of
        Ret c \<Rightarrow> Ret (mv(c := mv c + n))
      | Fail e \<Rightarrow> Fail e
      | Panic p \<Rightarrow> Panic p)"

definition set_metric :: "MetricVec \<Rightarrow> string list \<Rightarrow> int \<Rightarrow> metric_values \<Rightarrow> metric_values outcome" where
  "set_metric v vals n mv =
     (case WithLabelValues v vals of
        Ret c \<Rightarrow> Ret (mv(c := n))
      | Fail e \<Rightarrow> Fail e
      | Panic p \<Rightarrow> Panic p)"

section \<open>Lemmas\<close>

lemma WithLabelValues_Ret [simp]:
  "WithLabelValues v vals = Ret c \<longleftrightarrow> length vals = length (mv_labels v) \<and> c = (mv_name v, vals)"
  by (auto simp: WithLabelValues_def)

lemma vector_names:
  "distinct (map mv_name (vectors all_metrics))" "length (vectors all_metrics) = 20" "vectors all_metrics \<noteq> []"
  by (simp_all add: vectors_def all_metrics_def vec_def)

lemma label_counts:
  "length (mv_labels (m_RecordsReplicated all_metrics)) = 3"
  "length (mv_labels (m_BytesReplicated all_metrics)) = 3"
  "length (mv_labels (m_ReplicationLag all_metrics)) = 4"
  "length (mv_labels (m_RecordAge all_metrics)) = 3"
  "length (mv_labels (m_HeartbeatLatency all_metrics)) = 2"
  "length (mv_labels (m_CheckpointsEmitted all_metrics)) = 2"
  "length (mv_labels (m_OffsetSyncsEmitted all_metrics)) = 2"
  "length (mv_labels (m_TopicsDiscovered all_metrics)) = 2"
  "length (mv_labels (m_GroupsDiscovered all_metrics)) = 2"
  "length (mv_labels (m_PollBatchSize all_metrics)) = 2"
  "length (mv_labels (m_ProduceErrors all_metrics)) = 3"
  "length (mv_labels (m_ConsumeErrors all_metrics)) = 2"
  "length (mv_labels (m_DLQRecordsTotal all_metrics)) = 3"
  "length (mv_labels (m_RetryAttempts all_metrics)) = 3"
  "length (mv_labels (m_RetryExhausted all_metrics)) = 3"
  "length (mv_labels (m_CircuitBreakerState all_metrics)) = 3"
  "length (mv_labels (m_OffsetCommits all_metrics)) = 2"
  "length (mv_labels (m_OffsetCommitErrors all_metrics)) = 2"
  "length (mv_labels (m_TxnCommits all_metrics)) = 2"
  "length (mv_labels (m_TxnAborts all_metrics)) = 2"
  by (simp_all add: all_metrics_def vec_def)

text \<open>
  The metrics of a process: on a fresh registry \<open>New\<close> registers all twenty vectors under
  different names and does not panic, and a second call in the same process panics. A vector
  accepts label values exactly when there is one for each of its labels: two for the counters of
  a flow, three with a topic or an operation, four only for the replication lag. So the calls that
  the code makes on \<open>records_replicated_total\<close> and \<open>bytes_replicated_total\<close>, with source,
  target, topic and partition, panic.
\<close>

lemma metric_labels:
  "\<exists>reg. Metrics_New [] = Ret (all_metrics, reg) \<and> length reg = 20 \<and> distinct reg \<and>
     (\<exists>p. Metrics_New reg = Panic p) \<and>
     (\<forall>v \<in> {m_CheckpointsEmitted all_metrics, m_HeartbeatLatency all_metrics, m_TopicsDiscovered all_metrics,
            m_PollBatchSize all_metrics, m_ConsumeErrors all_metrics, m_OffsetCommits all_metrics,
            m_OffsetCommitErrors all_metrics}.
        WithLabelValues v [s, t] = Ret (mv_name v, [s, t])) \<and>
     (\<forall>v \<in> {m_ProduceErrors all_metrics, m_DLQRecordsTotal all_metrics, m_RetryAttempts all_metrics,
            m_RetryExhausted all_metrics}.
        WithLabelValues v [s, t, x] = Ret (mv_name v, [s, t, x])) \<and>
     (\<forall>v \<in> {m_RecordsReplicated all_metrics, m_BytesReplicated all_metrics}.
        WithLabelValues v [s, t, topic, part] = Panic ''inconsistent label cardinality'')"
proof (intro exI conjI)
  let ?reg = "map mv_name (vectors all_metrics)"
  show "Metrics_New [] = Ret (all_metrics, ?reg)" using vector_names by (simp add: Metrics_New_def)
  show "length ?reg = 20" "distinct ?reg" using vector_names by simp_all
  show "Metrics_New ?reg = Panic ''duplicate metrics collector registration attempted''"
    using vector_names by (simp add: Metrics_New_def)
qed (simp_all add: WithLabelValues_def label_counts)

lemma metric_labels_example:
  "WithLabelValues (m_RecordsReplicated all_metrics) [''east'', ''west'', ''east.orders'', ''0'']
     = Panic ''inconsistent label cardinality'' \<and>
   WithLabelValues (m_OffsetCommits all_metrics) [''east'', ''west''] = Ret (''gomm2_offset_commits_total'', [''east'', ''west''])"
  using metric_labels [of "''east''" "''west''" "''produce''" "''east.orders''" "''0''"]
  by (auto simp: all_metrics_def vec_def)

end
