(* ===== verification/Dead_Letter.thy ===== *)
theory Dead_Letter
  imports Client_Builder Metrics_Registry Kafka_Types
begin

text \<open>
  \<open>internal/mirror/dlq.go\<close>: the dead letter queue. Sending is asynchronous: \<open>DLQ_Send\<close> gives the
  record handed to the producer, if any, and \<open>DLQ_callback\<close> is what runs when the producer
  reports the result.
\<close>

section \<open>Definitions\<close>

record DLQ =
  dlq_topic :: string
  dlq_source :: string
  dlq_target :: string
  dlq_closed :: bool

text \<open>\<open>newClient\<close> is \<open>kgo.NewClient\<close>: an error, or a client.\<close>

definition NewDLQ :: "build_env \<Rightarrow> (kgo_opt list \<Rightarrow> go_error option) \<Rightarrow> ReplicationConfig \<Rightarrow> ClusterConfig
    \<Rightarrow> go_error + DLQ option" where
  "NewDLQ env newClient cfg tgtCfg =
     (if \<not> r_DLQEnabled cfg then Inr None
      else let topic = ''gomm2-dlq-'' @ r_Source cfg @ ''-'' @ r_Target cfg
           in case BuildClientOpts env tgtCfg of
                Inl err \<Rightarrow> Inl (Wrapf ''DLQ build client opts: %w'' [] err)
              | Inr opts \<Rightarrow>
                  (case newClient (opts @ [RequiredAcks_AllISR, ProducerLinger (100 * Millisecond)]) of
                     Some err \<Rightarrow> Inl (Wrapf ''create DLQ producer: %w'' [] err)
                   | None \<Rightarrow> Inr (Some \<lparr>dlq_topic = topic, dlq_source = r_Source cfg, dlq_target = r_Target cfg,
                                       dlq_closed = False\<rparr>)))"

definition dlq_headers :: "string \<Rightarrow> int32 \<Rightarrow> int64 \<Rightarrow> RecordHeader list \<Rightarrow> go_error \<Rightarrow> RecordHeader list" where
  "dlq_headers originalTopic part offset originalHeaders produceErr =
     [\<lparr>rh_key = ''gomm2.dlq.original.topic'', rh_value = bytes_of_string originalTopic\<rparr>,
      \<lparr>rh_key = ''gomm2.dlq.original.partition'', rh_value = bytes_of_string (itoa (sint part))\<rparr>,
      \<lparr>rh_key = ''gomm2.dlq.original.offset'', rh_value = bytes_of_string (itoa (sint offset))\<rparr>,
      \<lparr>rh_key = ''gomm2.dlq.error'', rh_value = bytes_of_string (err_text produceErr)\<rparr>] @ originalHeaders"

definition DLQ_Send :: "DLQ \<Rightarrow> string \<Rightarrow> int32 \<Rightarrow> int64 \<Rightarrow> byte list \<Rightarrow> byte list \<Rightarrow> RecordHeader list \<Rightarrow> go_error
    \<Rightarrow> Record option" where
  "DLQ_Send d originalTopic part offset key value originalHeaders produceErr =
     (if dlq_closed d then None
      else Some (zero_record\<lparr>rec_topic := dlq_topic d, rec_key := key, rec_value := value,
        rec_headers := dlq_headers originalTopic part offset originalHeaders produceErr\<rparr>))"

definition DLQ_callback :: "DLQ \<Rightarrow> Metrics \<Rightarrow> string \<Rightarrow> go_error option \<Rightarrow> metric_values \<Rightarrow> metric_values outcome" where
  "DLQ_callback d m originalTopic err mv =
     (case err of
        Some _ \<Rightarrow> Ret mv
      | None \<Rightarrow> add_metric (m_DLQRecordsTotal m) [dlq_source d, dlq_target d, originalTopic] 1 mv)"

definition DLQ_Topic :: "DLQ \<Rightarrow> string" where
  "DLQ_Topic d = dlq_topic d"

definition DLQ_Close :: "DLQ \<Rightarrow> DLQ" where
  "DLQ_Close d = (if dlq_closed d then d else d\<lparr>dlq_closed := True\<rparr>)"

section \<open>Lemmas\<close>

lemma sint_inj32: "sint (a :: int32) = sint b \<longleftrightarrow> a = b"
  by (auto intro: signed_word_eqI)

lemma dlq_headers_inj:
  "dlq_headers t p off hs e = dlq_headers t' p' off' hs' e' \<longleftrightarrow>
     t = t' \<and> p = p' \<and> off = off' \<and> hs = hs' \<and> err_text e = err_text e'"
  by (auto simp: dlq_headers_def sint_inj32 sint_inj64)

text \<open>
  Tracing a dead letter: while the queue is open each failed record becomes one record of
  the queue's topic with the same key, the same value and the original headers kept at the end;
  two sends give the same queue record only if they came from the same topic, partition, offset,
  key, value and headers with the same error text, so the origin can be read back. After
  \<open>Close\<close> nothing is sent.
\<close>

lemma dlq_send_traces_origin:
  "(\<not> dlq_closed d \<longrightarrow>
     (\<exists>r. DLQ_Send d t p off k v hs e = Some r \<and> rec_topic r = dlq_topic d \<and> rec_key r = k \<and> rec_value r = v \<and>
          drop 4 (rec_headers r) = hs \<and> length (rec_headers r) = 4 + length hs) \<and>
     (DLQ_Send d t p off k v hs e = DLQ_Send d t' p' off' k' v' hs' e' \<longrightarrow>
        t = t' \<and> p = p' \<and> off = off' \<and> k = k' \<and> v = v' \<and> hs = hs' \<and> err_text e = err_text e')) \<and>
   DLQ_Send (DLQ_Close d) t p off k v hs e = None \<and> DLQ_Close (DLQ_Close d) = DLQ_Close d"
  by (auto simp: DLQ_Send_def DLQ_Close_def dlq_headers_inj zero_record_def) (auto simp: dlq_headers_def)

lemma dlq_send_traces_origin_example:
  "\<exists>r. DLQ_Send \<lparr>dlq_topic = ''gomm2-dlq-a-b'', dlq_source = ''a'', dlq_target = ''b'', dlq_closed = False\<rparr>
         ''orders'' 3 42 [1] [2] [] (Errorf ''timeout'' []) = Some r \<and> length (rec_headers r) = 4"
  using dlq_send_traces_origin [of "\<lparr>dlq_topic = ''gomm2-dlq-a-b'', dlq_source = ''a'', dlq_target = ''b'', dlq_closed = False\<rparr>"
      "''orders''" 3 42 "[1]" "[2]" "[]" "Errorf ''timeout'' []"
      "''orders''" 3 42 "[1]" "[2]" "[]" "Errorf ''timeout'' []"]
  by auto

end
