(* ===== verification/Retry_Breaker.thy ===== *)
theory Retry_Breaker
  imports Mirror_Prelude
begin

text \<open>
  \<open>internal/mirror/retry.go\<close>: retries with exponential backoff and jitter, and the circuit
  breaker. Durations and times are integers (nanoseconds). The context, the random generator
  and the float-to-integer conversion outside the range of \<open>int64\<close> are parameters.
\<close>

section \<open>Retry\<close>

record RetryConfig =
  rc_MaxRetries :: int
  rc_BackoffBase :: int
  rc_BackoffMax :: int

definition DefaultRetryConfig :: RetryConfig where
  "DefaultRetryConfig = \<lparr>rc_MaxRetries = 10, rc_BackoffBase = 100 * 1000000, rc_BackoffMax = 30 * 1000000000\<rparr>"

text \<open>
  \<open>float64(n)\<close>: the nearest number with a 53-bit significand, ties to even. Integers below
  \<open>2^53\<close> are exact.
\<close>

fun sig_exp :: "nat \<Rightarrow> nat" where
  "sig_exp n = (if n < 2 ^ 53 then 0 else Suc (sig_exp (n div 2)))"

declare sig_exp.simps [simp del]

definition float64_nat :: "nat \<Rightarrow> nat" where
  "float64_nat n =
     (let e = sig_exp n; q = n div 2 ^ e; r = n mod 2 ^ e
      in (if 2 * r > 2 ^ e \<or> 2 * r = 2 ^ e \<and> odd q then q + 1 else q) * 2 ^ e)"

definition float64_int :: "int \<Rightarrow> int" where
  "float64_int i = sgn i * int (float64_nat (nat \<bar>i\<bar>))"

text \<open>
  \<open>time.Duration(float64(base) * math.Pow(2, float64(attempt)))\<close>. A product with a power of two
  is exact unless it overflows to infinity; a float outside the range of \<open>int64\<close> (or not a
  number) converts to an implementation-dependent value: the parameter \<open>oob\<close>.
\<close>

definition raw_backoff :: "(int \<Rightarrow> int) \<Rightarrow> nat \<Rightarrow> int \<Rightarrow> int" where
  "raw_backoff oob attempt base =
     (let v = float64_int base * 2 ^ attempt
      in if attempt < 1024 \<and> - (2 ^ 63) \<le> v \<and> v < 2 ^ 63 then v else oob v)"

text \<open>\<open>rnd n\<close> is what \<open>rand.Int63n(n)\<close> returns; it panics when \<open>n \<le> 0\<close>, which \<open>backoff + 1\<close> is for
  a negative maximum or after wrapping.\<close>

definition computeBackoff :: "(int \<Rightarrow> int) \<Rightarrow> (int \<Rightarrow> int) \<Rightarrow> nat \<Rightarrow> int \<Rightarrow> int \<Rightarrow> int outcome" where
  "computeBackoff oob rnd attempt base maxBackoff =
     (let backoff = raw_backoff oob attempt base;
          backoff = (if backoff > maxBackoff \<or> backoff \<le> 0 then maxBackoff else backoff);
          n = (if backoff = 2 ^ 63 - 1 then - (2 ^ 63) else backoff + 1)
      in if n \<le> 0 then Panic ''invalid argument to Int63n'' else Ret (rnd n))"

text \<open>
  \<open>Retry\<close>. The function \<open>fn\<close> is called with the attempt number and the state it changes.
  \<open>ctxErr k\<close> is \<open>ctx.Err()\<close> at the head of iteration \<open>k\<close>, \<open>backoff k\<close> the computed backoff and
  \<open>ctxDone k\<close> whether the context ends before that timer fires.
\<close>

function retry_loop :: "RetryConfig \<Rightarrow> (nat \<Rightarrow> go_error option) \<Rightarrow> (nat \<Rightarrow> bool) \<Rightarrow> (nat \<Rightarrow> int outcome)
    \<Rightarrow> (nat \<Rightarrow> 's \<Rightarrow> go_error option \<times> 's) \<Rightarrow> nat \<Rightarrow> go_error option \<Rightarrow> 's \<Rightarrow> go_error option outcome \<times> 's" where
  "retry_loop cfg ctxErr ctxDone backoff fn attempt lastErr s =
     (if int attempt \<le> rc_MaxRetries cfg then
        (case ctxErr attempt of
           Some err \<Rightarrow>
             (Ret (Some (case lastErr of
                Some l \<Rightarrow> Wrapf ''context cancelled after %d attempts: %w (last: %v)'' [itoa (int attempt), err_text l] err
              | None \<Rightarrow> Wrapf ''context cancelled: %w'' [] err)), s)
         | None \<Rightarrow>
             (case fn attempt s of
                (None, s') \<Rightarrow> (Ret None, s')
              | (Some e, s') \<Rightarrow>
                  if int attempt = rc_MaxRetries cfg
                  then (Ret (Some (Wrapf ''exhausted %d retries: %w'' [itoa (rc_MaxRetries cfg)] e)), s')
                  else (case backoff attempt of
                      Panic m \<Rightarrow> (Panic m, s')
                    | _ \<Rightarrow>
                        if ctxDone attempt
                        then (Ret (Some (Wrapf ''context cancelled during backoff (attempt %d/%d): %w''
                                [itoa (int attempt + 1), itoa (rc_MaxRetries cfg)] e)), s')
                        else retry_loop cfg ctxErr ctxDone backoff fn (attempt + 1) (Some e) s')))
      else (Ret (Some (case lastErr of
                Some l \<Rightarrow> Wrapf ''exhausted %d retries: %w'' [itoa (rc_MaxRetries cfg)] l
              | None \<Rightarrow> Errorf ''exhausted %d retries: %!w(<nil>)'' [itoa (rc_MaxRetries cfg)])), s))"
  by pat_completeness auto
termination
  by (relation "measure (\<lambda>(cfg, _, _, _, _, attempt, _, _). nat (rc_MaxRetries cfg + 1 - int attempt))") auto

declare retry_loop.simps [simp del]

definition Retry :: "RetryConfig \<Rightarrow> (nat \<Rightarrow> go_error option) \<Rightarrow> (nat \<Rightarrow> bool) \<Rightarrow> (nat \<Rightarrow> int outcome)
    \<Rightarrow> (nat \<Rightarrow> 's \<Rightarrow> go_error option \<times> 's) \<Rightarrow> 's \<Rightarrow> go_error option outcome \<times> 's" where
  "Retry cfg ctxErr ctxDone backoff fn s = retry_loop cfg ctxErr ctxDone backoff fn 0 None s"

section \<open>Circuit breaker\<close>

datatype CircuitState = CircuitClosed | CircuitHalfOpen | CircuitOpen

fun CircuitState_String :: "CircuitState \<Rightarrow> string" where
  "CircuitState_String CircuitClosed = ''closed''"
| "CircuitState_String CircuitHalfOpen = ''half-open''"
| "CircuitState_String CircuitOpen = ''open''"

record CircuitBreakerConfig =
  cbc_FailureThreshold :: int
  cbc_ResetTimeout :: int
  cbc_HalfOpenMaxProbes :: int

definition DefaultCircuitBreakerConfig :: CircuitBreakerConfig where
  "DefaultCircuitBreakerConfig =
     \<lparr>cbc_FailureThreshold = 5, cbc_ResetTimeout = 30 * 1000000000, cbc_HalfOpenMaxProbes = 3\<rparr>"

record CircuitBreaker =
  cb_state :: CircuitState
  cb_failures :: int
  cb_successes :: int
  cb_lastFailureTime :: int
  cb_cfg :: CircuitBreakerConfig

text \<open>The zero \<open>time.Time\<close> is the first of January of the year 1.\<close>

definition zero_time :: int where
  "zero_time = - 62135596800 * 1000000000"

definition NewCircuitBreaker :: "CircuitBreakerConfig \<Rightarrow> CircuitBreaker" where
  "NewCircuitBreaker cfg = \<lparr>cb_state = CircuitClosed, cb_failures = 0, cb_successes = 0,
     cb_lastFailureTime = zero_time, cb_cfg = cfg\<rparr>"

definition checkStateTransition :: "int \<Rightarrow> CircuitBreaker \<Rightarrow> CircuitBreaker" where
  "checkStateTransition now cb =
     (if cb_state cb = CircuitOpen \<and> now - cb_lastFailureTime cb \<ge> cbc_ResetTimeout (cb_cfg cb)
      then cb\<lparr>cb_state := CircuitHalfOpen, cb_successes := 0\<rparr> else cb)"

definition State :: "int \<Rightarrow> CircuitBreaker \<Rightarrow> CircuitState \<times> CircuitBreaker" where
  "State now cb = (let cb = checkStateTransition now cb in (cb_state cb, cb))"

definition Allow :: "int \<Rightarrow> CircuitBreaker \<Rightarrow> bool \<times> CircuitBreaker" where
  "Allow now cb =
     (let cb = checkStateTransition now cb
      in (case cb_state cb of CircuitClosed \<Rightarrow> True | CircuitHalfOpen \<Rightarrow> True | CircuitOpen \<Rightarrow> False, cb))"

definition RecordSuccess :: "CircuitBreaker \<Rightarrow> CircuitBreaker" where
  "RecordSuccess cb =
     (case cb_state cb of
        CircuitClosed \<Rightarrow> cb\<lparr>cb_failures := 0\<rparr>
      | CircuitHalfOpen \<Rightarrow>
          (let cb = cb\<lparr>cb_successes := cb_successes cb + 1\<rparr>
           in if cb_successes cb \<ge> cbc_HalfOpenMaxProbes (cb_cfg cb)
              then cb\<lparr>cb_state := CircuitClosed, cb_failures := 0, cb_successes := 0\<rparr> else cb)
      | CircuitOpen \<Rightarrow> cb)"

definition RecordFailure :: "int \<Rightarrow> CircuitBreaker \<Rightarrow> CircuitBreaker" where
  "RecordFailure now cb =
     (let cb = cb\<lparr>cb_lastFailureTime := now, cb_failures := cb_failures cb + 1\<rparr>
      in case cb_state cb of
        CircuitClosed \<Rightarrow>
          if cb_failures cb \<ge> cbc_FailureThreshold (cb_cfg cb) then cb\<lparr>cb_state := CircuitOpen\<rparr> else cb
      | CircuitHalfOpen \<Rightarrow> cb\<lparr>cb_state := CircuitOpen, cb_successes := 0\<rparr>
      | CircuitOpen \<Rightarrow> cb)"

definition Reset :: "CircuitBreaker \<Rightarrow> CircuitBreaker" where
  "Reset cb = cb\<lparr>cb_state := CircuitClosed, cb_failures := 0, cb_successes := 0\<rparr>"

definition ErrCircuitOpen :: go_error where
  "ErrCircuitOpen = Errorf ''circuit breaker is open'' []"

text \<open>
  \<open>RetryWithCircuitBreaker\<close>: \<open>now0\<close> is the time of the first \<open>Allow\<close>, \<open>now k\<close> the time of the
  check before attempt \<open>k\<close>, \<open>now1\<close> the time of the final bookkeeping. A panic inside \<open>Retry\<close>
  leaves the breaker as the checks left it.
\<close>

definition guarded :: "(nat \<Rightarrow> int) \<Rightarrow> (nat \<Rightarrow> 's \<Rightarrow> go_error option \<times> 's)
    \<Rightarrow> nat \<Rightarrow> CircuitBreaker \<times> 's \<Rightarrow> go_error option \<times> CircuitBreaker \<times> 's" where
  "guarded now fn k st =
     (let (ok, cb) = Allow (now k) (fst st)
      in if \<not> ok then (Some ErrCircuitOpen, cb, snd st)
         else let (err, s) = fn k (snd st) in (err, cb, s))"

definition RetryWithCircuitBreaker :: "RetryConfig \<Rightarrow> (nat \<Rightarrow> go_error option) \<Rightarrow> (nat \<Rightarrow> bool) \<Rightarrow> (nat \<Rightarrow> int outcome)
    \<Rightarrow> int \<Rightarrow> (nat \<Rightarrow> int) \<Rightarrow> int \<Rightarrow> (nat \<Rightarrow> 's \<Rightarrow> go_error option \<times> 's)
    \<Rightarrow> CircuitBreaker \<times> 's \<Rightarrow> go_error option outcome \<times> CircuitBreaker \<times> 's" where
  "RetryWithCircuitBreaker cfg ctxErr ctxDone backoff now0 now now1 fn st =
     (let (ok, cb) = Allow now0 (fst st)
      in if \<not> ok then (Ret (Some ErrCircuitOpen), cb, snd st)
         else (case Retry cfg ctxErr ctxDone backoff (guarded now fn) (cb, snd st) of
            (Ret (Some err), cb', s) \<Rightarrow> (Ret (Some err), RecordFailure now1 cb', s)
          | (Ret None, cb', s) \<Rightarrow> (Ret None, RecordSuccess cb', s)
          | (res, cb', s) \<Rightarrow> (res, cb', s)))"


section \<open>Lemmas: backoff\<close>

lemma float64_nat_small: "n < 2 ^ 53 \<Longrightarrow> float64_nat n = n"
  by (simp add: float64_nat_def sig_exp.simps [of n])

lemma float64_int_small: "0 \<le> i \<Longrightarrow> i < 2 ^ 53 \<Longrightarrow> float64_int i = i"
proof -
  assume a: "0 \<le> i" "i < 2 ^ 53"
  then have "nat \<bar>i\<bar> < 2 ^ 53" by (simp add: nat_less_iff)
  with a show ?thesis by (cases "i = 0") (simp_all add: float64_int_def float64_nat_small)
qed

text \<open>The cap: what the code passes to the random generator, minus one.\<close>

definition capped_backoff :: "(int \<Rightarrow> int) \<Rightarrow> nat \<Rightarrow> int \<Rightarrow> int \<Rightarrow> int" where
  "capped_backoff oob attempt base maxBackoff =
     (let b = raw_backoff oob attempt base in if b > maxBackoff \<or> b \<le> 0 then maxBackoff else b)"

lemma computeBackoff_capped:
  "0 \<le> m \<Longrightarrow> m < 2 ^ 63 - 1 \<Longrightarrow>
   computeBackoff oob rnd attempt base m = Ret (rnd (capped_backoff oob attempt base m + 1))"
  by (auto simp: computeBackoff_def capped_backoff_def Let_def)

lemma capped_backoff_bounds:
  assumes "0 \<le> m" "m < 2 ^ 63 - 1"
  shows "0 \<le> capped_backoff oob attempt base m" "capped_backoff oob attempt base m \<le> m"
  using assms by (auto simp: capped_backoff_def Let_def)

lemma capped_backoff_exponential:
  assumes "0 \<le> m" "m < 2 ^ 63 - 1" "0 < base" "base < 2 ^ 53"
  shows "capped_backoff oob attempt base m \<le> base * 2 ^ attempt"
proof (cases "attempt < 1024 \<and> base * 2 ^ attempt < 2 ^ 63")
  case True
  have pos: "0 < base * 2 ^ attempt" using assms by simp
  have "- (2 ^ 63) \<le> (0 :: int)" by simp
  also have "\<dots> \<le> base * 2 ^ attempt" using pos by (rule less_imp_le)
  finally have "- (2 ^ 63) \<le> base * 2 ^ attempt" .
  with pos have "raw_backoff oob attempt base = base * 2 ^ attempt" "0 < base * 2 ^ attempt"
    using True assms by (simp_all add: raw_backoff_def float64_int_small Let_def)
  then show ?thesis by (auto simp: capped_backoff_def Let_def)
next
  case False
  have "(2::int) ^ 63 \<le> base * 2 ^ attempt"
  proof (cases "attempt < 1024")
    case False
    have "(2::int) ^ 63 \<le> 2 ^ attempt" using False by (intro power_increasing) auto
    also have "\<dots> \<le> base * 2 ^ attempt" using assms by simp
    finally show ?thesis .
  qed (use False in auto)
  moreover have "capped_backoff oob attempt base m \<le> m" using capped_backoff_bounds assms by blast
  ultimately show ?thesis using assms by linarith
qed

text \<open>
  C24. The backoff before a retry: for every attempt number, however large, the computed
  duration is between zero and the configured maximum, never more than \<open>base * 2^attempt\<close>
  (for a base below \<open>2^53\<close> ns, about 104 days), and the random generator is never called with
  an argument it panics on. Overflow of the float product, whatever the platform converts it
  to, is absorbed by the cap. \<open>rnd\<close> is any function with the documented range of
  \<open>rand.Int63n\<close>.
\<close>

theorem backoff_within_bounds:
  assumes "0 \<le> maxBackoff" and "maxBackoff < 2 ^ 63 - 1" and "0 < base" and "base < 2 ^ 53"
    and Int63n_range: "\<And>n. 0 < n \<Longrightarrow> 0 \<le> rnd n \<and> rnd n < n"
  shows "\<exists>d. computeBackoff oob rnd attempt base maxBackoff = Ret d \<and>
             0 \<le> d \<and> d \<le> maxBackoff \<and> d \<le> base * 2 ^ attempt"
proof -
  let ?c = "capped_backoff oob attempt base maxBackoff"
  have "0 \<le> rnd (?c + 1) \<and> rnd (?c + 1) < ?c + 1"
    using Int63n_range [of "?c + 1"] capped_backoff_bounds assms by force
  moreover have "?c \<le> maxBackoff" "?c \<le> base * 2 ^ attempt"
    using capped_backoff_bounds capped_backoff_exponential assms by auto
  ultimately show ?thesis
    unfolding computeBackoff_capped [OF assms(1,2)] by force
qed

theorem backoff_within_bounds_witness:
  "\<exists>d. computeBackoff (\<lambda>_. - (2 ^ 63)) (\<lambda>n. n - 1) 70 100000000 30000000000 = Ret d \<and>
       0 \<le> d \<and> d \<le> 30000000000 \<and> d \<le> 100000000 * 2 ^ 70"
  by (rule backoff_within_bounds) auto

section \<open>Lemmas: retry\<close>

text \<open>The state after the first \<open>k\<close> calls of \<open>fn\<close>.\<close>

fun after_calls :: "(nat \<Rightarrow> 's \<Rightarrow> go_error option \<times> 's) \<Rightarrow> nat \<Rightarrow> 's \<Rightarrow> 's" where
  "after_calls fn 0 s = s"
| "after_calls fn (Suc k) s = snd (fn k (after_calls fn k s))"

declare after_calls.simps(2) [simp del]

lemmas after_Suc = after_calls.simps(2)

definition fails :: "(nat \<Rightarrow> 's \<Rightarrow> go_error option \<times> 's) \<Rightarrow> 's \<Rightarrow> nat \<Rightarrow> bool" where
  "fails fn s k \<longleftrightarrow> fst (fn k (after_calls fn k s)) \<noteq> None"

lemma fails_iff: "fails fn s k \<longleftrightarrow> (\<exists>e. fn k (after_calls fn k s) = (Some e, after_calls fn (Suc k) s))"
  by (cases "fn k (after_calls fn k s)") (auto simp: fails_def after_Suc)

lemma not_fails_iff: "\<not> fails fn s k \<longleftrightarrow> fn k (after_calls fn k s) = (None, after_calls fn (Suc k) s)"
  by (cases "fn k (after_calls fn k s)") (auto simp: fails_def after_Suc)

text \<open>Attempt \<open>k\<close> is not stopped by the context or by a panicking backoff before it.\<close>

definition undisturbed :: "(nat \<Rightarrow> go_error option) \<Rightarrow> (nat \<Rightarrow> bool) \<Rightarrow> (nat \<Rightarrow> int outcome) \<Rightarrow> nat \<Rightarrow> bool" where
  "undisturbed ctxErr ctxDone backoff k \<longleftrightarrow>
     (\<forall>j\<le>k. ctxErr j = None) \<and> (\<forall>j<k. \<not> ctxDone j \<and> (\<forall>m. backoff j \<noteq> Panic m))"

lemma undisturbed_mono: "undisturbed c d b k \<Longrightarrow> j \<le> k \<Longrightarrow> undisturbed c d b j"
  by (auto simp: undisturbed_def)

lemma retry_loop_fail_step:
  assumes "int k < rc_MaxRetries cfg" "undisturbed c d b (Suc k)" "fn k s = (Some e, s')"
  shows "retry_loop cfg c d b fn k l s = retry_loop cfg c d b fn (Suc k) (Some e) s'"
  using assms by (subst retry_loop.simps) (auto simp: undisturbed_def split: outcome.splits)

lemma retry_loop_reaches:
  assumes "int k \<le> rc_MaxRetries cfg" "undisturbed c d b k" "\<forall>j<k. fails fn s j"
  shows "\<exists>l. Retry cfg c d b fn s = retry_loop cfg c d b fn k l (after_calls fn k s)"
  using assms
proof (induction k)
  case 0
  then show ?case by (auto simp: Retry_def)
next
  case (Suc k)
  then obtain l where l: "Retry cfg c d b fn s = retry_loop cfg c d b fn k l (after_calls fn k s)"
    using undisturbed_mono [of c d b "Suc k" k] by fastforce
  obtain e where "fn k (after_calls fn k s) = (Some e, after_calls fn (Suc k) s)"
    using Suc.prems(3) fails_iff [THEN iffD1, of fn s k] by auto
  then show ?case
    using l Suc.prems retry_loop_fail_step [of k cfg c d b fn] by auto
qed

lemma retry_loop_ok:
  "int k \<le> rc_MaxRetries cfg \<Longrightarrow> c k = None \<Longrightarrow> fn k s = (None, s') \<Longrightarrow>
   retry_loop cfg c d b fn k l s = (Ret None, s')"
  by (subst retry_loop.simps) simp

lemma retry_loop_last:
  "int k = rc_MaxRetries cfg \<Longrightarrow> c k = None \<Longrightarrow> fn k s = (Some e, s') \<Longrightarrow>
   retry_loop cfg c d b fn k l s =
     (Ret (Some (Wrapf ''exhausted %d retries: %w'' [itoa (rc_MaxRetries cfg)] e)), s')"
  by (subst retry_loop.simps) simp

lemma retry_loop_nil:
  assumes "retry_loop cfg c d b fn k l (after_calls fn k s) = (Ret None, s')" "\<forall>j<k. fails fn s j"
  shows "\<exists>n. int n \<le> rc_MaxRetries cfg \<and> (\<forall>j<n. fails fn s j) \<and> \<not> fails fn s n \<and>
             s' = after_calls fn (Suc n) s"
  using assms
proof (induction "nat (rc_MaxRetries cfg + 1 - int k)" arbitrary: k l)
  case 0
  then show ?case by (subst (asm) retry_loop.simps) (auto split: if_splits)
next
  case (Suc m)
  from Suc.hyps(2) have le: "int k \<le> rc_MaxRetries cfg" by linarith
  obtain r s1 where r: "fn k (after_calls fn k s) = (r, s1)" by fastforce
  have s1: "after_calls fn (Suc k) s = s1" using r by (simp add: after_Suc)
  show ?case
  proof (cases r)
    case None
    then show ?thesis
      using Suc.prems le r s1
      by (subst (asm) retry_loop.simps) (auto simp: fails_def split: option.splits)
  next
    case (Some e)
    with Suc.prems(1) le r have "retry_loop cfg c d b fn (Suc k) (Some e) s1 = (Ret None, s')"
      by (subst (asm) retry_loop.simps) (auto split: option.splits outcome.splits if_splits)
    moreover have "\<forall>j<Suc k. fails fn s j"
      using Suc.prems(2) r Some by (auto simp: fails_def less_Suc_eq)
    ultimately show ?thesis using Suc.hyps(1) [of "Suc k"] Suc.hyps(2) s1 by auto
  qed
qed

text \<open>Whatever \<open>Retry\<close> returns, the state it leaves comes from some number of calls, of which only
  the last can have succeeded.\<close>

lemma retry_loop_states:
  assumes "retry_loop cfg c d b fn k l (after_calls fn k s) = (res, s')" "\<forall>j<k. fails fn s j"
  shows "\<exists>n. s' = after_calls fn n s \<and>
    (if res = Ret None then 0 < n \<and> (\<forall>j<n - 1. fails fn s j) \<and> \<not> fails fn s (n - 1) else \<forall>j<n. fails fn s j)"
  using assms
proof (induction "nat (rc_MaxRetries cfg + 1 - int k)" arbitrary: k l)
  case 0
  then show ?case by (subst (asm) retry_loop.simps) (auto split: if_splits)
next
  case (Suc m)
  from Suc.hyps(2) have le: "int k \<le> rc_MaxRetries cfg" by linarith
  obtain r s1 where r: "fn k (after_calls fn k s) = (r, s1)" by fastforce
  have s1: "after_calls fn (Suc k) s = s1" using r by (simp add: after_Suc)
  show ?case
  proof (cases "c k")
    case (Some err)
    then have "s' = after_calls fn k s \<and> res \<noteq> Ret None"
      using Suc.prems(1) le by (subst (asm) retry_loop.simps) auto
    then show ?thesis using Suc.prems(2) by (intro exI [of _ k]) simp
  next
    case None
    show ?thesis
    proof (cases r)
      case None
      then have "s' = after_calls fn (Suc k) s \<and> res = Ret None \<and> \<not> fails fn s k"
        using Suc.prems(1) le r s1 \<open>c k = None\<close> by (subst (asm) retry_loop.simps) (auto simp: fails_def)
      then show ?thesis using Suc.prems(2) by (intro exI [of _ "Suc k"]) simp
    next
      case (Some e)
      have fails: "\<forall>j<Suc k. fails fn s j" using Suc.prems(2) r Some by (auto simp: fails_def less_Suc_eq)
      have "s' = s1 \<and> res \<noteq> Ret None \<or> retry_loop cfg c d b fn (Suc k) (Some e) s1 = (res, s')"
        using Suc.prems(1) le r Some \<open>c k = None\<close>
        by (subst (asm) retry_loop.simps) (auto split: outcome.splits if_splits)
      then show ?thesis
      proof
        assume "s' = s1 \<and> res \<noteq> Ret None"
        then show ?thesis using fails s1 by (intro exI [of _ "Suc k"]) simp
      next
        assume "retry_loop cfg c d b fn (Suc k) (Some e) s1 = (res, s')"
        then show ?thesis using Suc.hyps(1) [of "Suc k" "Some e"] Suc.hyps(2) fails s1 by auto
      qed
    qed
  qed
qed

text \<open>The result of a retry depends on the results of the attempts, not on the state they thread.\<close>

lemma retry_loop_result_only:
  assumes "\<And>k s t. fst (fn k s) = fst (gn k t)"
  shows "fst (retry_loop cfg c d b fn k l s) = fst (retry_loop cfg c d b gn k l t)"
proof (induction "nat (rc_MaxRetries cfg + 1 - int k)" arbitrary: k l s t)
  case 0
  then show ?case by (subst (1 2) retry_loop.simps) simp
next
  case (Suc n)
  have n: "n = nat (rc_MaxRetries cfg + 1 - int (k + 1))" using Suc(2) by linarith
  show ?case
    using assms [of k s t] Suc(1) [OF n]
    by (subst (1 2) retry_loop.simps) (auto split: option.splits prod.splits outcome.splits)
qed

lemma retry_result_only:
  assumes "\<And>k s t. fst (fn k s) = fst (gn k t)"
  shows "fst (Retry cfg c d b fn s) = fst (Retry cfg c d b gn t)"
  unfolding Retry_def using assms by (rule retry_loop_result_only)

lemma retry_states:
  "Retry cfg c d b fn s = (res, s') \<Longrightarrow> \<exists>n. s' = after_calls fn n s \<and>
    (if res = Ret None then 0 < n \<and> (\<forall>j<n - 1. fails fn s j) \<and> \<not> fails fn s (n - 1) else \<forall>j<n. fails fn s j)"
  using retry_loop_states [of cfg c d b fn 0 None s res s'] by (simp add: Retry_def)

lemma retry_success_at:
  assumes "int n \<le> rc_MaxRetries cfg" "undisturbed c d b n" "\<forall>j<n. fails fn s j" "\<not> fails fn s n"
  shows "Retry cfg c d b fn s = (Ret None, after_calls fn (Suc n) s)"
proof -
  obtain l where "Retry cfg c d b fn s = retry_loop cfg c d b fn n l (after_calls fn n s)"
    using retry_loop_reaches [OF assms(1-3)] by blast
  moreover have "fn n (after_calls fn n s) = (None, after_calls fn (Suc n) s)" "c n = None"
    using assms(2) not_fails_iff [THEN iffD1, OF assms(4)] by (simp_all add: undisturbed_def)
  ultimately show ?thesis using retry_loop_ok [of n cfg c fn] assms(1) by simp
qed

lemma retry_exhausted:
  assumes "int n = rc_MaxRetries cfg" "undisturbed c d b n" "\<forall>j\<le>n. fails fn s j"
  shows "\<exists>e. fst (fn n (after_calls fn n s)) = Some e \<and> Retry cfg c d b fn s =
    (Ret (Some (Wrapf ''exhausted %d retries: %w'' [itoa (rc_MaxRetries cfg)] e)), after_calls fn (Suc n) s)"
proof -
  have n: "int n \<le> rc_MaxRetries cfg" "\<forall>j<n. fails fn s j" using assms by auto
  obtain l where "Retry cfg c d b fn s = retry_loop cfg c d b fn n l (after_calls fn n s)"
    using retry_loop_reaches [OF n(1) assms(2) n(2)] by blast
  moreover obtain e where "fn n (after_calls fn n s) = (Some e, after_calls fn (Suc n) s)"
    using assms(3) fails_iff [THEN iffD1, of fn s n] by auto
  moreover have "c n = None" using assms(2) by (auto simp: undisturbed_def)
  ultimately show ?thesis using retry_loop_last [of n cfg c fn] assms(1) by simp
qed

text \<open>
  C23. \<open>Retry\<close> reports success exactly at the first successful attempt: if it returns nil, some
  attempt \<open>n \<le> MaxRetries\<close> succeeded, all earlier ones failed and the function was called
  \<open>n + 1\<close> times; and if attempt \<open>n\<close> is the first to succeed and no cancellation comes before
  it, \<open>Retry\<close> returns nil after just these calls. When all \<open>MaxRetries + 1\<close> attempts fail and
  nothing is cancelled, the last error is returned, wrapped.
\<close>

theorem retry_result:
  "(Retry cfg c d b fn s = (Ret None, s') \<longrightarrow>
      (\<exists>n. int n \<le> rc_MaxRetries cfg \<and> (\<forall>j<n. fails fn s j) \<and> \<not> fails fn s n \<and>
           s' = after_calls fn (Suc n) s)) \<and>
   (int n \<le> rc_MaxRetries cfg \<and> undisturbed c d b n \<and> (\<forall>j<n. fails fn s j) \<and> \<not> fails fn s n \<longrightarrow>
      Retry cfg c d b fn s = (Ret None, after_calls fn (Suc n) s)) \<and>
   (int n = rc_MaxRetries cfg \<and> undisturbed c d b n \<and> (\<forall>j\<le>n. fails fn s j) \<longrightarrow>
      (\<exists>e. fst (fn n (after_calls fn n s)) = Some e \<and> Retry cfg c d b fn s =
        (Ret (Some (Wrapf ''exhausted %d retries: %w'' [itoa (rc_MaxRetries cfg)] e)),
         after_calls fn (Suc n) s)))"
  using retry_loop_nil [of cfg c d b fn 0 None s s'] retry_success_at [of n cfg c d b fn s]
    retry_exhausted [of n cfg c d b fn s]
  by (simp add: Retry_def)

text \<open>A function that fails twice: two retries suffice, and the state counts three calls.\<close>

definition flaky :: "nat \<Rightarrow> nat \<Rightarrow> go_error option \<times> nat" where
  "flaky k calls = (if calls < 2 then Some (Errorf ''flaky'' []) else None, calls + 1)"

theorem retry_result_witness:
  "Retry \<lparr>rc_MaxRetries = 2, rc_BackoffBase = 1, rc_BackoffMax = 1\<rparr> (\<lambda>_. None) (\<lambda>_. False) (\<lambda>_. Ret 0) flaky 0
     = (Ret None, 3) \<and>
   Retry \<lparr>rc_MaxRetries = 1, rc_BackoffBase = 1, rc_BackoffMax = 1\<rparr> (\<lambda>_. None) (\<lambda>_. False) (\<lambda>_. Ret 0) flaky 0
     = (Ret (Some (Wrapf ''exhausted %d retries: %w'' [itoa 1] (Errorf ''flaky'' []))), 2)"
  using retry_result [of "\<lparr>rc_MaxRetries = 2, rc_BackoffBase = 1, rc_BackoffMax = 1\<rparr>"
      "\<lambda>_. None" "\<lambda>_. False" "\<lambda>_. Ret 0" flaky 0 3 2]
    retry_result [of "\<lparr>rc_MaxRetries = 1, rc_BackoffBase = 1, rc_BackoffMax = 1\<rparr>"
      "\<lambda>_. None" "\<lambda>_. False" "\<lambda>_. Ret 0" flaky 0 3 1]
  by (auto simp: undisturbed_def fails_def flaky_def numeral_2_eq_2 numeral_3_eq_3 less_Suc_eq le_Suc_eq after_Suc)

section \<open>Lemmas: circuit breaker\<close>

lemmas breaker_defs = checkStateTransition_def Allow_def State_def RecordSuccess_def RecordFailure_def
  Reset_def Let_def

text \<open>The operations of a breaker as events, with the time at which each reads the clock.\<close>

datatype cb_event = CbState int | CbAllow int | CbSuccess | CbFailure int | CbReset

fun cb_step :: "cb_event \<Rightarrow> CircuitBreaker \<Rightarrow> CircuitBreaker" where
  "cb_step (CbState now) cb = snd (State now cb)"
| "cb_step (CbAllow now) cb = snd (Allow now cb)"
| "cb_step CbSuccess cb = RecordSuccess cb"
| "cb_step (CbFailure now) cb = RecordFailure now cb"
| "cb_step CbReset cb = Reset cb"

inductive cb_reach :: "CircuitBreakerConfig \<Rightarrow> CircuitBreaker \<Rightarrow> bool" for cfg where
  cb_new: "cb_reach cfg (NewCircuitBreaker cfg)"
| cb_op: "cb_reach cfg cb \<Longrightarrow> cb_reach cfg (cb_step ev cb)"

definition cb_inv :: "CircuitBreakerConfig \<Rightarrow> CircuitBreaker \<Rightarrow> bool" where
  "cb_inv cfg cb \<longleftrightarrow> cb_cfg cb = cfg \<and>
     (case cb_state cb of
        CircuitClosed \<Rightarrow> 0 \<le> cb_failures cb \<and> cb_failures cb < cbc_FailureThreshold cfg \<and> cb_successes cb = 0
      | CircuitHalfOpen \<Rightarrow> 0 \<le> cb_successes cb \<and> cb_successes cb < cbc_HalfOpenMaxProbes cfg \<and>
                           cbc_FailureThreshold cfg \<le> cb_failures cb
      | CircuitOpen \<Rightarrow> cbc_FailureThreshold cfg \<le> cb_failures cb \<and> cb_successes cb = 0)"

lemma cb_inv_step:
  assumes "cb_inv cfg cb" "0 < cbc_FailureThreshold cfg" "0 < cbc_HalfOpenMaxProbes cfg"
  shows "cb_inv cfg (cb_step ev cb)"
  using assms by (cases ev) (auto simp: cb_inv_def breaker_defs split: CircuitState.splits)

text \<open>
  The invariant of the circuit breaker over every sequence of operations: while it is closed
  fewer than \<open>FailureThreshold\<close> consecutive failures are counted, half-open it has seen fewer
  than \<open>HalfOpenMaxProbes\<close> successes, and it is open or half-open only after
  \<open>FailureThreshold\<close> failures.
\<close>

lemma breaker_invariant:
  assumes "cb_reach cfg cb" and "0 < cbc_FailureThreshold cfg" and "0 < cbc_HalfOpenMaxProbes cfg"
  shows "cb_inv cfg cb"
  using assms
proof (induction rule: cb_reach.induct)
  case cb_new
  then show ?case by (simp add: cb_inv_def NewCircuitBreaker_def)
qed (blast intro: cb_inv_step)

lemma breaker_invariant_example:
  "cb_inv DefaultCircuitBreakerConfig
     (cb_step (CbFailure 7) (NewCircuitBreaker DefaultCircuitBreakerConfig))"
  by (rule breaker_invariant)
    (simp_all only: cb_reach.intros, simp_all add: DefaultCircuitBreakerConfig_def)

lemma failures_from_closed:
  assumes "cb_state cb = CircuitClosed" "cb_failures cb = 0" "0 < cbc_FailureThreshold (cb_cfg cb)"
  shows "let cb' = fold RecordFailure ts cb in
    cb_cfg cb' = cb_cfg cb \<and> cb_failures cb' = int (length ts) \<and>
    cb_state cb' = (if int (length ts) < cbc_FailureThreshold (cb_cfg cb) then CircuitClosed else CircuitOpen) \<and>
    cb_lastFailureTime cb' = (if ts = [] then cb_lastFailureTime cb else last ts)"
proof (induction ts rule: rev_induct)
  case Nil
  with assms show ?case by simp
next
  case (snoc t ts)
  then show ?case by (auto simp: RecordFailure_def Let_def split: if_splits)
qed

lemma successes_from_half_open:
  assumes "cb_state cb = CircuitHalfOpen" "cb_successes cb = 0" "0 < cbc_HalfOpenMaxProbes (cb_cfg cb)"
    "int n \<le> cbc_HalfOpenMaxProbes (cb_cfg cb)"
  shows "let cb' = (RecordSuccess ^^ n) cb in
    cb_cfg cb' = cb_cfg cb \<and>
    (if int n < cbc_HalfOpenMaxProbes (cb_cfg cb) then cb_state cb' = CircuitHalfOpen \<and> cb_successes cb' = int n
     else cb_state cb' = CircuitClosed \<and> cb_failures cb' = 0 \<and> cb_successes cb' = 0)"
  using assms(4)
proof (induction n)
  case 0
  with assms show ?case by simp
next
  case (Suc n)
  then show ?case using assms by (auto simp: RecordSuccess_def Let_def split: if_splits)
qed

text \<open>
  The life of a breaker. From a closed breaker with no counted failure (a new one, or one
  that just recorded a success) failures at times \<open>ts\<close> leave it closed exactly while there are
  fewer than \<open>FailureThreshold\<close> of them; once it is open, \<open>Allow\<close> rejects exactly until
  \<open>ResetTimeout\<close> has passed since the last failure; then \<open>HalfOpenMaxProbes\<close> successes in a
  row close it, fewer do not, and a failure after fewer opens it again until
  \<open>ResetTimeout\<close> after that failure.
\<close>

lemma breaker_trips_and_recovers:
  assumes cb: "cb_state cb = CircuitClosed" "cb_failures cb = 0" "cb_cfg cb = cfg"
    and cfg: "0 < cbc_FailureThreshold cfg" "0 < cbc_HalfOpenMaxProbes cfg"
    and trip: "ts \<noteq> []" "cb' = fold RecordFailure ts cb"
    and probe: "last ts + cbc_ResetTimeout cfg \<le> t" "int n \<le> cbc_HalfOpenMaxProbes cfg"
      "cb'' = (RecordSuccess ^^ n) (snd (Allow t cb'))"
  shows "(fst (Allow now cb') \<longleftrightarrow>
            int (length ts) < cbc_FailureThreshold cfg \<or> last ts + cbc_ResetTimeout cfg \<le> now) \<and>
         (cbc_FailureThreshold cfg \<le> int (length ts) \<longrightarrow>
            cb_state cb'' = (if int n < cbc_HalfOpenMaxProbes cfg then CircuitHalfOpen else CircuitClosed) \<and>
            (int n < cbc_HalfOpenMaxProbes cfg \<longrightarrow>
               (fst (Allow now (RecordFailure t' cb'')) \<longleftrightarrow> t' + cbc_ResetTimeout cfg \<le> now)))"
proof (intro conjI impI)
  have cb': "cb_cfg cb' = cfg" "cb_lastFailureTime cb' = last ts"
    "cb_state cb' = (if int (length ts) < cbc_FailureThreshold cfg then CircuitClosed else CircuitOpen)"
    using failures_from_closed [of cb ts] cb cfg trip by (simp_all add: Let_def)
  then show "fst (Allow now cb') \<longleftrightarrow>
      int (length ts) < cbc_FailureThreshold cfg \<or> last ts + cbc_ResetTimeout cfg \<le> now"
    by (auto simp: breaker_defs)
  assume "cbc_FailureThreshold cfg \<le> int (length ts)"
  then have half: "cb_state (snd (Allow t cb')) = CircuitHalfOpen" "cb_successes (snd (Allow t cb')) = 0"
    "cb_cfg (snd (Allow t cb')) = cfg"
    using cb' probe(1) by (simp_all add: breaker_defs)
  from successes_from_half_open [of "snd (Allow t cb')" n] half probe cfg
  have cb'': "cb_cfg cb'' = cfg"
    "cb_state cb'' = (if int n < cbc_HalfOpenMaxProbes cfg then CircuitHalfOpen else CircuitClosed)"
    by (auto simp: Let_def)
  then show "cb_state cb'' = (if int n < cbc_HalfOpenMaxProbes cfg then CircuitHalfOpen else CircuitClosed)"
    by simp
  assume "int n < cbc_HalfOpenMaxProbes cfg"
  with cb'' show "fst (Allow now (RecordFailure t' cb'')) \<longleftrightarrow> t' + cbc_ResetTimeout cfg \<le> now"
    by (auto simp: breaker_defs)
qed

definition tripped :: CircuitBreaker where
  "tripped = fold RecordFailure [1, 2, 3, 4, 5] (NewCircuitBreaker DefaultCircuitBreakerConfig)"

lemma breaker_trips_and_recovers_example:
  "\<not> fst (Allow 30000000004 tripped) \<and>
   cb_state ((RecordSuccess ^^ 3) (snd (Allow 30000000005 tripped))) = CircuitClosed"
  using breaker_trips_and_recovers [of "NewCircuitBreaker DefaultCircuitBreakerConfig"
      DefaultCircuitBreakerConfig "[1, 2, 3, 4, 5]" tripped 30000000005 3
      "(RecordSuccess ^^ 3) (snd (Allow 30000000005 tripped))" 30000000004 0,
      OF _ _ _ _ _ _ tripped_def _ _ refl]
  by (simp add: NewCircuitBreaker_def DefaultCircuitBreakerConfig_def)

lemma Allow_open:
  "cb_state cb = CircuitOpen \<Longrightarrow> now < cb_lastFailureTime cb + cbc_ResetTimeout (cb_cfg cb) \<Longrightarrow>
   Allow now cb = (False, cb)"
  by (simp add: breaker_defs)

text \<open>On a closed breaker the guard is transparent.\<close>

lemma guarded_closed:
  assumes "cb_state cb = CircuitClosed"
  shows "Allow t cb = (True, cb)"
    and "after_calls (guarded now fn) k (cb, s) = (cb, after_calls fn k s)"
    and "fails (guarded now fn) (cb, s) k = fails fn s k"
proof -
  show allow: "Allow t cb = (True, cb)" for t using assms by (simp add: breaker_defs)
  show after: "after_calls (guarded now fn) k (cb, s) = (cb, after_calls fn k s)" for k
    by (induction k) (auto simp: guarded_def allow after_Suc split: prod.splits)
  show "fails (guarded now fn) (cb, s) k = fails fn s k"
    by (simp add: fails_def after) (simp add: guarded_def allow split: prod.splits)
qed

lemma protected_exhausted:
  assumes "cb_state cb = CircuitClosed" "int n = rc_MaxRetries cfg" "undisturbed c d b n" "\<forall>j\<le>n. fails fn s j"
  shows "\<exists>err. RetryWithCircuitBreaker cfg c d b now0 now now1 fn (cb, s) =
                (Ret (Some err), RecordFailure now1 cb, after_calls fn (Suc n) s)"
  using retry_exhausted [of n cfg c d b "guarded now fn" "(cb, s)"] assms
  by (auto simp: RetryWithCircuitBreaker_def guarded_closed)

lemma protected_success:
  assumes "cb_state cb = CircuitClosed" "int n \<le> rc_MaxRetries cfg" "undisturbed c d b n"
    "\<forall>j<n. fails fn s j" "\<not> fails fn s n"
  shows "RetryWithCircuitBreaker cfg c d b now0 now now1 fn (cb, s) =
                (Ret None, RecordSuccess cb, after_calls fn (Suc n) s)"
  using retry_success_at [of n cfg c d b "guarded now fn" "(cb, s)"] assms
  by (auto simp: RetryWithCircuitBreaker_def guarded_closed)

text \<open>
  A protected call. On an open breaker, before the reset timeout, it returns
  \<open>ErrCircuitOpen\<close> at once, without calling the function and without touching the breaker. On
  a closed breaker a call whose attempts all fail counts as one failure, whatever the number of
  retries, and one that succeeds at some attempt counts as one success.
\<close>

lemma protected_call:
  "(cb_state cb = CircuitOpen \<and> now0 < cb_lastFailureTime cb + cbc_ResetTimeout (cb_cfg cb) \<longrightarrow>
      RetryWithCircuitBreaker cfg c d b now0 now now1 fn (cb, s) = (Ret (Some ErrCircuitOpen), cb, s)) \<and>
   (cb_state cb = CircuitClosed \<and> int n = rc_MaxRetries cfg \<and> undisturbed c d b n \<and>
      (\<forall>j\<le>n. fails fn s j) \<longrightarrow>
      (\<exists>err. RetryWithCircuitBreaker cfg c d b now0 now now1 fn (cb, s) =
          (Ret (Some err), RecordFailure now1 cb, after_calls fn (Suc n) s))) \<and>
   (cb_state cb = CircuitClosed \<and> int n \<le> rc_MaxRetries cfg \<and> undisturbed c d b n \<and>
      (\<forall>j<n. fails fn s j) \<and> \<not> fails fn s n \<longrightarrow>
      RetryWithCircuitBreaker cfg c d b now0 now now1 fn (cb, s) =
          (Ret None, RecordSuccess cb, after_calls fn (Suc n) s))"
  using protected_exhausted [of cb n cfg c d b fn s] protected_success [of cb n cfg c d b fn s]
  by (simp add: RetryWithCircuitBreaker_def Allow_open)

lemma protected_call_example:
  "RetryWithCircuitBreaker DefaultRetryConfig (\<lambda>_. None) (\<lambda>_. False) (\<lambda>_. Ret 0) 6 (\<lambda>_. 6) 6 flaky (tripped, 0)
     = (Ret (Some ErrCircuitOpen), tripped, 0)"
  using protected_call [of tripped 6 DefaultRetryConfig "\<lambda>_. None" "\<lambda>_. False" "\<lambda>_. Ret 0" "\<lambda>_. 6" 6 flaky 0]
  by (simp add: tripped_def NewCircuitBreaker_def DefaultCircuitBreakerConfig_def RecordFailure_def)

end
