(* ===== verification/Component_Lifecycle.thy ===== *)
theory Component_Lifecycle
  imports Mirror_Prelude
begin

text \<open>
  The life cycle that the engine expects of its components (\<open>internal/mirror/engine.go\<close>, the loops of
  \<open>Run\<close> and \<open>Shutdown\<close>): a \<open>Start\<close> that refuses a running component and otherwise leaves it running if its
  configuration wants it, and a \<open>Stop\<close> that can be repeated. The contract is the locale
  \<open>lifecycle\<close>; source, heartbeat emitter, checkpoint emitter and topic discovery are its interpretations.
\<close>

section \<open>Starting a list of components\<close>

text \<open>\<open>for _, c := range list { if err := c.Start(ctx); err != nil { return ... } }\<close>.\<close>

fun start_all :: "('a \<Rightarrow> go_error option \<times> 'a) \<Rightarrow> 'a list \<Rightarrow> go_error option \<times> 'a list" where
  "start_all start [] = (None, [])"
| "start_all start (c # cs) =
     (case start c of
        (Some err, c') \<Rightarrow> (Some err, c' # cs)
      | (None, c') \<Rightarrow> (case start_all start cs of (err, cs') \<Rightarrow> (err, c' # cs')))"

lemma start_all_map:
  "start_all start xs = (err, ys) \<Longrightarrow> (\<And>x. f (snd (start x)) = f x) \<Longrightarrow> map f ys = map f xs"
proof (induction xs arbitrary: ys)
  case (Cons x xs)
  obtain er y where s: "start x = (er, y)" by force
  have "f y = f x" using Cons.prems(2) [of x] s by simp
  with Cons s show ?case by (cases er) (auto split: prod.splits)
qed simp

lemma start_all_ok:
  "(\<And>x. x \<in> set xs \<Longrightarrow> fst (start x) = None) \<Longrightarrow> start_all start xs = (None, map (\<lambda>x. snd (start x)) xs)"
proof (induction xs)
  case (Cons x xs)
  obtain y where "start x = (None, y)" using Cons.prems [of x] by (cases "start x") auto
  with Cons show ?case by simp
qed simp

text \<open>Where a start ends: after the last component, or at the first one that fails, with the rest untouched.\<close>

lemma start_all_split:
  assumes "start_all start xs = (err, ys)"
  obtains (all) "err = None" "ys = map (\<lambda>x. snd (start x)) xs" "\<forall>x \<in> set xs. fst (start x) = None"
  | (first) pre x e post where "err = Some e" "xs = pre @ x # post" "fst (start x) = Some e" "\<forall>x \<in> set pre. fst (start x) = None"
      "ys = map (\<lambda>x. snd (start x)) pre @ snd (start x) # post"
  using assms
proof (induction xs arbitrary: ys thesis)
  case (Cons x xs)
  obtain er y where s: "start x = (er, y)" by force
  show ?case
  proof (cases er)
    case (Some e)
    then show ?thesis using Cons.prems(2) [of e "[]" x xs] Cons.prems(3) s by simp
  next
    case None
    then obtain zs where zs: "start_all start xs = (err, zs)" "ys = y # zs" using Cons.prems(3) s by (auto split: prod.splits)
    show ?thesis
    proof (rule Cons.IH [OF _ _ zs(1)])
      assume "err = None" "zs = map (\<lambda>x. snd (start x)) xs" "\<forall>x \<in> set xs. fst (start x) = None"
      then show thesis using Cons.prems(1) None s zs(2) by simp
    next
      fix pre x' e post
      assume "err = Some e" "xs = pre @ x' # post" "fst (start x') = Some e" "\<forall>x \<in> set pre. fst (start x) = None"
        "zs = map (\<lambda>x. snd (start x)) pre @ snd (start x') # post"
      then show thesis using Cons.prems(2) [of e "x # pre" x' post] None s zs(2) by simp
    qed
  qed
qed simp

section \<open>The contract\<close>

locale lifecycle =
  fixes running :: "'c \<Rightarrow> bool" and wanted :: "'c \<Rightarrow> bool"
    and start :: "'c \<Rightarrow> go_error option \<times> 'c" and stop :: "'c \<Rightarrow> 'c"
  assumes start_refuses: "running c \<Longrightarrow> \<exists>e. start c = (Some e, c)"
    and start_runs: "\<not> running c \<Longrightarrow> start c = (None, c') \<Longrightarrow> running c' \<longleftrightarrow> wanted c"
    and start_fails: "\<not> running c \<Longrightarrow> start c = (Some e, c') \<Longrightarrow> \<not> running c'"
    and start_wanted: "wanted (snd (start c)) \<longleftrightarrow> wanted c"
    and stop_stops: "\<not> running (stop c)"
    and stop_idle: "\<not> running c \<Longrightarrow> stop c = c"
begin

lemma stop_twice [simp]: "stop (stop c) = stop c"
  by (rule stop_idle) (rule stop_stops)

lemma stop_all_twice [simp]: "map stop (map stop cs) = map stop cs"
  by simp

lemma stop_all_stops: "c \<in> set (map stop cs) \<Longrightarrow> \<not> running c"
  using stop_stops by auto

text \<open>A start without an error means that the component did not run before and runs now if it is wanted.\<close>

lemma started:
  assumes "fst (start c) = None"
  shows "\<not> running c" and "running (snd (start c)) \<longleftrightarrow> wanted (snd (start c))"
proof -
  show idle: "\<not> running c" using assms start_refuses [of c] by auto
  then show "running (snd (start c)) \<longleftrightarrow> wanted (snd (start c))"
    using start_runs [of c "snd (start c)"] start_wanted [of c] assms by (cases "start c") simp
qed

lemma start_all_runs:
  assumes "start_all start cs = (None, cs')" "c \<in> set cs'"
  shows "running c \<longleftrightarrow> wanted c"
  using assms(1)
proof (cases rule: start_all_split)
  case all
  then show ?thesis using assms(2) started(2) by auto
qed simp

text \<open>A start that fails half-way leaves the components before the failing one running and no other.\<close>

lemma start_all_fails:
  assumes "start_all start cs = (Some e, cs')" "\<forall>c \<in> set cs. \<not> running c"
  obtains pre c post where "cs' = pre @ c # post" "\<forall>c \<in> set pre. running c \<longleftrightarrow> wanted c"
    "\<forall>c \<in> set (c # post). \<not> running c"
  using assms(1)
proof (cases rule: start_all_split)
  case (first pre c e' post)
  have "\<not> running (snd (start c))"
    using start_fails [of c e' "snd (start c)"] first(2,3) assms(2) by (cases "start c") simp
  then show ?thesis
    using that [of "map (\<lambda>c. snd (start c)) pre" "snd (start c)" post] first started(2) assms(2) by auto
qed simp

text \<open>After a stop no start is refused because the component is still running.\<close>

lemma stop_then_start:
  assumes "start (stop c) = (err, c')"
  shows "if err = None then running c' \<longleftrightarrow> wanted (stop c) else \<not> running c'"
  using assms start_runs [OF stop_stops, of c c'] start_fails [OF stop_stops, of c _ c'] by auto

end

end
