(* ===== verification/Source_Replicator.thy ===== *)
theory Source_Replicator
  imports Sync_Topic Dead_Letter Retry_Breaker Component_Lifecycle "HOL-Library.Multiset"
begin

text \<open>
  \<open>internal/mirror/source.go\<close>: the replicator of a flow. Life cycle operations are functions of
  the \<open>Source\<close> record. The replication loop and the callbacks of the asynchronous producer run
  concurrently: they are the step relation \<open>loop_step\<close> on a state that holds the \<open>Source\<close>, the
  local variables of the loop, the records whose produce is in flight, and a history of what was
  polled, produced, delivered, given up and committed. A step takes what the outside world
  decides as an argument: the poll result, the result of a produce, the time, the result of a commit.
\<close>

section \<open>State\<close>

record 're Source =
  src_cfg :: ReplicationConfig
  src_srcCfg :: ClusterConfig
  src_tgtCfg :: ClusterConfig
  src_topicFilter :: "'re TopicFilter"
  src_policy :: ReplicationPolicy
  src_syncStore :: "SyncStore option"
  src_syncWriter :: "SyncWriter option"
  src_dlq :: "DLQ option"
  src_consumer :: "kgo_opt list option"
  src_producer :: "kgo_opt list option"
  src_running :: bool
  src_subscribedTopics :: "string list"
  src_produceErrors :: int
  src_retryCfg :: RetryConfig
  src_circuitBreaker :: CircuitBreaker

section \<open>Life cycle\<close>

text \<open>The retry configuration of a flow, as \<open>NewSource\<close> and \<open>NewParallelSource\<close> build it.\<close>

definition flow_retry_config :: "ReplicationConfig \<Rightarrow> RetryConfig" where
  "flow_retry_config cfg =
     (let retryCfg = \<lparr>rc_MaxRetries = r_MaxRetries cfg, rc_BackoffBase = r_RetryBackoffBase cfg,
                      rc_BackoffMax = r_RetryBackoffMax cfg\<rparr>
      in if rc_MaxRetries retryCfg = 0 then DefaultRetryConfig else retryCfg)"

text \<open>The queue of a flow: a failure to create it is only logged.\<close>

definition flow_dlq :: "build_env \<Rightarrow> (kgo_opt list \<Rightarrow> go_error option) \<Rightarrow> ReplicationConfig \<Rightarrow> ClusterConfig \<Rightarrow> DLQ option" where
  "flow_dlq env newClient cfg tgtCfg =
     (if r_DLQEnabled cfg then (case NewDLQ env newClient cfg tgtCfg of Inl _ \<Rightarrow> None | Inr d \<Rightarrow> d) else None)"

definition NewSource :: "(string \<Rightarrow> go_error + 're) \<Rightarrow> build_env \<Rightarrow> (kgo_opt list \<Rightarrow> go_error option)
    \<Rightarrow> ReplicationConfig \<Rightarrow> ClusterConfig \<Rightarrow> ClusterConfig \<Rightarrow> SyncStore option \<Rightarrow> go_error + 're Source" where
  "NewSource compile env newClient cfg srcCfg tgtCfg syncStore =
     (case NewTopicFilter compile (tfc_Whitelist (r_TopicFilter cfg)) (tfc_Blacklist (r_TopicFilter cfg)) of
        Inl err \<Rightarrow> Inl (Wrapf ''create topic filter: %w'' [] err)
      | Inr topicFilter \<Rightarrow>
          (case NewPolicy (r_ReplicationPolicy cfg) (r_Separator cfg) of
             Inl err \<Rightarrow> Inl (Wrapf ''create replication policy: %w'' [] err)
           | Inr pol \<Rightarrow>
               Inr \<lparr>src_cfg = cfg, src_srcCfg = srcCfg, src_tgtCfg = tgtCfg, src_topicFilter = topicFilter,
                    src_policy = pol, src_syncStore = syncStore, src_syncWriter = None,
                    src_dlq = flow_dlq env newClient cfg tgtCfg, src_consumer = None, src_producer = None,
                    src_running = False, src_subscribedTopics = [], src_produceErrors = 0,
                    src_retryCfg = flow_retry_config cfg,
                    src_circuitBreaker = NewCircuitBreaker DefaultCircuitBreakerConfig\<rparr>))"

definition SetSyncWriter :: "SyncWriter \<Rightarrow> 're Source \<Rightarrow> 're Source" where
  "SetSyncWriter w s = s\<lparr>src_syncWriter := Some w\<rparr>"

definition SetDLQ :: "DLQ option \<Rightarrow> 're Source \<Rightarrow> 're Source" where
  "SetDLQ d s = s\<lparr>src_dlq := d\<rparr>"

definition source_consumer_opts :: "ReplicationConfig \<Rightarrow> kgo_opt list" where
  "source_consumer_opts cfg =
     [ConsumeResetOffset_AtStart, FetchMaxBytes (100 * 1024 * 1024), FetchMaxPartitionBytes (10 * 1024 * 1024),
      FetchMinBytes (512 * 1024), FetchMaxWait (500 * Millisecond),
      ConsumerGroup (''gomm2-source-'' @ r_Source cfg @ ''-'' @ r_Target cfg), DisableAutoCommit] @
     (if r_ReadCommitted cfg then [FetchIsolationLevel_ReadCommitted] else [])"

definition target_producer_opts :: "ReplicationConfig \<Rightarrow> kgo_opt list" where
  "target_producer_opts cfg =
     [ProducerBatchMaxBytes (word_of_int (r_ProducerBatchSize cfg)), ProducerLinger (r_ProducerLingerMs cfg * Millisecond),
      RecordPartitioner_Manual, RequiredAcks_AllISR, ProducerBatchCompression (compressionCodec (r_Compression cfg)),
      MaxProduceRequestsInflightPerBroker 20, MaxBufferedRecords 100000]"

definition Start :: "build_env \<Rightarrow> (kgo_opt list \<Rightarrow> go_error option) \<Rightarrow> 're Source \<Rightarrow> go_error option \<times> 're Source" where
  "Start env newClient s =
     (if src_running s then (Some (Errorf ''source already running'' []), s)
      else case BuildClientOpts env (src_srcCfg s) of
        Inl err \<Rightarrow> (Some (Wrapf ''build source client opts: %w'' [] err), s)
      | Inr srcOpts \<Rightarrow>
          (let srcOpts = srcOpts @ source_consumer_opts (src_cfg s) in
           case newClient srcOpts of
             Some err \<Rightarrow> (Some (Wrapf ''create source consumer: %w'' [] err), s)
           | None \<Rightarrow>
               (let s = s\<lparr>src_consumer := Some srcOpts\<rparr> in
                case BuildClientOpts env (src_tgtCfg s) of
                  Inl err \<Rightarrow> (Some (Wrapf ''build target client opts: %w'' [] err), s)
                | Inr tgtOpts \<Rightarrow>
                    (let tgtOpts = tgtOpts @ target_producer_opts (src_cfg s) in
                     case newClient tgtOpts of
                       Some err \<Rightarrow> (Some (Wrapf ''create target producer: %w'' [] err), s)
                     | None \<Rightarrow> (None, s\<lparr>src_producer := Some tgtOpts, src_running := True\<rparr>)))))"

text \<open>\<open>UpdateTopics\<close>: the source, and the topics added to the consumer.\<close>

fun subscribe_new :: "string list \<Rightarrow> string list \<Rightarrow> string list \<Rightarrow> string list \<times> string list" where
  "subscribe_new [] subscribed newTopics = (subscribed, newTopics)"
| "subscribe_new (t # ts) subscribed newTopics =
     (if t \<notin> set subscribed then subscribe_new ts (subscribed @ [t]) (newTopics @ [t])
      else subscribe_new ts subscribed newTopics)"

definition UpdateTopics :: "string list \<Rightarrow> 're Source \<Rightarrow> 're Source \<times> string list" where
  "UpdateTopics topics s =
     (if src_consumer s = None then (s, [])
      else let (subscribed, newTopics) = subscribe_new topics (src_subscribedTopics s) []
           in (s\<lparr>src_subscribedTopics := subscribed\<rparr>, newTopics))"

text \<open>\<open>Stop\<close>, after the loop and the callbacks have ended: the source, and whether the final offsets
  are committed.\<close>

definition Stop :: "'re Source \<Rightarrow> 're Source \<times> bool" where
  "Stop s =
     (if \<not> src_running s then (s, False)
      else let errCount = src_produceErrors s;
               final = (src_consumer s \<noteq> None \<and> errCount = 0)
           in (s\<lparr>src_dlq := map_option DLQ_Close (src_dlq s), src_running := False\<rparr>, final))"

interpretation source: lifecycle src_running "\<lambda>_. True" "Start env newClient" "\<lambda>s. fst (Stop s)" for env newClient
  by unfold_locales (auto simp: Start_def Stop_def Let_def split: sum.splits option.splits)

section \<open>The replication loop\<close>

datatype loop_pc = AtPoll | AtFlush nat | AtCommit nat | Exited | Crashed string

record 're loop =
  lp_src :: "'re Source"
  lp_pc :: loop_pc
  lp_inflight :: "Record list"
  lp_writes :: "OffsetSync list"
  lp_persisted :: "Record list"
  lp_recordsSinceCommit :: int
  lp_lastCommitTime :: int
  lp_recordsSinceSync :: int
  lp_recCounts :: "(string \<times> int) list"
  lp_byteCounts :: "(string \<times> int) list"
  lp_lastMetricFlush :: int
  lp_metrics :: metric_values
  lp_polled :: "Record list"
  lp_produced :: "Record list"
  lp_retried :: "Record list"
  lp_delivered :: "(Record \<times> int64) list"
  lp_failed :: "Record list"
  lp_deadLetters :: "Record list"
  lp_committed :: nat

definition start_loop :: "int \<Rightarrow> metric_values \<Rightarrow> 're Source \<Rightarrow> 're loop" where
  "start_loop now mv s = \<lparr>lp_src = s, lp_pc = AtPoll, lp_inflight = [], lp_writes = [], lp_persisted = [], lp_recordsSinceCommit = 0,
     lp_lastCommitTime = now, lp_recordsSinceSync = 0, lp_recCounts = [], lp_byteCounts = [],
     lp_lastMetricFlush = now, lp_metrics = mv, lp_polled = [], lp_produced = [], lp_retried = [], lp_delivered = [], lp_failed = [],
     lp_deadLetters = [], lp_committed = 0\<rparr>"

text \<open>A counter with two or three labels: the label counts match, so it does not panic.\<close>

definition inc :: "MetricVec \<Rightarrow> string list \<Rightarrow> metric_values \<Rightarrow> metric_values" where
  "inc v labels mv = (case add_metric v labels 1 mv of Ret mv' \<Rightarrow> mv' | _ \<Rightarrow> mv)"

text \<open>An observation of a histogram, which adds to its sum.\<close>

definition observe :: "MetricVec \<Rightarrow> string list \<Rightarrow> int \<Rightarrow> metric_values \<Rightarrow> metric_values" where
  "observe v labels x mv = (case add_metric v labels x mv of Ret mv' \<Rightarrow> mv' | _ \<Rightarrow> mv)"

fun bump :: "string \<Rightarrow> int \<Rightarrow> (string \<times> int) list \<Rightarrow> (string \<times> int) list" where
  "bump k n [] = [(k, n)]"
| "bump k n ((k', m) # kms) = (if k = k' then (k, m + n) # kms else (k', m) # bump k n kms)"

definition target_record :: "'re Source \<Rightarrow> Record \<Rightarrow> Record" where
  "target_record s record = zero_record\<lparr>
     rec_topic := FormatRemoteTopic (src_policy s) (r_Source (src_cfg s)) (rec_topic record),
     rec_partition := rec_partition record, rec_key := rec_key record, rec_value := rec_value record,
     rec_headers := rec_headers record, rec_timestamp := rec_timestamp record\<rparr>"

text \<open>The record a retry produces; unlike the first attempt it has no timestamp.\<close>

definition retry_record :: "'re Source \<Rightarrow> Record \<Rightarrow> Record" where
  "retry_record s record = (target_record s record)\<lparr>rec_timestamp := 0\<rparr>"

definition metricsKey :: "'re Source \<Rightarrow> Record \<Rightarrow> string" where
  "metricsKey s record = rec_topic (target_record s record) @ '':'' @ itoa (sint (rec_partition record))"

definition flow_labels :: "'re Source \<Rightarrow> string list" where
  "flow_labels s = [r_Source (src_cfg s), r_Target (src_cfg s)]"

text \<open>One record of the poll: count it and hand it to the producer.\<close>

definition produce_async :: "'re loop \<Rightarrow> Record \<Rightarrow> 're loop" where
  "produce_async lp record =
     (let key = metricsKey (lp_src lp) record
      in lp\<lparr>lp_recCounts := bump key 1 (lp_recCounts lp),
            lp_byteCounts := bump key (int (length (rec_value record))) (lp_byteCounts lp),
            lp_inflight := lp_inflight lp @ [record],
            lp_produced := lp_produced lp @ [target_record (lp_src lp) record],
            lp_polled := lp_polled lp @ [record]\<rparr>)"

definition poll_batch :: "go_error list \<Rightarrow> Record list \<Rightarrow> 're loop \<Rightarrow> 're loop" where
  "poll_batch errs records lp =
     (let lp = lp\<lparr>lp_metrics := foldl (\<lambda>mv _. inc (m_ConsumeErrors all_metrics) (flow_labels (lp_src lp)) mv) (lp_metrics lp) errs\<rparr>
      in if records = [] then lp
         else (foldl produce_async lp records)\<lparr>lp_pc := AtFlush (length records)\<rparr>)"

section \<open>The produce callback\<close>

definition emits_syncs :: "'re Source \<Rightarrow> bool" where
  "emits_syncs s \<longleftrightarrow> BoolDefault (r_EmitOffsetSyncs (src_cfg s)) True \<and> src_syncStore s \<noteq> None"

definition sync_of :: "Record \<Rightarrow> int64 \<Rightarrow> OffsetSync" where
  "sync_of record off = \<lparr>os_tp = \<lparr>tp_topic = rec_topic record, tp_partition = rec_partition record\<rparr>,
     os_upstream = rec_offset record, os_downstream = off\<rparr>"

definition store_sync :: "OffsetSync \<Rightarrow> 're loop \<Rightarrow> 're loop" where
  "store_sync os lp = lp\<lparr>lp_src := (lp_src lp)\<lparr>src_syncStore := map_option (\<lambda>st. HandleSync st os) (src_syncStore (lp_src lp))\<rparr>\<rparr>"

text \<open>Success: the sync goes to the store, and every \<open>OffsetSyncInterval\<close>-th one to the writer.\<close>

definition on_delivered :: "Record \<Rightarrow> int64 \<Rightarrow> 're loop \<Rightarrow> 're loop outcome" where
  "on_delivered record off lp =
     (let os = sync_of record off;
          lp = lp\<lparr>lp_delivered := lp_delivered lp @ [(record, off)]\<rparr>
      in if emits_syncs (lp_src lp) then
           let lp = store_sync os lp in
           if src_syncWriter (lp_src lp) \<noteq> None then
             let lp = lp\<lparr>lp_recordsSinceSync := lp_recordsSinceSync lp + 1\<rparr>;
                 interval = r_OffsetSyncInterval (src_cfg (lp_src lp))
             in if interval = 0 then Panic ''integer divide by zero''
                else if go_rem (lp_recordsSinceSync lp) interval = 0
                then Ret (lp\<lparr>lp_writes := lp_writes lp @ [os]\<rparr>) else Ret lp
           else Ret lp
         else Ret lp)"

text \<open>One retry of a failed produce; \<open>results k\<close> is what the producer reports for it.\<close>

definition retry_produce :: "Record \<Rightarrow> (nat \<Rightarrow> go_error + int64) \<Rightarrow> nat \<Rightarrow> 're loop \<Rightarrow> go_error option \<times> 're loop" where
  "retry_produce record results k lp =
     (let lp = lp\<lparr>lp_metrics := inc (m_RetryAttempts all_metrics) (flow_labels (lp_src lp) @ [''produce'']) (lp_metrics lp),
                  lp_retried := lp_retried lp @ [retry_record (lp_src lp) record]\<rparr>
      in case results k of
           Inl e \<Rightarrow> (Some e, lp)
         | Inr off \<Rightarrow>
             (None, let lp = lp\<lparr>lp_delivered := lp_delivered lp @ [(record, off)]\<rparr>
                    in if emits_syncs (lp_src lp) then store_sync (sync_of record off) lp else lp))"

definition give_up :: "Record \<Rightarrow> go_error \<Rightarrow> 're loop \<Rightarrow> 're loop" where
  "give_up record retryErr lp =
     lp\<lparr>lp_src := (lp_src lp)\<lparr>src_produceErrors := src_produceErrors (lp_src lp) + 1\<rparr>,
        lp_metrics := inc (m_RetryExhausted all_metrics) (flow_labels (lp_src lp) @ [''produce'']) (lp_metrics lp),
        lp_failed := lp_failed lp @ [record],
        lp_deadLetters := lp_deadLetters lp @ (case src_dlq (lp_src lp) of
            None \<Rightarrow> []
          | Some d \<Rightarrow> (case DLQ_Send d (rec_topic record) (rec_partition record) (rec_offset record) (rec_key record)
                         (rec_value record) (rec_headers record) retryErr of
                None \<Rightarrow> [] | Some r \<Rightarrow> [r]))\<rparr>"

record retry_env =
  re_ctxErr :: "nat \<Rightarrow> go_error option"
  re_ctxDone :: "nat \<Rightarrow> bool"
  re_backoff :: "nat \<Rightarrow> int outcome"
  re_results :: "nat \<Rightarrow> go_error + int64"

definition produce_callback :: "retry_env \<Rightarrow> go_error + int64 \<Rightarrow> Record \<Rightarrow> 're loop \<Rightarrow> 're loop outcome" where
  "produce_callback env res record lp =
     (let lp = lp\<lparr>lp_inflight := remove1 record (lp_inflight lp)\<rparr>
      in case res of
           Inr off \<Rightarrow> on_delivered record off lp
         | Inl err \<Rightarrow>
             (let lp = lp\<lparr>lp_metrics := inc (m_ProduceErrors all_metrics)
                            (flow_labels (lp_src lp) @ [rec_topic (target_record (lp_src lp) record)]) (lp_metrics lp)\<rparr>
              in case Retry (src_retryCfg (lp_src lp)) (re_ctxErr env) (re_ctxDone env) (re_backoff env)
                        (retry_produce record (re_results env)) lp of
                   (Ret None, lp') \<Rightarrow> Ret lp'
                 | (Ret (Some retryErr), lp') \<Rightarrow> Ret (give_up record retryErr lp')
                 | (Fail e, lp') \<Rightarrow> Fail e
                 | (Panic m, lp') \<Rightarrow> Panic m))"

section \<open>Metrics flush and offset commit\<close>

text \<open>The scan for the last colon; without one both parts stay empty.\<close>

fun split_key_at :: "string \<Rightarrow> nat \<Rightarrow> string \<times> string" where
  "split_key_at key 0 = ([], [])"
| "split_key_at key (Suc i) =
     (if key ! i = CHR '':'' then (take i key, drop (i + 1) key) else split_key_at key i)"

definition split_key :: "string \<Rightarrow> string \<times> string" where
  "split_key key = split_key_at key (length key)"

fun flush_counts :: "string list \<Rightarrow> (string \<times> int) list \<Rightarrow> (string \<times> int) list \<Rightarrow> metric_values \<Rightarrow> metric_values outcome" where
  "flush_counts labels [] bytes mv = Ret mv"
| "flush_counts labels ((key, cnt) # kcs) bytes mv =
     (let (topic, part) = split_key key in
      case add_metric (m_RecordsReplicated all_metrics) (labels @ [topic, part]) cnt mv of
        Ret mv1 \<Rightarrow>
          (case add_metric (m_BytesReplicated all_metrics) (labels @ [topic, part])
                  (case map_of bytes key of Some n \<Rightarrow> n | None \<Rightarrow> 0) mv1 of
             Ret mv2 \<Rightarrow> flush_counts labels kcs bytes mv2
           | Fail e \<Rightarrow> Fail e
           | Panic m \<Rightarrow> Panic m)
      | Fail e \<Rightarrow> Fail e
      | Panic m \<Rightarrow> Panic m)"

definition flush_step :: "int \<Rightarrow> nat \<Rightarrow> 're loop \<Rightarrow> 're loop" where
  "flush_step now batchLen lp =
     (if now - lp_lastMetricFlush lp \<ge> 5 * Second then
        (case flush_counts (flow_labels (lp_src lp)) (lp_recCounts lp) (lp_byteCounts lp) (lp_metrics lp) of
           Ret mv \<Rightarrow> lp\<lparr>lp_metrics := observe (m_PollBatchSize all_metrics) (flow_labels (lp_src lp)) (int batchLen) mv,
                       lp_recCounts := [], lp_byteCounts := [], lp_lastMetricFlush := now, lp_pc := AtCommit batchLen\<rparr>
         | Fail e \<Rightarrow> lp\<lparr>lp_pc := Crashed (err_text e)\<rparr>
         | Panic m \<Rightarrow> lp\<lparr>lp_pc := Crashed m\<rparr>)
      else lp\<lparr>lp_pc := AtCommit batchLen\<rparr>)"

text \<open>The end of an iteration; \<open>None\<close> while \<open>inflight.Wait()\<close> blocks.\<close>

definition commit_due :: "int \<Rightarrow> nat \<Rightarrow> 're loop \<Rightarrow> bool" where
  "commit_due now batchLen lp \<longleftrightarrow>
     lp_recordsSinceCommit lp + int batchLen \<ge> r_OffsetCommitBatch (src_cfg (lp_src lp)) \<or>
     now - lp_lastCommitTime lp \<ge> r_OffsetCommitInterval (src_cfg (lp_src lp))"

definition commit_step :: "int \<Rightarrow> go_error option \<Rightarrow> nat \<Rightarrow> 're loop \<Rightarrow> 're loop option" where
  "commit_step now commitErr batchLen lp =
     (let due = commit_due now batchLen lp;
          lp = lp\<lparr>lp_recordsSinceCommit := lp_recordsSinceCommit lp + int batchLen, lp_pc := AtPoll\<rparr>
      in if \<not> due then Some lp
         else if lp_inflight lp \<noteq> [] \<or> lp_writes lp \<noteq> [] then None
         else
           let errCount = src_produceErrors (lp_src lp);
               lp = lp\<lparr>lp_src := (lp_src lp)\<lparr>src_produceErrors := 0\<rparr>\<rparr>
           in if errCount > 0 then
                Some (lp\<lparr>lp_metrics := inc (m_OffsetCommitErrors all_metrics) (flow_labels (lp_src lp)) (lp_metrics lp)\<rparr>)
              else (case commitErr of
                  Some _ \<Rightarrow> Some (lp\<lparr>lp_metrics := inc (m_OffsetCommitErrors all_metrics) (flow_labels (lp_src lp)) (lp_metrics lp)\<rparr>)
                | None \<Rightarrow> Some (lp\<lparr>lp_metrics := inc (m_OffsetCommits all_metrics) (flow_labels (lp_src lp)) (lp_metrics lp),
                                lp_recordsSinceCommit := 0, lp_lastCommitTime := now,
                                lp_committed := length (lp_polled lp)\<rparr>)))"

text \<open>The loop ends when the context is done; the deferred function flushes the counters once more.\<close>

definition exit_loop :: "'re loop \<Rightarrow> 're loop" where
  "exit_loop lp =
     (case flush_counts (flow_labels (lp_src lp)) (lp_recCounts lp) (lp_byteCounts lp) (lp_metrics lp) of
        Ret mv \<Rightarrow> lp\<lparr>lp_metrics := mv, lp_pc := Exited\<rparr>
      | Fail e \<Rightarrow> lp\<lparr>lp_pc := Crashed (err_text e)\<rparr>
      | Panic m \<Rightarrow> lp\<lparr>lp_pc := Crashed m\<rparr>)"

text \<open>
  The steps of the system: the loop's own, and the callbacks and sync writers that complete at
  any moment until the process has crashed. A write that was acknowledged is on the topic of the
  syncs; one that failed may be there or not.
\<close>

inductive loop_step :: "'re loop \<Rightarrow> 're loop \<Rightarrow> bool" where
  step_poll: "lp_pc lp = AtPoll \<Longrightarrow> loop_step lp (poll_batch errs records lp)"
| step_exit: "lp_pc lp = AtPoll \<Longrightarrow> loop_step lp (exit_loop lp)"
| step_flush: "lp_pc lp = AtFlush n \<Longrightarrow> loop_step lp (flush_step now n lp)"
| step_commit: "lp_pc lp = AtCommit n \<Longrightarrow> commit_step now commitErr n lp = Some lp' \<Longrightarrow> loop_step lp lp'"
| step_callback: "(\<forall>m. lp_pc lp \<noteq> Crashed m) \<Longrightarrow> record \<in> set (lp_inflight lp) \<Longrightarrow>
    produce_callback env res record lp = Ret lp' \<Longrightarrow> loop_step lp lp'"
| step_callback_panic: "(\<forall>m. lp_pc lp \<noteq> Crashed m) \<Longrightarrow> record \<in> set (lp_inflight lp) \<Longrightarrow>
    produce_callback env res record lp = Panic m \<Longrightarrow> loop_step lp (lp\<lparr>lp_pc := Crashed m\<rparr>)"
| step_write: "(\<forall>m. lp_pc lp \<noteq> Crashed m) \<Longrightarrow> os \<in> set (lp_writes lp) \<Longrightarrow>
    src_syncWriter (lp_src lp) = Some w \<Longrightarrow> Write produce w os = (err, records) \<Longrightarrow> (err = None \<longrightarrow> kept) \<Longrightarrow>
    loop_step lp (lp\<lparr>lp_writes := remove1 os (lp_writes lp),
                     lp_persisted := lp_persisted lp @ (if kept then records else [])\<rparr>)"

inductive loop_reach :: "'re Source \<Rightarrow> 're loop \<Rightarrow> bool" for s where
  reach_start: "loop_reach s (start_loop now mv s)"
| reach_step: "loop_reach s lp \<Longrightarrow> loop_step lp lp' \<Longrightarrow> loop_reach s lp'"

section \<open>Lemmas: the operations on the loop state\<close>

lemma foldl_produce_async:
  "\<exists>rc bc. foldl produce_async lp records =
     lp\<lparr>lp_recCounts := rc, lp_byteCounts := bc, lp_inflight := lp_inflight lp @ records,
        lp_produced := lp_produced lp @ map (target_record (lp_src lp)) records, lp_polled := lp_polled lp @ records\<rparr> \<and>
     (rc = [] \<longleftrightarrow> lp_recCounts lp = [] \<and> records = [])"
proof (induction records arbitrary: lp)
  case Nil
  show ?case by (rule exI [of _ "lp_recCounts lp"], rule exI [of _ "lp_byteCounts lp"]) simp
next
  case (Cons r rs)
  have nonempty: "bump k n kms \<noteq> []" for k n kms by (cases kms) (auto split: if_splits)
  then have counted: "lp_recCounts (produce_async lp r) \<noteq> []" by (simp add: produce_async_def Let_def)
  obtain rc bc where "foldl produce_async (produce_async lp r) rs =
     (produce_async lp r)\<lparr>lp_recCounts := rc, lp_byteCounts := bc, lp_inflight := lp_inflight (produce_async lp r) @ rs,
        lp_produced := lp_produced (produce_async lp r) @ map (target_record (lp_src (produce_async lp r))) rs,
        lp_polled := lp_polled (produce_async lp r) @ rs\<rparr>" "rc \<noteq> []"
    using Cons.IH [of "produce_async lp r"] counted by blast
  then show ?case
    by - (rule exI [of _ rc], rule exI [of _ bc], simp add: produce_async_def [of lp r] Let_def)
qed

lemma retry_produce_fails:
  "fst (retry_produce record results k lp) = None \<longleftrightarrow> (\<exists>off. results k = Inr off)"
  by (auto simp: retry_produce_def Let_def split: sum.splits)

lemma fails_retry_produce: "fails (retry_produce record results) lp k \<longleftrightarrow> (\<exists>e. results k = Inl e)"
  by (cases "results k") (auto simp: fails_def retry_produce_fails)

text \<open>Failing retries leave no trace but in the metrics and the list of retried records.\<close>

lemma after_failed_retries:
  assumes "\<forall>j<n. fails (retry_produce record results) lp j"
  shows "\<exists>mv rt. after_calls (retry_produce record results) n lp = lp\<lparr>lp_metrics := mv, lp_retried := rt\<rparr>"
  using assms
proof (induction n)
  case 0
  show ?case by (rule exI [of _ "lp_metrics lp"], rule exI [of _ "lp_retried lp"]) simp
next
  case (Suc n)
  then obtain mv rt e where "after_calls (retry_produce record results) n lp = lp\<lparr>lp_metrics := mv, lp_retried := rt\<rparr>"
    "results n = Inl e" by (auto simp: fails_retry_produce)
  then show ?case by (auto simp: after_Suc retry_produce_def [of "record" results n] Let_def)
qed

text \<open>
  What a finished callback does to the state, apart from metrics and retries: the record leaves the
  in-flight list and is either delivered or given up. The store is told of a delivery, and a write of its
  sync may be scheduled.
\<close>

definition store_after :: "'re Source \<Rightarrow> (Record \<times> int64) list \<Rightarrow> SyncStore option" where
  "store_after s ds = (if emits_syncs s then map_option (\<lambda>st. handle_all st (map (\<lambda>(r, off). sync_of r off) ds)) (src_syncStore s)
     else src_syncStore s)"

definition settled :: "Record \<Rightarrow> 're loop \<Rightarrow> 're loop \<Rightarrow> bool" where
  "settled record lp lp' \<longleftrightarrow>
     (\<exists>mv rt wr rss st pe df ff dl.
        lp' = lp\<lparr>lp_metrics := mv, lp_retried := rt, lp_writes := wr, lp_recordsSinceSync := rss,
                 lp_inflight := remove1 record (lp_inflight lp),
                 lp_src := (lp_src lp)\<lparr>src_syncStore := st, src_produceErrors := pe\<rparr>,
                 lp_delivered := lp_delivered lp @ df, lp_failed := lp_failed lp @ ff, lp_deadLetters := lp_deadLetters lp @ dl\<rparr> \<and>
        st = store_after (lp_src lp) df \<and>
        (wr = lp_writes lp \<or> (\<exists>off. df = [(record, off)] \<and> wr = lp_writes lp @ [sync_of record off])) \<and>
        ((\<exists>off. df = [(record, off)]) \<and> ff = [] \<and> dl = [] \<and> pe = src_produceErrors (lp_src lp) \<or>
         df = [] \<and> ff = [record] \<and> pe = src_produceErrors (lp_src lp) + 1 \<and>
         (case src_dlq (lp_src lp) of
            None \<Rightarrow> dl = []
          | Some d \<Rightarrow> (if dlq_closed d then dl = []
              else \<exists>e r. dl = [r] \<and> DLQ_Send d (rec_topic record) (rec_partition record) (rec_offset record)
                     (rec_key record) (rec_value record) (rec_headers record) e = Some r))))"

lemma on_delivered_settled:
  assumes "on_delivered record off (lp\<lparr>lp_inflight := remove1 record (lp_inflight lp)\<rparr>) = Ret lp'"
  shows "settled record lp lp'"
  unfolding settled_def
  by (rule exI [of _ "lp_metrics lp'"], rule exI [of _ "lp_retried lp'"], rule exI [of _ "lp_writes lp'"],
      rule exI [of _ "lp_recordsSinceSync lp'"], rule exI [of _ "src_syncStore (lp_src lp')"],
      rule exI [of _ "src_produceErrors (lp_src lp)"], rule exI [of _ "[(record, off)]"], rule exI [of _ "[]"], rule exI [of _ "[]"])
    (use assms in \<open>auto simp: on_delivered_def store_sync_def store_after_def emits_syncs_def Let_def split: if_splits\<close>)

text \<open>How the retry of a record ends: without a trace, or with the delivery by its last attempt.\<close>

lemma retry_fate:
  assumes "Retry cfg c d b (retry_produce record results) lp1 = (Ret rr, lp2)"
  obtains (lost) e mv rt where "rr = Some e" "lp2 = lp1\<lparr>lp_metrics := mv, lp_retried := rt\<rparr>"
  | (delivered) m off mv rt where "rr = None" "results m = Inr off"
      "lp2 = snd (retry_produce record results m (lp1\<lparr>lp_metrics := mv, lp_retried := rt\<rparr>))"
proof -
  from retry_states [OF assms] obtain n where n: "lp2 = after_calls (retry_produce record results) n lp1"
    "if rr = None then 0 < n \<and> (\<forall>j<n - 1. fails (retry_produce record results) lp1 j) \<and>
       \<not> fails (retry_produce record results) lp1 (n - 1)
     else \<forall>j<n. fails (retry_produce record results) lp1 j" by auto
  show thesis
  proof (cases rr)
    case (Some e)
    then show ?thesis using lost n after_failed_retries [of n "record" results lp1] by auto
  next
    case None
    then obtain m where m: "n = Suc m" "\<forall>j<m. fails (retry_produce record results) lp1 j"
      "\<not> fails (retry_produce record results) lp1 m" using n(2) by (cases n) auto
    then obtain mv rt off where "after_calls (retry_produce record results) m lp1 = lp1\<lparr>lp_metrics := mv, lp_retried := rt\<rparr>"
      "results m = Inr off"
      using after_failed_retries [OF m(2)] by (metis fails_retry_produce sum.exhaust)
    then show ?thesis using delivered None n(1) m(1) by (simp add: after_Suc)
  qed
qed

lemma produce_callback_settled:
  assumes "produce_callback env res record lp = Ret lp'"
  shows "settled record lp lp'"
proof (cases res)
  case (Inr off)
  with assms show ?thesis by (auto simp: produce_callback_def Let_def intro: on_delivered_settled)
next
  case (Inl err)
  define lp1 where "lp1 = lp\<lparr>lp_inflight := remove1 record (lp_inflight lp),
    lp_metrics := inc (m_ProduceErrors all_metrics)
      (flow_labels (lp_src lp) @ [rec_topic (target_record (lp_src lp) record)]) (lp_metrics lp)\<rparr>"
  obtain rr lp2 where retry: "Retry (src_retryCfg (lp_src lp1)) (re_ctxErr env) (re_ctxDone env) (re_backoff env)
      (retry_produce record (re_results env)) lp1 = (Ret rr, lp2)"
    and lp': "lp' = (case rr of None \<Rightarrow> lp2 | Some e \<Rightarrow> give_up record e lp2)"
    using assms Inl by (auto simp: produce_callback_def lp1_def Let_def split: prod.splits outcome.splits option.splits)
  from retry show ?thesis
  proof (cases rule: retry_fate)
    case (lost e mv rt)
    show ?thesis
      unfolding settled_def
      by (rule exI [of _ "lp_metrics lp'"], rule exI [of _ rt], rule exI [of _ "lp_writes lp"],
          rule exI [of _ "lp_recordsSinceSync lp"], rule exI [of _ "src_syncStore (lp_src lp)"],
          rule exI [of _ "src_produceErrors (lp_src lp) + 1"], rule exI [of _ "[]"], rule exI [of _ "[record]"],
          rule exI [of _ "drop (length (lp_deadLetters lp)) (lp_deadLetters lp')"])
        (auto simp: lp' lost give_up_def lp1_def DLQ_Send_def store_after_def option.map_ident split: option.splits)
  next
    case (delivered m off mv rt)
    show ?thesis
      unfolding settled_def
      by (rule exI [of _ "lp_metrics lp'"], rule exI [of _ "lp_retried lp'"], rule exI [of _ "lp_writes lp"],
          rule exI [of _ "lp_recordsSinceSync lp"], rule exI [of _ "src_syncStore (lp_src lp')"],
          rule exI [of _ "src_produceErrors (lp_src lp)"], rule exI [of _ "[(record, off)]"], rule exI [of _ "[]"], rule exI [of _ "[]"])
        (auto simp: lp' delivered retry_produce_def lp1_def store_sync_def store_after_def emits_syncs_def Let_def)
  qed
qed

section \<open>The invariant of the loop\<close>

definition handled :: "'re loop \<Rightarrow> Record \<Rightarrow> bool" where
  "handled lp r \<longleftrightarrow> r \<in> fst ` set (lp_delivered lp) \<or> r \<in> set (lp_failed lp)"

text \<open>The dead letters are those of the given-up records, in order, while the queue is open.\<close>

definition dead_letters_ok :: "DLQ option \<Rightarrow> Record list \<Rightarrow> Record list \<Rightarrow> bool" where
  "dead_letters_ok dlq failed dead \<longleftrightarrow>
     (case dlq of
        None \<Rightarrow> dead = []
      | Some d \<Rightarrow> if dlq_closed d then dead = []
          else list_all2 (\<lambda>r l. \<exists>e. DLQ_Send d (rec_topic r) (rec_partition r) (rec_offset r)
                     (rec_key r) (rec_value r) (rec_headers r) e = Some l) failed dead)"

definition loop_inv :: "'re Source \<Rightarrow> 're loop \<Rightarrow> bool" where
  "loop_inv s lp \<longleftrightarrow>
     src_cfg (lp_src lp) = src_cfg s \<and> src_policy (lp_src lp) = src_policy s \<and> src_dlq (lp_src lp) = src_dlq s \<and>
     mset (lp_polled lp) = mset (lp_inflight lp) + mset (map fst (lp_delivered lp)) + mset (lp_failed lp) \<and>
     lp_produced lp = map (target_record s) (lp_polled lp) \<and>
     (\<forall>r \<in> set (take (lp_committed lp) (lp_polled lp)). handled lp r) \<and> lp_committed lp \<le> length (lp_polled lp) \<and>
     dead_letters_ok (src_dlq s) (lp_failed lp) (lp_deadLetters lp) \<and>
     (lp_recCounts lp = [] \<longleftrightarrow> lp_polled lp = []) \<and>
     (lp_pc lp = Exited \<or> (\<exists>n. lp_pc lp = AtFlush n) \<longrightarrow> (lp_pc lp = Exited \<longleftrightarrow> lp_polled lp = []))"

lemma target_record_cong:
  "src_cfg s = src_cfg s' \<Longrightarrow> src_policy s = src_policy s' \<Longrightarrow> target_record s = target_record s'"
  by (simp add: target_record_def fun_eq_iff)

lemma add_metric_four_labels:
  "length labels = 4 \<Longrightarrow> add_metric (m_RecordsReplicated all_metrics) labels n mv = Panic ''inconsistent label cardinality''"
  by (simp add: add_metric_def WithLabelValues_def label_counts)

lemma flush_counts_panics:
  "kcs \<noteq> [] \<Longrightarrow> flush_counts (flow_labels s) kcs bytes mv = Panic ''inconsistent label cardinality''"
  by (cases kcs) (auto simp: add_metric_four_labels flow_labels_def split: prod.splits)

lemma loop_inv_start: "loop_inv s (start_loop now mv s)"
  by (simp add: loop_inv_def start_loop_def dead_letters_ok_def split: option.splits)

lemma loop_inv_poll:
  assumes "loop_inv s lp" "lp_pc lp = AtPoll"
  shows "loop_inv s (poll_batch errs records lp)"
proof (cases "records = []")
  case True
  with assms show ?thesis by (simp add: poll_batch_def loop_inv_def handled_def Let_def)
next
  case False
  let ?lp = "lp\<lparr>lp_metrics := foldl (\<lambda>mv _. inc (m_ConsumeErrors all_metrics) (flow_labels (lp_src lp)) mv) (lp_metrics lp) errs\<rparr>"
  have t: "target_record (lp_src lp) = target_record s"
    using assms by (intro target_record_cong) (auto simp: loop_inv_def)
  from foldl_produce_async [of ?lp records] False obtain rc bc where
    "poll_batch errs records lp = ?lp\<lparr>lp_recCounts := rc, lp_byteCounts := bc, lp_inflight := lp_inflight lp @ records,
        lp_produced := lp_produced lp @ map (target_record s) records, lp_polled := lp_polled lp @ records,
        lp_pc := AtFlush (length records)\<rparr>" "rc \<noteq> []"
    by (auto simp: poll_batch_def Let_def t)
  then show ?thesis using assms False by (auto simp: loop_inv_def handled_def)
qed

lemma loop_inv_exit:
  assumes "loop_inv s lp" "lp_pc lp = AtPoll"
  shows "loop_inv s (exit_loop lp)"
proof (cases "lp_recCounts lp = []")
  case True
  then have "exit_loop lp = lp\<lparr>lp_pc := Exited\<rparr>" "lp_polled lp = []"
    using assms by (simp_all add: exit_loop_def loop_inv_def)
  with assms(1) show ?thesis by (auto simp: loop_inv_def handled_def)
next
  case False
  with assms show ?thesis by (simp add: exit_loop_def flush_counts_panics loop_inv_def handled_def)
qed

lemma loop_inv_flush:
  assumes "loop_inv s lp" "lp_pc lp = AtFlush n"
  shows "loop_inv s (flush_step now n lp)"
proof -
  have "lp_recCounts lp \<noteq> []" using assms by (simp add: loop_inv_def)
  with assms show ?thesis by (simp add: flush_step_def flush_counts_panics loop_inv_def handled_def)
qed

lemma commit_step_frame:
  assumes "commit_step now commitErr n lp = Some lp'"
  shows "\<exists>mv rsc lct c pe. lp' = lp\<lparr>lp_metrics := mv, lp_recordsSinceCommit := rsc, lp_lastCommitTime := lct,
      lp_committed := c, lp_pc := AtPoll, lp_src := (lp_src lp)\<lparr>src_produceErrors := pe\<rparr>\<rparr> \<and>
    (c = lp_committed lp \<or> c = length (lp_polled lp) \<and> lp_inflight lp = [])"
  by (rule exI [of _ "lp_metrics lp'"], rule exI [of _ "lp_recordsSinceCommit lp'"],
      rule exI [of _ "lp_lastCommitTime lp'"], rule exI [of _ "lp_committed lp'"],
      rule exI [of _ "src_produceErrors (lp_src lp')"])
    (use assms in \<open>auto simp: commit_step_def Let_def split: if_splits option.splits\<close>)

lemma loop_inv_commit:
  assumes "loop_inv s lp" "lp_pc lp = AtCommit n" "commit_step now commitErr n lp = Some lp'"
  shows "loop_inv s lp'"
proof -
  have all: "handled lp r" if "r \<in> set (lp_polled lp)" "lp_inflight lp = []" for r
  proof -
    have "mset (lp_polled lp) = mset (map fst (lp_delivered lp)) + mset (lp_failed lp)"
      using assms(1) that(2) by (simp add: loop_inv_def)
    then have "set (lp_polled lp) = set (map fst (lp_delivered lp)) \<union> set (lp_failed lp)"
      by (metis set_mset_mset set_mset_union)
    with that(1) show ?thesis by (auto simp: handled_def)
  qed
  from commit_step_frame [OF assms(3)] obtain mv rsc lct c pe where
    lp': "lp' = lp\<lparr>lp_metrics := mv, lp_recordsSinceCommit := rsc, lp_lastCommitTime := lct, lp_committed := c,
      lp_pc := AtPoll, lp_src := (lp_src lp)\<lparr>src_produceErrors := pe\<rparr>\<rparr>"
    and c: "c = lp_committed lp \<or> c = length (lp_polled lp) \<and> lp_inflight lp = []" by blast
  have "\<forall>r \<in> set (take c (lp_polled lp)). handled lp r" "c \<le> length (lp_polled lp)"
    using c all assms(1) by (auto simp: loop_inv_def)
  then show ?thesis using assms(1) by (simp add: loop_inv_def lp' handled_def)
qed

lemma dead_letters_ok_snoc:
  assumes "dead_letters_ok dlq failed dead"
    and "case dlq of None \<Rightarrow> dl = [] | Some d \<Rightarrow> (if dlq_closed d then dl = []
        else \<exists>e r. dl = [r] \<and> DLQ_Send d (rec_topic record) (rec_partition record) (rec_offset record)
               (rec_key record) (rec_value record) (rec_headers record) e = Some r)"
  shows "dead_letters_ok dlq (failed @ [record]) (dead @ dl)"
  using assms by (auto simp: dead_letters_ok_def intro!: list_all2_appendI split: option.splits if_splits)

lemma loop_inv_settled:
  assumes inv: "loop_inv s lp" and "record \<in> set (lp_inflight lp)" and "settled record lp lp'"
  shows "loop_inv s lp'"
proof -
  have m: "mset (lp_inflight lp) = add_mset record (mset (remove1 record (lp_inflight lp)))"
    using assms(2) by simp
  from assms(3) obtain mv rt wr rss st pe df ff dl where
    lp': "lp' = lp\<lparr>lp_metrics := mv, lp_retried := rt, lp_writes := wr, lp_recordsSinceSync := rss,
                 lp_inflight := remove1 record (lp_inflight lp),
                 lp_src := (lp_src lp)\<lparr>src_syncStore := st, src_produceErrors := pe\<rparr>,
                 lp_delivered := lp_delivered lp @ df, lp_failed := lp_failed lp @ ff, lp_deadLetters := lp_deadLetters lp @ dl\<rparr>"
    and outcome: "(\<exists>off. df = [(record, off)]) \<and> ff = [] \<and> dl = [] \<or>
         df = [] \<and> ff = [record] \<and> (case src_dlq (lp_src lp) of
            None \<Rightarrow> dl = []
          | Some d \<Rightarrow> (if dlq_closed d then dl = []
              else \<exists>e r. dl = [r] \<and> DLQ_Send d (rec_topic record) (rec_partition record) (rec_offset record)
                     (rec_key record) (rec_value record) (rec_headers record) e = Some r))"
    unfolding settled_def by blast
  have acct: "mset (lp_inflight lp) + mset (map fst (lp_delivered lp)) + mset (lp_failed lp) =
      mset (remove1 record (lp_inflight lp)) + mset (map fst (lp_delivered lp @ df)) + mset (lp_failed lp @ ff)"
    unfolding m using outcome by auto
  have "dead_letters_ok (src_dlq s) (lp_failed lp @ ff) (lp_deadLetters lp @ dl)"
    using outcome inv dead_letters_ok_snoc [of "src_dlq s" "lp_failed lp" "lp_deadLetters lp" dl "record"]
    by (auto simp: loop_inv_def)
  with acct inv show ?thesis
    unfolding loop_inv_def lp' handled_def by (simp del: mset_append mset_map mset_remove1) blast
qed

lemma loop_inv_reach: "loop_reach s lp \<Longrightarrow> loop_inv s lp"
proof (induction rule: loop_reach.induct)
  case (reach_step lp lp')
  from reach_step.hyps(2) show ?case
  proof cases
    case (step_callback_panic "record" env res m)
    with reach_step.IH show ?thesis by (auto simp: loop_inv_def handled_def)
  next
    case (step_write os w produce err records kept)
    with reach_step.IH show ?thesis by (auto simp: loop_inv_def handled_def)
  next
    case (step_callback "record" env res)
    with reach_step.IH show ?thesis using loop_inv_settled produce_callback_settled by blast
  qed (use reach_step.IH loop_inv_poll loop_inv_exit loop_inv_flush loop_inv_commit in auto)
qed (rule loop_inv_start)

section \<open>Properties of the replication loop\<close>

text \<open>
  C12. No record is lost track of. In every state the system can reach, whatever the polls, produce
  results, times and interleavings of callbacks: the records polled so far are, with multiplicity,
  those in flight, those delivered to the target and those given up after all retries; the
  producer was handed exactly the translated records, in the order they were polled (topic
  renamed by the policy, partition, key, value, headers and timestamp kept); and with an open
  dead letter queue each given-up record has its dead letter, in order.
\<close>

theorem source_accounts_for_every_record:
  assumes "loop_reach s lp"
  shows "mset (lp_polled lp) = mset (lp_inflight lp) + mset (map fst (lp_delivered lp)) + mset (lp_failed lp) \<and>
    lp_produced lp = map (target_record s) (lp_polled lp) \<and>
    dead_letters_ok (src_dlq s) (lp_failed lp) (lp_deadLetters lp)"
  using loop_inv_reach [OF assms] by (simp add: loop_inv_def)

definition demo_source :: "string Source" where
  "demo_source = \<lparr>src_cfg = demo_flow\<lparr>r_OffsetCommitBatch := 1, r_MaxRetries := 2\<rparr>,
     src_srcCfg = secure_cluster, src_tgtCfg = secure_cluster,
     src_topicFilter = \<lparr>tf_whitelist = [], tf_blacklist = []\<rparr>, src_policy = DefaultPolicy ''.'',
     src_syncStore = Some NewSyncStore, src_syncWriter = None, src_dlq = None, src_consumer = None, src_producer = None,
     src_running = True, src_subscribedTopics = [], src_produceErrors = 0,
     src_retryCfg = \<lparr>rc_MaxRetries = 2, rc_BackoffBase = 1, rc_BackoffMax = 1\<rparr>,
     src_circuitBreaker = NewCircuitBreaker DefaultCircuitBreakerConfig\<rparr>"

definition demo_record :: "int64 \<Rightarrow> Record" where
  "demo_record off = zero_record\<lparr>rec_topic := ''orders'', rec_offset := off\<rparr>"

definition demo_loop :: "string loop" where
  "demo_loop = poll_batch [] [demo_record 5] (start_loop 0 (\<lambda>_. 0) demo_source)"

lemma demo_loop_reach: "loop_reach demo_source demo_loop"
  unfolding demo_loop_def
  by (rule reach_step [OF reach_start [of _ 0 "\<lambda>_. 0"]], rule step_poll) (simp add: start_loop_def)

theorem source_accounts_for_every_record_witness:
  "lp_produced demo_loop = map (target_record demo_source) (lp_polled demo_loop) \<and> lp_polled demo_loop = [demo_record 5]"
proof -
  have "lp_polled demo_loop = [demo_record 5]"
    by (simp add: demo_loop_def poll_batch_def produce_async_def start_loop_def Let_def)
  then show ?thesis using source_accounts_for_every_record [OF demo_loop_reach] by blast
qed


text \<open>The four ways an iteration ends.\<close>

lemma commit_step_simps:
  "\<not> commit_due now n lp \<Longrightarrow>
     commit_step now ce n lp = Some (lp\<lparr>lp_recordsSinceCommit := lp_recordsSinceCommit lp + int n, lp_pc := AtPoll\<rparr>)"
  "commit_due now n lp \<Longrightarrow> lp_inflight lp \<noteq> [] \<or> lp_writes lp \<noteq> [] \<Longrightarrow> commit_step now ce n lp = None"
  by (auto simp: commit_step_def Let_def)

text \<open>
  The commit decision at the end of an iteration. Nothing is committed before it is due, and
  not while a produce or a sync write is in flight; when a produce error was counted since the last
  check, the commit is skipped; otherwise a successful commit covers everything polled so far.
  Either way the error count is zero afterwards, so a skipped commit is skipped only once.
\<close>

lemma commit_decision:
  assumes "commit_step now commitErr n lp = Some lp'"
  shows "lp_pc lp' = AtPoll \<and>
    (\<not> commit_due now n lp \<longrightarrow> lp_committed lp' = lp_committed lp \<and> lp_src lp' = lp_src lp) \<and>
    (commit_due now n lp \<longrightarrow>
       lp_inflight lp = [] \<and> lp_writes lp = [] \<and> src_produceErrors (lp_src lp') = 0 \<and>
       lp_committed lp' =
         (if src_produceErrors (lp_src lp) > 0 \<or> commitErr \<noteq> None then lp_committed lp else length (lp_polled lp)) \<and>
       (lp_recordsSinceCommit lp' = 0 \<longleftrightarrow>
          src_produceErrors (lp_src lp) \<le> 0 \<and> commitErr = None \<or> lp_recordsSinceCommit lp + int n = 0))"
  using assms by (auto simp: commit_step_def Let_def split: if_splits option.splits)

lemma commit_decision_example:
  "let lp = (start_loop 0 (\<lambda>_. 0) (demo_source\<lparr>src_produceErrors := 3\<rparr>)) in
   \<exists>lp'. commit_step 0 None 1 lp = Some lp' \<and> lp_committed lp' = 0 \<and> src_produceErrors (lp_src lp') = 0"
proof -
  let ?lp = "start_loop 0 (\<lambda>_. 0) (demo_source\<lparr>src_produceErrors := 3\<rparr>)"
  have due: "commit_due 0 1 ?lp" by (simp add: commit_due_def start_loop_def demo_source_def)
  then obtain lp' where lp': "commit_step 0 None 1 ?lp = Some lp'"
    by (simp add: commit_step_def Let_def start_loop_def)
  from commit_decision [OF this] due have "lp_committed lp' = 0 \<and> src_produceErrors (lp_src lp') = 0"
    by (simp add: start_loop_def)
  with lp' show ?thesis by (auto simp: Let_def)
qed

section \<open>A run that commits a failed record\<close>

lemma poll_one:
  "\<exists>rc bc. poll_batch [] [r] lp = lp\<lparr>lp_recCounts := rc, lp_byteCounts := bc, lp_inflight := lp_inflight lp @ [r],
     lp_produced := lp_produced lp @ [target_record (lp_src lp) r], lp_polled := lp_polled lp @ [r], lp_pc := AtFlush 1\<rparr>"
  by (rule exI [of _ "lp_recCounts (produce_async lp r)"], rule exI [of _ "lp_byteCounts (produce_async lp r)"])
    (simp add: poll_batch_def produce_async_def Let_def)

lemma flush_not_due: "flush_step (lp_lastMetricFlush lp) n lp = lp\<lparr>lp_pc := AtCommit n\<rparr>"
  by (simp add: flush_step_def Second_def)

lemma callback_delivers:
  assumes "src_syncWriter (lp_src lp) = None \<or> r_OffsetSyncInterval (src_cfg (lp_src lp)) \<noteq> 0"
  shows "\<exists>wr rss. (src_syncWriter (lp_src lp) = None \<longrightarrow> wr = lp_writes lp) \<and>
     produce_callback env (Inr off) r lp = Ret (lp\<lparr>lp_inflight := remove1 r (lp_inflight lp), lp_writes := wr,
       lp_recordsSinceSync := rss, lp_delivered := lp_delivered lp @ [(r, off)],
       lp_src := (lp_src lp)\<lparr>src_syncStore := store_after (lp_src lp) [(r, off)]\<rparr>\<rparr>)"
proof -
  have "\<exists>lp'. produce_callback env (Inr off) r lp = Ret lp'"
    using assms by (cases "src_syncWriter (lp_src lp)") (simp_all add: produce_callback_def on_delivered_def store_sync_def Let_def)
  then obtain lp' where lp': "produce_callback env (Inr off) r lp = Ret lp'" by blast
  show ?thesis
    by (rule exI [of _ "lp_writes lp'"], rule exI [of _ "lp_recordsSinceSync lp'"])
      (use assms lp' in \<open>auto simp: produce_callback_def on_delivered_def store_sync_def store_after_def emits_syncs_def Let_def
        split: if_splits\<close>)
qed

lemma callback_retries:
  assumes "0 \<le> rc_MaxRetries (src_retryCfg (lp_src lp))"
  shows "\<exists>env mv rt. produce_callback env (Inl e) r lp = Ret (lp\<lparr>lp_inflight := remove1 r (lp_inflight lp),
     lp_metrics := mv, lp_retried := rt, lp_delivered := lp_delivered lp @ [(r, off)],
     lp_src := (lp_src lp)\<lparr>src_syncStore := store_after (lp_src lp) [(r, off)]\<rparr>\<rparr>)"
proof -
  define env where "env = \<lparr>re_ctxErr = \<lambda>_. None, re_ctxDone = \<lambda>_. False, re_backoff = \<lambda>_. Ret 0, re_results = \<lambda>_. Inr off\<rparr>"
  define lp1 where "lp1 = lp\<lparr>lp_inflight := remove1 r (lp_inflight lp),
    lp_metrics := inc (m_ProduceErrors all_metrics)
      (flow_labels (lp_src lp) @ [rec_topic (target_record (lp_src lp) r)]) (lp_metrics lp)\<rparr>"
  define mv where "mv = inc (m_RetryAttempts all_metrics) (flow_labels (lp_src lp1) @ [''produce'']) (lp_metrics lp1)"
  define rt where "rt = lp_retried lp1 @ [retry_record (lp_src lp1) r]"
  have ok: "retry_produce r (re_results env) 0 lp1 = (None, lp1\<lparr>lp_metrics := mv, lp_retried := rt,
      lp_delivered := lp_delivered lp @ [(r, off)], lp_src := (lp_src lp)\<lparr>src_syncStore := store_after (lp_src lp) [(r, off)]\<rparr>\<rparr>)"
    by (auto simp: retry_produce_def env_def mv_def rt_def lp1_def store_sync_def store_after_def emits_syncs_def Let_def)
  have "Retry (src_retryCfg (lp_src lp1)) (re_ctxErr env) (re_ctxDone env) (re_backoff env) (retry_produce r (re_results env)) lp1 =
      (Ret None, snd (retry_produce r (re_results env) 0 lp1))"
    using assms ok by (simp add: Retry_def retry_loop.simps [of _ _ _ _ _ 0] env_def lp1_def)
  then have "produce_callback env (Inl e) r lp = Ret (snd (retry_produce r (re_results env) 0 lp1))"
    by (simp add: produce_callback_def lp1_def Let_def)
  then show ?thesis
    by (intro exI [of _ env] exI [of _ mv] exI [of _ rt]) (simp add: ok, simp add: lp1_def)
qed

lemma callback_gives_up:
  assumes "0 \<le> rc_MaxRetries (src_retryCfg (lp_src lp))" "src_dlq (lp_src lp) = None"
  shows "\<exists>env mv rt. produce_callback env (Inl e) r lp = Ret (lp\<lparr>lp_inflight := remove1 r (lp_inflight lp),
     lp_metrics := mv, lp_retried := rt, lp_failed := lp_failed lp @ [r],
     lp_src := (lp_src lp)\<lparr>src_produceErrors := src_produceErrors (lp_src lp) + 1\<rparr>\<rparr>)"
proof -
  define env where "env = \<lparr>re_ctxErr = \<lambda>_. None, re_ctxDone = \<lambda>_. False, re_backoff = \<lambda>_. Ret 0, re_results = \<lambda>_. Inl e\<rparr>"
  define lp1 where "lp1 = lp\<lparr>lp_inflight := remove1 r (lp_inflight lp),
    lp_metrics := inc (m_ProduceErrors all_metrics)
      (flow_labels (lp_src lp) @ [rec_topic (target_record (lp_src lp) r)]) (lp_metrics lp)\<rparr>"
  define n where "n = nat (rc_MaxRetries (src_retryCfg (lp_src lp1)))"
  have n: "int n = rc_MaxRetries (src_retryCfg (lp_src lp1))" using assms(1) by (simp add: n_def lp1_def)
  have fails: "fails (retry_produce r (re_results env)) lp1 j" for j by (simp add: fails_retry_produce env_def)
  have "undisturbed (re_ctxErr env) (re_ctxDone env) (re_backoff env) n" by (simp add: undisturbed_def env_def)
  from retry_exhausted [OF n this, of "retry_produce r (re_results env)" lp1] fails
  obtain err where retry: "Retry (src_retryCfg (lp_src lp1)) (re_ctxErr env) (re_ctxDone env) (re_backoff env)
      (retry_produce r (re_results env)) lp1 = (Ret (Some err), after_calls (retry_produce r (re_results env)) (Suc n) lp1)"
    by auto
  obtain mv rt where after: "after_calls (retry_produce r (re_results env)) (Suc n) lp1 = lp1\<lparr>lp_metrics := mv, lp_retried := rt\<rparr>"
    using after_failed_retries [of "Suc n" r "re_results env" lp1] fails by blast
  have cb: "produce_callback env (Inl e) r lp = Ret (give_up r err (lp1\<lparr>lp_metrics := mv, lp_retried := rt\<rparr>))"
    using retry after by (simp add: produce_callback_def lp1_def Let_def)
  show ?thesis
    by (rule exI [of _ env], rule exI [of _ "inc (m_RetryExhausted all_metrics) (flow_labels (lp_src lp) @ [''produce'']) mv"],
        rule exI [of _ rt]) (simp add: cb give_up_def lp1_def assms(2))
qed

text \<open>The loop between two iterations, with nothing in flight and no error counted.\<close>

definition quiet :: "'re Source \<Rightarrow> 're loop \<Rightarrow> bool" where
  "quiet s lp \<longleftrightarrow> loop_reach s lp \<and> lp_pc lp = AtPoll \<and> lp_inflight lp = [] \<and> lp_writes lp = [] \<and>
     0 \<le> lp_recordsSinceCommit lp \<and> src_produceErrors (lp_src lp) = 0 \<and> src_dlq (lp_src lp) = None \<and>
     src_syncWriter (lp_src lp) = None \<and> 0 \<le> rc_MaxRetries (src_retryCfg (lp_src lp)) \<and>
     r_OffsetCommitBatch (src_cfg (lp_src lp)) \<le> 1"

lemma quiet_to_commit:
  assumes "quiet s lp"
  shows "\<exists>rc bc. loop_reach s (lp\<lparr>lp_recCounts := rc, lp_byteCounts := bc, lp_inflight := [r],
     lp_produced := lp_produced lp @ [target_record (lp_src lp) r], lp_polled := lp_polled lp @ [r], lp_pc := AtCommit 1\<rparr>)"
proof -
  obtain rc bc where poll: "poll_batch [] [r] lp = lp\<lparr>lp_recCounts := rc, lp_byteCounts := bc, lp_inflight := [r],
     lp_produced := lp_produced lp @ [target_record (lp_src lp) r], lp_polled := lp_polled lp @ [r], lp_pc := AtFlush 1\<rparr>"
    using poll_one [of r lp] assms by (auto simp: quiet_def)
  have "loop_reach s (poll_batch [] [r] lp)" using assms by (auto simp: quiet_def intro: reach_step step_poll)
  then have "loop_reach s (flush_step (lp_lastMetricFlush (poll_batch [] [r] lp)) 1 (poll_batch [] [r] lp))"
    by (rule reach_step) (rule step_flush, simp add: poll)
  then show ?thesis unfolding flush_not_due poll by auto
qed

lemma failing_iteration:
  assumes "quiet s lp"
  shows "\<exists>lp'. quiet s lp' \<and> lp_polled lp' = lp_polled lp @ [r] \<and> lp_failed lp' = lp_failed lp @ [r] \<and>
     lp_delivered lp' = lp_delivered lp \<and> lp_deadLetters lp' = lp_deadLetters lp \<and> lp_committed lp' = lp_committed lp"
proof -
  from quiet_to_commit [OF assms] obtain rc bc where
    "loop_reach s (lp\<lparr>lp_recCounts := rc, lp_byteCounts := bc, lp_inflight := [r],
       lp_produced := lp_produced lp @ [target_record (lp_src lp) r], lp_polled := lp_polled lp @ [r], lp_pc := AtCommit 1\<rparr>)"
    (is "loop_reach s ?lp1") by blast
  note r1 = this
  obtain env mv rt where "produce_callback env (Inl Canceled) r ?lp1 = Ret (?lp1\<lparr>lp_inflight := [],
     lp_metrics := mv, lp_retried := rt, lp_failed := lp_failed lp @ [r],
     lp_src := (lp_src lp)\<lparr>src_produceErrors := 1\<rparr>\<rparr>)" (is "_ = Ret ?lp2")
    using callback_gives_up [of ?lp1 Canceled r] assms by (auto simp: quiet_def)
  then have "loop_step ?lp1 ?lp2" by (intro step_callback) simp_all
  note r2 = reach_step [OF r1 this]
  obtain lp3 where lp3: "commit_step 0 None 1 ?lp2 = Some lp3"
    using assms by (simp add: commit_step_def commit_due_def quiet_def Let_def)
  have "loop_reach s lp3" by (rule reach_step [OF r2 step_commit [OF _ lp3]]) simp
  then show ?thesis
    using lp3 assms by (intro exI [of _ lp3]) (auto simp: commit_step_def commit_due_def quiet_def Let_def split: if_splits)
qed

text \<open>A delivery before the commit of its iteration, and the whole iteration.\<close>

lemma delivering_callback:
  assumes "quiet s lp"
  shows "\<exists>lp'. loop_reach s lp' \<and> lp_pc lp' = AtCommit 1 \<and> lp_inflight lp' = [] \<and> lp_writes lp' = [] \<and>
     lp_polled lp' = lp_polled lp @ [r] \<and> lp_failed lp' = lp_failed lp \<and> lp_delivered lp' = lp_delivered lp @ [(r, off)] \<and>
     lp_deadLetters lp' = lp_deadLetters lp \<and> lp_committed lp' = lp_committed lp \<and>
     lp_recordsSinceCommit lp' = lp_recordsSinceCommit lp \<and> (\<exists>st. lp_src lp' = (lp_src lp)\<lparr>src_syncStore := st\<rparr>)"
proof -
  from quiet_to_commit [OF assms] obtain rc bc where
    "loop_reach s (lp\<lparr>lp_recCounts := rc, lp_byteCounts := bc, lp_inflight := [r],
       lp_produced := lp_produced lp @ [target_record (lp_src lp) r], lp_polled := lp_polled lp @ [r], lp_pc := AtCommit 1\<rparr>)"
    (is "loop_reach s ?lp1") by blast
  note r1 = this
  obtain rss where "produce_callback undefined (Inr off) r ?lp1 = Ret (?lp1\<lparr>lp_inflight := [], lp_writes := [],
     lp_recordsSinceSync := rss, lp_delivered := lp_delivered lp @ [(r, off)],
     lp_src := (lp_src lp)\<lparr>src_syncStore := store_after (lp_src lp) [(r, off)]\<rparr>\<rparr>)" (is "_ = Ret ?lp2")
    using callback_delivers [of ?lp1 undefined off r] assms by (auto simp: quiet_def)
  then have "loop_step ?lp1 ?lp2" by (intro step_callback) simp_all
  from reach_step [OF r1 this] show ?thesis by (intro exI [of _ ?lp2]) auto
qed

lemma delivering_iteration:
  assumes "quiet s lp"
  shows "\<exists>lp'. quiet s lp' \<and> lp_polled lp' = lp_polled lp @ [r] \<and> lp_failed lp' = lp_failed lp \<and>
     lp_delivered lp' = lp_delivered lp @ [(r, off)] \<and> lp_deadLetters lp' = lp_deadLetters lp \<and>
     lp_committed lp' = length (lp_polled lp')"
proof -
  obtain lp2 where lp2: "loop_reach s lp2" "lp_pc lp2 = AtCommit 1" "lp_inflight lp2 = []" "lp_writes lp2 = []"
    "lp_polled lp2 = lp_polled lp @ [r]" "lp_failed lp2 = lp_failed lp" "lp_delivered lp2 = lp_delivered lp @ [(r, off)]"
    "lp_deadLetters lp2 = lp_deadLetters lp" "lp_recordsSinceCommit lp2 = lp_recordsSinceCommit lp"
    "\<exists>st. lp_src lp2 = (lp_src lp)\<lparr>src_syncStore := st\<rparr>"
    using delivering_callback [OF assms, of r off] by blast
  obtain lp3 where lp3: "commit_step 0 None 1 lp2 = Some lp3"
    using assms lp2 by (auto simp: commit_step_def commit_due_def quiet_def Let_def)
  have "loop_reach s lp3" by (rule reach_step [OF lp2(1) step_commit [OF lp2(2) lp3]])
  then show ?thesis
    using lp3 lp2 assms by (intro exI [of _ lp3]) (auto simp: commit_step_def commit_due_def quiet_def Let_def split: if_splits)
qed

lemma quiet_start:
  assumes "src_dlq s = None" "src_syncWriter s = None" "src_produceErrors s = 0"
    "0 \<le> rc_MaxRetries (src_retryCfg s)" "r_OffsetCommitBatch (src_cfg s) \<le> 1"
  shows "quiet s (start_loop now mv s)"
  using assms loop_reach.reach_start [of s now mv] by (simp add: quiet_def start_loop_def)

lemma failed_then_delivered:
  assumes "src_dlq s = None" "src_syncWriter s = None" "src_produceErrors s = 0"
    "0 \<le> rc_MaxRetries (src_retryCfg s)" "r_OffsetCommitBatch (src_cfg s) \<le> 1"
  shows "\<exists>lp. loop_reach s lp \<and> lp_polled lp = [r1, r2] \<and> lp_failed lp = [r1] \<and> lp_delivered lp = [(r2, off)] \<and>
     lp_deadLetters lp = [] \<and> lp_committed lp = 2"
proof -
  obtain lp1 where lp1: "quiet s lp1" "lp_polled lp1 = [r1]" "lp_failed lp1 = [r1]" "lp_delivered lp1 = []"
    "lp_deadLetters lp1 = []"
    using failing_iteration [OF quiet_start [OF assms, of 0 "\<lambda>_. 0"], of r1] by (auto simp: start_loop_def)
  from delivering_iteration [OF lp1(1), of r2 off] lp1 show ?thesis by (auto simp: quiet_def)
qed

text \<open>
  C35. The offset of a lost record is committed. For any flow without a dead letter queue that
  commits after every record, and any two records: if the first is given up after all its
  retries and the second is delivered, the system reaches a state in which both offsets are
  committed although the first record is neither on the target nor in a queue; a restart does
  not consume it again. The skipped commit of the first iteration forgot the error.
\<close>

theorem lost_record_is_committed:
  assumes "src_dlq s = None" and "src_syncWriter s = None" and "src_produceErrors s = 0"
    and "0 \<le> rc_MaxRetries (src_retryCfg s)" and "r_OffsetCommitBatch (src_cfg s) \<le> 1" and "r1 \<noteq> r2"
  shows "\<exists>lp. loop_reach s lp \<and> r1 \<in> set (take (lp_committed lp) (lp_polled lp)) \<and>
     r1 \<notin> fst ` set (lp_delivered lp) \<and> r1 \<in> set (lp_failed lp) \<and> lp_deadLetters lp = [] \<and> lp_inflight lp = []"
proof -
  obtain lp where lp: "loop_reach s lp" "lp_polled lp = [r1, r2]" "lp_failed lp = [r1]" "lp_delivered lp = [(r2, 0)]"
    "lp_deadLetters lp = []" "lp_committed lp = 2"
    using failed_then_delivered [OF assms(1-5), of r1 r2 0] by blast
  have "lp_inflight lp = []" using loop_inv_reach [OF lp(1)] lp by (simp add: loop_inv_def)
  with lp assms(6) show ?thesis by (intro exI [of _ lp]) simp
qed

lemmas demo_source_simps = demo_source_def demo_flow_def zero_replication_def

theorem lost_record_is_committed_witness:
  "\<exists>lp. loop_reach demo_source lp \<and> demo_record 5 \<in> set (take (lp_committed lp) (lp_polled lp)) \<and>
     demo_record 5 \<notin> fst ` set (lp_delivered lp)"
proof -
  have "demo_record 5 \<noteq> demo_record 6" by (simp add: demo_record_def zero_record_def)
  then show ?thesis
    using lost_record_is_committed [of demo_source "demo_record 5" "demo_record 6"] by (auto simp: demo_source_simps)
qed


text \<open>
  C36. The loop cannot survive a metrics flush. Once a record has been polled, the next flush that
  is due (five seconds after the last one) crashes the process, because the counters of
  replicated records and bytes are called with four label values but declared with three; so does
  the flush when the loop exits, and a loop that exited normally never polled a record.
\<close>

theorem metrics_flush_crashes:
  assumes "loop_reach s lp"
  shows "(lp_pc lp = AtFlush n \<and> now - lp_lastMetricFlush lp \<ge> 5 * Second \<longrightarrow>
            lp_pc (flush_step now n lp) = Crashed ''inconsistent label cardinality'') \<and>
         (lp_pc lp = AtPoll \<and> lp_polled lp \<noteq> [] \<longrightarrow>
            lp_pc (exit_loop lp) = Crashed ''inconsistent label cardinality'') \<and>
         (lp_pc lp = Exited \<longrightarrow> lp_polled lp = [])"
  using loop_inv_reach [OF assms]
  by (auto simp: loop_inv_def flush_step_def exit_loop_def flush_counts_panics)

theorem metrics_flush_crashes_witness:
  "lp_pc (flush_step (5 * Second) 1 demo_loop) = Crashed ''inconsistent label cardinality''"
proof -
  have "lp_pc demo_loop = AtFlush 1" "lp_lastMetricFlush demo_loop = 0"
    by (simp_all add: demo_loop_def poll_batch_def produce_async_def start_loop_def Let_def)
  then show ?thesis using metrics_flush_crashes [OF demo_loop_reach, of 1 "5 * Second"] by simp
qed

section \<open>Keys, subscriptions, life cycle\<close>

lemma split_key_at_append:
  assumes "CHR '':'' \<notin> set p" "n \<le> length p"
  shows "split_key_at (t @ '':'' @ p) (length t + 1 + n) = (t, p)"
  using assms(2)
proof (induction n)
  case (Suc n)
  then have "(t @ '':'' @ p) ! (length t + 1 + n) = p ! n" by (simp add: nth_append)
  then have "(t @ '':'' @ p) ! (length t + 1 + n) \<noteq> CHR '':''" using Suc.prems assms(1) by (metis Suc_le_lessD nth_mem)
  with Suc show ?case by simp
qed simp

lemma itoa_no_colon: "CHR '':'' \<notin> set (itoa i)"
  using itoa_chars [of "CHR '':''" i] by auto

text \<open>
  The key \<open>topic:partition\<close> of the local counters is split back into exactly the target topic
  and the partition, also for topics that contain colons, so counts of different topics or
  partitions are never mixed up.
\<close>

lemma metrics_key_roundtrip:
  "split_key (metricsKey s r) = (rec_topic (target_record s r), itoa (sint (rec_partition r))) \<and>
   (metricsKey s r = metricsKey s r' \<longleftrightarrow>
      rec_topic (target_record s r) = rec_topic (target_record s r') \<and> rec_partition r = rec_partition r')"
proof -
  have split: "split_key (metricsKey s r) = (rec_topic (target_record s r), itoa (sint (rec_partition r)))" for r
    using split_key_at_append [OF itoa_no_colon order_refl, of "rec_topic (target_record s r)" "sint (rec_partition r)"]
    by (simp add: split_key_def metricsKey_def)
  moreover from split [of r] split [of r'] have "metricsKey s r = metricsKey s r' \<Longrightarrow>
      rec_topic (target_record s r) = rec_topic (target_record s r') \<and> rec_partition r = rec_partition r'"
    by (auto simp: sint_inj32)
  ultimately show ?thesis by (auto simp: metricsKey_def)
qed

lemma subscribe_new_spec:
  assumes "subscribe_new ts subscribed new = (subscribed', new')"
  shows "\<exists>xs. subscribed' = subscribed @ xs \<and> new' = new @ xs \<and> distinct xs \<and> set xs = set ts - set subscribed"
  using assms
proof (induction ts subscribed new rule: subscribe_new.induct)
  case (2 t ts subscribed new)
  show ?case
  proof (cases "t \<in> set subscribed")
    case False
    with 2 obtain xs where "subscribed' = subscribed @ t # xs" "new' = new @ t # xs" "distinct xs"
      "set xs = set ts - insert t (set subscribed)" by auto
    with False show ?thesis by (intro exI [of _ "t # xs"]) auto
  qed (use 2 in auto)
qed simp

text \<open>
  Dynamic subscription: once the consumer exists, \<open>UpdateTopics\<close> adds to it exactly the topics it
  was not subscribed to yet, each once; the subscription stays free of duplicates, only grows, and
  calling again with the same topics adds nothing. Before \<open>Start\<close> it does nothing.
\<close>

lemma update_topics_adds_new:
  "(src_consumer s \<noteq> None \<longrightarrow>
      set (snd (UpdateTopics ts s)) = set ts - set (src_subscribedTopics s) \<and> distinct (snd (UpdateTopics ts s)) \<and>
      src_subscribedTopics (fst (UpdateTopics ts s)) = src_subscribedTopics s @ snd (UpdateTopics ts s) \<and>
      (distinct (src_subscribedTopics s) \<longrightarrow> distinct (src_subscribedTopics (fst (UpdateTopics ts s)))) \<and>
      snd (UpdateTopics ts (fst (UpdateTopics ts s))) = []) \<and>
   (src_consumer s = None \<longrightarrow> UpdateTopics ts s = (s, []))"
proof (intro conjI impI)
  assume c: "src_consumer s \<noteq> None"
  have spec: "set (snd (UpdateTopics ts s')) = set ts - set (src_subscribedTopics s') \<and> distinct (snd (UpdateTopics ts s')) \<and>
      src_subscribedTopics (fst (UpdateTopics ts s')) = src_subscribedTopics s' @ snd (UpdateTopics ts s') \<and>
      src_consumer (fst (UpdateTopics ts s')) = src_consumer s'" if "src_consumer s' \<noteq> None" for s' :: "'a Source"
    using that subscribe_new_spec [of ts "src_subscribedTopics s'" "[]"]
    by (cases "subscribe_new ts (src_subscribedTopics s') []") (auto simp: UpdateTopics_def)
  note s1 = spec [OF c]
  show "set (snd (UpdateTopics ts s)) = set ts - set (src_subscribedTopics s)" "distinct (snd (UpdateTopics ts s))"
    "src_subscribedTopics (fst (UpdateTopics ts s)) = src_subscribedTopics s @ snd (UpdateTopics ts s)" using s1 by auto
  show "distinct (src_subscribedTopics (fst (UpdateTopics ts s)))" if "distinct (src_subscribedTopics s)" using s1 that by auto
  have "src_consumer (fst (UpdateTopics ts s)) \<noteq> None" using s1 c by simp
  from spec [OF this] s1 have "set (snd (UpdateTopics ts (fst (UpdateTopics ts s)))) = {}" by auto
  then show "snd (UpdateTopics ts (fst (UpdateTopics ts s))) = []" by simp
qed (simp add: UpdateTopics_def)

lemma update_topics_adds_new_example:
  "set (snd (UpdateTopics [''a'', ''b'', ''a''] (demo_source\<lparr>src_consumer := Some [], src_subscribedTopics := [''b'']\<rparr>))) = {''a''}"
  using update_topics_adds_new [of "demo_source\<lparr>src_consumer := Some [], src_subscribedTopics := [''b'']\<rparr>" "[''a'', ''b'', ''a'']"]
  by auto

end
