(* ===== verification/Parallel_Source.thy ===== *)
theory Parallel_Source
  imports Ring_Buffer Source_Replicator
begin

text \<open>
  \<open>internal/mirror/parallel_source.go\<close>: the parallel catch-up of partitions with a high lag. Each
  partition's range of offsets is cut into segments, one fetcher per segment puts its records
  into the partition's ring buffer, and one drainer produces them to the target. The fetcher is
  a function of its polls and of what \<open>Put\<close> answers, the drainer of what \<open>DrainBatch\<close> returns.
\<close>

section \<open>State\<close>

record ParallelSource =
  ps_cfg :: ReplicationConfig
  ps_srcCfg :: ClusterConfig
  ps_tgtCfg :: ClusterConfig
  ps_policy :: ReplicationPolicy
  ps_workers :: int
  ps_fetchMaxPartBytes :: int
  ps_ringBufferCapacity :: int
  ps_totalBytes :: int
  ps_totalRecords :: int
  ps_dlq :: "DLQ option"
  ps_retryCfg :: RetryConfig
  ps_circuitBreaker :: CircuitBreaker

definition NewParallelSource :: "build_env \<Rightarrow> (kgo_opt list \<Rightarrow> go_error option) \<Rightarrow> ReplicationConfig
    \<Rightarrow> ClusterConfig \<Rightarrow> ClusterConfig \<Rightarrow> int \<Rightarrow> go_error + ParallelSource" where
  "NewParallelSource env newClient cfg srcCfg tgtCfg workers =
     (case NewPolicy (r_ReplicationPolicy cfg) (r_Separator cfg) of
        Inl err \<Rightarrow> Inl (Wrapf ''create replication policy: %w'' [] err)
      | Inr pol \<Rightarrow>
          Inr \<lparr>ps_cfg = cfg, ps_srcCfg = srcCfg, ps_tgtCfg = tgtCfg, ps_policy = pol,
               ps_workers = (if workers < 2 then 2 else workers),
               ps_fetchMaxPartBytes = (if r_FetchMaxPartitionBytes cfg \<le> 0 then 5 * 1024 * 1024 else r_FetchMaxPartitionBytes cfg),
               ps_ringBufferCapacity = (if r_RingBufferCapacity cfg \<le> 0 then 16384 else r_RingBufferCapacity cfg),
               ps_totalBytes = 0, ps_totalRecords = 0, ps_dlq = flow_dlq env newClient cfg tgtCfg,
               ps_retryCfg = flow_retry_config cfg,
               ps_circuitBreaker = NewCircuitBreaker DefaultCircuitBreakerConfig\<rparr>)"

section \<open>Segments\<close>

text \<open>The effective number of workers and the segment size for a range.\<close>

definition segment_size :: "int \<Rightarrow> int \<Rightarrow> int \<times> int" where
  "segment_size workers totalRange =
     (let segmentSize = go_div totalRange workers
      in if segmentSize < 1000 then (1, totalRange) else (workers, segmentSize))"

text \<open>The loop over the workers, which stops at the first segment that starts past the end.\<close>

definition plan_segments :: "int \<Rightarrow> int \<Rightarrow> int \<Rightarrow> (nat \<times> int \<times> int) list" where
  "plan_segments workers startOffset endOffset =
     (let totalRange = endOffset - startOffset in
      if totalRange \<le> 0 then []
      else let (effectiveWorkers, segmentSize) = segment_size workers totalRange
           in takeWhile (\<lambda>(i, segStart, segEnd). segStart < endOffset)
                (map (\<lambda>i. let segStart = startOffset + int i * segmentSize
                          in (i, segStart, if int i = effectiveWorkers - 1 then endOffset else segStart + segmentSize))
                   [0..<nat effectiveWorkers]))"

definition ring_capacity :: "int \<Rightarrow> int \<Rightarrow> int" where
  "ring_capacity ringBufferCapacity totalRange =
     (if totalRange < ringBufferCapacity then totalRange + 1 else ringBufferCapacity)"

section \<open>Fetcher\<close>

definition fetch_opts :: "ParallelSource \<Rightarrow> string \<Rightarrow> int32 \<Rightarrow> int64 \<Rightarrow> kgo_opt list" where
  "fetch_opts ps topic part fromOffset =
     (let fetchMaxPart = word_of_int (ps_fetchMaxPartBytes ps)
      in [ConsumePartitions topic part fromOffset, FetchMaxBytes (2 * fetchMaxPart), FetchMaxPartitionBytes fetchMaxPart,
          FetchMinBytes (256 * 1024), FetchMaxWait (200 * Millisecond)])"

text \<open>The record loop: the records it puts and whether the fetcher returns. \<open>put_ok\<close> is what \<open>Put\<close> answers.\<close>

fun fetch_records :: "int \<Rightarrow> (Record \<Rightarrow> bool) \<Rightarrow> Record list \<Rightarrow> Record list \<times> bool" where
  "fetch_records toOffset put_ok [] = ([], False)"
| "fetch_records toOffset put_ok (r # rs) =
     (if sint (rec_offset r) \<ge> toOffset then ([], True)
      else if \<not> put_ok r then ([], True)
      else let (puts, ret) = fetch_records toOffset put_ok rs in (r # puts, ret))"

text \<open>
  One poll: the fetcher returns (with an error after ten polls in a row with errors), goes on polling with
  an updated error count, or has records to put, which resets the count. \<open>poll_ctx\<close> is \<open>ctx.Err()\<close>
  at the head of the iteration.
\<close>

datatype fetched = FetchReturn "go_error option" | FetchAgain int | FetchRecords "Record list"

definition fetch_poll :: "nat \<Rightarrow> int \<Rightarrow> Poll \<Rightarrow> fetched" where
  "fetch_poll wid errs p =
     (if poll_ctx p \<noteq> None then FetchReturn None
      else
        let errs' = (if poll_errors p \<noteq> [] then errs + 1 else errs)
        in if poll_errors p \<noteq> [] \<and> errs' \<ge> 10
           then FetchReturn (Some (Errorf ''fetcher %d: %d consecutive fetch errors, last: %v''
                  [itoa (int wid), itoa errs', err_text (last (poll_errors p))]))
           else if poll_records p = [] then FetchAgain errs'
           else FetchRecords (poll_records p))"

text \<open>The check after the records of a poll: the last one was the end of the segment.\<close>

definition segment_done :: "int \<Rightarrow> Record list \<Rightarrow> bool" where
  "segment_done toOffset records \<longleftrightarrow> sint (rec_offset (last records)) \<ge> toOffset - 1"

text \<open>
  The poll loop. The result is the error it returns (\<open>None\<close>: still polling after the listed polls) and
  the records it has put.
\<close>

fun fetch_loop :: "nat \<Rightarrow> int \<Rightarrow> (Record \<Rightarrow> bool) \<Rightarrow> int \<Rightarrow> Poll list \<Rightarrow> go_error option option \<times> Record list" where
  "fetch_loop wid toOffset put_ok errs [] = (None, [])"
| "fetch_loop wid toOffset put_ok errs (p # ps) =
     (case fetch_poll wid errs p of
        FetchReturn res \<Rightarrow> (Some res, [])
      | FetchAgain errs' \<Rightarrow> fetch_loop wid toOffset put_ok errs' ps
      | FetchRecords records \<Rightarrow>
          let (puts, ret) = fetch_records toOffset put_ok records
          in if ret \<or> segment_done toOffset records then (Some None, puts)
             else let (res, puts') = fetch_loop wid toOffset put_ok 0 ps in (res, puts @ puts'))"

text \<open>The client of a fetcher: the error with which the worker returns, if it cannot be made.\<close>

definition fetch_connect :: "build_env \<Rightarrow> (kgo_opt list \<Rightarrow> go_error option) \<Rightarrow> ParallelSource \<Rightarrow> string \<Rightarrow> int32
    \<Rightarrow> int \<Rightarrow> go_error option" where
  "fetch_connect env newClient ps topic part fromOffset =
     (case BuildClientOpts env (ps_srcCfg ps) of
        Inl err \<Rightarrow> Some (Wrapf ''build source opts: %w'' [] err)
      | Inr srcOpts \<Rightarrow>
          map_option (Wrapf ''create consumer: %w'' [])
            (newClient (srcOpts @ fetch_opts ps topic part (word_of_int fromOffset))))"

definition fetchWorker :: "build_env \<Rightarrow> (kgo_opt list \<Rightarrow> go_error option) \<Rightarrow> ParallelSource \<Rightarrow> nat \<Rightarrow> string \<Rightarrow> int32
    \<Rightarrow> int \<Rightarrow> int \<Rightarrow> (Record \<Rightarrow> bool) \<Rightarrow> Poll list \<Rightarrow> go_error option option \<times> Record list" where
  "fetchWorker env newClient ps wid topic part fromOffset toOffset put_ok polls =
     (case fetch_connect env newClient ps topic part fromOffset of
        Some err \<Rightarrow> (Some (Some err), [])
      | None \<Rightarrow> fetch_loop wid toOffset put_ok 0 polls)"

section \<open>Drainer\<close>

record drain_state =
  ds_produceErrors :: int
  ds_periodBytes :: int
  ds_periodRecs :: int
  ds_totalBytes :: int
  ds_totalRecs :: int
  ds_lastLogTime :: int
  ds_metrics :: metric_values
  ds_produced :: "Record list"
  ds_deadLetters :: "Record list"

definition drain_target_record :: "string \<Rightarrow> int32 \<Rightarrow> Record \<Rightarrow> Record" where
  "drain_target_record targetTopic part record = zero_record\<lparr>rec_topic := targetTopic, rec_partition := part,
     rec_key := rec_key record, rec_value := rec_value record, rec_headers := rec_headers record,
     rec_timestamp := rec_timestamp record\<rparr>"

definition drain_one :: "string \<Rightarrow> int32 \<Rightarrow> drain_state \<Rightarrow> Record \<Rightarrow> drain_state" where
  "drain_one targetTopic part ds record =
     (let recBytes = int (length (rec_value record)) + int (length (rec_key record))
      in ds\<lparr>ds_periodBytes := ds_periodBytes ds + recBytes, ds_periodRecs := ds_periodRecs ds + 1,
            ds_totalBytes := ds_totalBytes ds + recBytes, ds_totalRecs := ds_totalRecs ds + 1,
            ds_produced := ds_produced ds @ [drain_target_record targetTopic part record]\<rparr>)"

text \<open>The callback of a failed produce: retry, then give up and send to the queue.\<close>

definition drain_retry :: "ParallelSource \<Rightarrow> (nat \<Rightarrow> go_error + int64) \<Rightarrow> nat \<Rightarrow> drain_state \<Rightarrow> go_error option \<times> drain_state" where
  "drain_retry ps results k ds =
     (let ds = ds\<lparr>ds_metrics := inc (m_RetryAttempts all_metrics)
                   [r_Source (ps_cfg ps), r_Target (ps_cfg ps), ''produce''] (ds_metrics ds)\<rparr>
      in case results k of Inl e \<Rightarrow> (Some e, ds) | Inr _ \<Rightarrow> (None, ds))"

definition drain_callback :: "ParallelSource \<Rightarrow> retry_env \<Rightarrow> string \<Rightarrow> string \<Rightarrow> int32 \<Rightarrow> go_error option \<Rightarrow> Record
    \<Rightarrow> drain_state \<Rightarrow> drain_state outcome" where
  "drain_callback ps env targetTopic sourceTopic part err record ds =
     (case err of
        None \<Rightarrow> Ret ds
      | Some _ \<Rightarrow>
          (let ds = ds\<lparr>ds_metrics := inc (m_ProduceErrors all_metrics)
                        [r_Source (ps_cfg ps), r_Target (ps_cfg ps), targetTopic] (ds_metrics ds)\<rparr>
           in case Retry (ps_retryCfg ps) (re_ctxErr env) (re_ctxDone env) (re_backoff env) (drain_retry ps (re_results env)) ds of
                (Ret None, ds') \<Rightarrow> Ret ds'
              | (Ret (Some retryErr), ds') \<Rightarrow>
                  Ret (ds'\<lparr>ds_produceErrors := ds_produceErrors ds' + 1,
                           ds_metrics := inc (m_RetryExhausted all_metrics)
                             [r_Source (ps_cfg ps), r_Target (ps_cfg ps), ''produce''] (ds_metrics ds'),
                           ds_deadLetters := ds_deadLetters ds' @ (case ps_dlq ps of
                               None \<Rightarrow> []
                             | Some d \<Rightarrow> (case DLQ_Send d sourceTopic part (rec_offset record) (rec_key record)
                                            (rec_value record) (rec_headers record) retryErr of
                                 None \<Rightarrow> [] | Some r \<Rightarrow> [r]))\<rparr>)
              | (Fail e, _) \<Rightarrow> Fail e
              | (Panic m, _) \<Rightarrow> Panic m))"

text \<open>
  The fate of a produced record as the target cluster sees it: lost if the produce failed and no attempt of the
  retry that follows is acknowledged. It does not look at what the callback counts.
\<close>

definition produce_lost :: "ParallelSource \<Rightarrow> retry_env \<Rightarrow> go_error option \<Rightarrow> bool" where
  "produce_lost ps env err \<longleftrightarrow> err \<noteq> None \<and>
     fst (Retry (ps_retryCfg ps) (re_ctxErr env) (re_ctxDone env) (re_backoff env)
       (\<lambda>k s. (case re_results env k of Inl e \<Rightarrow> Some e | Inr _ \<Rightarrow> None, s)) ()) \<noteq> Ret None"

definition drain_flush :: "ParallelSource \<Rightarrow> string \<Rightarrow> int32 \<Rightarrow> drain_state \<Rightarrow> drain_state outcome" where
  "drain_flush ps targetTopic part ds =
     (let labels = [r_Source (ps_cfg ps), r_Target (ps_cfg ps), targetTopic, itoa (sint part)]
      in case add_metric (m_RecordsReplicated all_metrics) labels (ds_periodRecs ds) (ds_metrics ds) of
           Ret mv \<Rightarrow>
             (case add_metric (m_BytesReplicated all_metrics) labels (ds_periodBytes ds) mv of
                Ret mv' \<Rightarrow> Ret (ds\<lparr>ds_metrics := mv', ds_periodBytes := 0, ds_periodRecs := 0\<rparr>)
              | Fail e \<Rightarrow> Fail e | Panic m \<Rightarrow> Panic m)
         | Fail e \<Rightarrow> Fail e | Panic m \<Rightarrow> Panic m)"

text \<open>
  One batch: its records are produced, and the counters flushed when ten seconds have passed. A nil
  record in a batch would be dereferenced.
\<close>

definition drain_batch :: "ParallelSource \<Rightarrow> string \<Rightarrow> int32 \<Rightarrow> Record option list \<Rightarrow> int \<Rightarrow> drain_state \<Rightarrow> drain_state outcome" where
  "drain_batch ps targetTopic part batch now ds =
     (if None \<in> set batch then Panic ''invalid memory address or nil pointer dereference''
      else
        let ds = foldl (drain_one targetTopic part) ds (map the batch)
        in if now - ds_lastLogTime ds > 10 * Second then
             (case drain_flush ps targetTopic part ds of
                Ret ds' \<Rightarrow> Ret (ds'\<lparr>ds_lastLogTime := now\<rparr>)
              | Fail e \<Rightarrow> Fail e | Panic m \<Rightarrow> Panic m)
           else Ret ds)"

text \<open>
  The drain loop over the answers of \<open>DrainBatch\<close>: \<open>ctx.Err()\<close>, batch and flag, and the time after the
  batch.
\<close>

fun drain_rounds :: "ParallelSource \<Rightarrow> string \<Rightarrow> int32 \<Rightarrow> (go_error option \<times> (Record option list \<times> bool) \<times> int) list
    \<Rightarrow> drain_state \<Rightarrow> drain_state outcome" where
  "drain_rounds ps targetTopic part [] ds = Ret ds"
| "drain_rounds ps targetTopic part ((ctxErr, (batch, ok), now) # rounds) ds =
     (if ctxErr \<noteq> None then Ret ds
      else if \<not> ok \<or> batch = [] then Ret ds
      else (case drain_batch ps targetTopic part batch now ds of
          Ret ds' \<Rightarrow> drain_rounds ps targetTopic part rounds ds'
        | Fail e \<Rightarrow> Fail e | Panic m \<Rightarrow> Panic m))"

text \<open>
  The callbacks of the produced records, each with what its retries see, the result and the record.
  They run on the producer's goroutines while the loop goes on; they touch only the error counter, the
  metrics of errors and retries and the dead letters, none of which the loop reads or writes, so
  running them at the \<open>inflight.Wait()\<close> leaves the same state.
\<close>

fun drain_callbacks :: "ParallelSource \<Rightarrow> string \<Rightarrow> string \<Rightarrow> int32 \<Rightarrow> (retry_env \<times> go_error option \<times> Record) list
    \<Rightarrow> drain_state \<Rightarrow> drain_state outcome" where
  "drain_callbacks ps targetTopic sourceTopic part [] ds = Ret ds"
| "drain_callbacks ps targetTopic sourceTopic part ((env, err, record) # cbs) ds =
     (case drain_callback ps env targetTopic sourceTopic part err record ds of
        Ret ds' \<Rightarrow> drain_callbacks ps targetTopic sourceTopic part cbs ds'
      | Fail e \<Rightarrow> Fail e | Panic m \<Rightarrow> Panic m)"

text \<open>After the loop and the last callback: the rest of the counters, and the totals of all partitions.\<close>

definition drain_finish :: "ParallelSource \<Rightarrow> string \<Rightarrow> int32 \<Rightarrow> drain_state \<Rightarrow> (ParallelSource \<times> drain_state) outcome" where
  "drain_finish ps targetTopic part ds =
     (case (if ds_periodRecs ds > 0 then drain_flush ps targetTopic part ds else Ret ds) of
        Ret ds' \<Rightarrow> Ret (ps\<lparr>ps_totalBytes := ps_totalBytes ps + ds_totalBytes ds',
                          ps_totalRecords := ps_totalRecords ps + ds_totalRecs ds'\<rparr>, ds')
      | Fail e \<Rightarrow> Fail e | Panic m \<Rightarrow> Panic m)"

definition drain_start :: "int \<Rightarrow> metric_values \<Rightarrow> drain_state" where
  "drain_start now mv = \<lparr>ds_produceErrors = 0, ds_periodBytes = 0, ds_periodRecs = 0,
     ds_totalBytes = 0, ds_totalRecs = 0, ds_lastLogTime = now, ds_metrics = mv, ds_produced = [], ds_deadLetters = []\<rparr>"

definition drainPartition :: "ParallelSource \<Rightarrow> string \<Rightarrow> string \<Rightarrow> int32 \<Rightarrow> int \<Rightarrow> metric_values
    \<Rightarrow> (go_error option \<times> (Record option list \<times> bool) \<times> int) list \<Rightarrow> (retry_env \<times> go_error option \<times> Record) list
    \<Rightarrow> (ParallelSource \<times> drain_state) outcome" where
  "drainPartition ps targetTopic sourceTopic part now mv rounds callbacks =
     (case drain_rounds ps targetTopic part rounds (drain_start now mv) of
        Ret ds \<Rightarrow>
          (case drain_callbacks ps targetTopic sourceTopic part callbacks ds of
             Ret ds \<Rightarrow> drain_finish ps targetTopic part ds
           | Fail e \<Rightarrow> Fail e | Panic m \<Rightarrow> Panic m)
      | Fail e \<Rightarrow> Fail e | Panic m \<Rightarrow> Panic m)"

section \<open>Catch-up and lag\<close>

definition catch_up_producer_opts :: "kgo_opt list" where
  "catch_up_producer_opts =
     [ProducerBatchMaxBytes 1048576, ProducerLinger (5 * Millisecond), RecordPartitioner_Manual, RequiredAcks_AllISR,
      ProducerBatchCompression Lz4Compression, MaxProduceRequestsInflightPerBroker 20, MaxBufferedRecords 500000]"

text \<open>
  \<open>catchUpPartitionPipelined\<close> sets up the pipeline of one partition: the ring buffer (a panic here ends
  the process), the target topic for the drainer and the segments of the fetchers, or nothing for
  an empty range. The goroutines it starts, and the closing of the buffer when all fetchers are done, are
  the steps of the theory \<open>Catch_Up_Pipeline\<close>.
\<close>

record pipeline =
  pl_partition :: int32
  pl_start :: int
  pl_end :: int
  pl_ring :: "OrderedRingBuffer outcome"
  pl_targetTopic :: string
  pl_segments :: "(nat \<times> int \<times> int) list"

definition catchUpPartitionPipelined :: "ParallelSource \<Rightarrow> string \<Rightarrow> int32 \<Rightarrow> int \<Rightarrow> int \<Rightarrow> pipeline option" where
  "catchUpPartitionPipelined ps topic part startOffset endOffset =
     (let totalRange = endOffset - startOffset in
      if totalRange \<le> 0 then None
      else Some \<lparr>pl_partition = part, pl_start = startOffset, pl_end = endOffset,
        pl_ring = NewOrderedRingBuffer (ring_capacity (ps_ringBufferCapacity ps) totalRange) startOffset,
        pl_targetTopic = FormatRemoteTopic (ps_policy ps) (r_Source (ps_cfg ps)) topic,
        pl_segments = plan_segments (ps_workers ps) startOffset endOffset\<rparr>)"

text \<open>\<open>CatchUpMultiPartition\<close>: its error, and the pipelines it launches.\<close>

definition CatchUpMultiPartition :: "build_env \<Rightarrow> (kgo_opt list \<Rightarrow> go_error option) \<Rightarrow> (int32 \<times> int \<times> int) list \<Rightarrow> string
    \<Rightarrow> ParallelSource \<Rightarrow> go_error option \<times> ParallelSource \<times> pipeline list" where
  "CatchUpMultiPartition env newClient partitionLags topic ps =
     (if partitionLags = [] then (None, ps, [])
      else case BuildClientOpts env (ps_tgtCfg ps) of
        Inl err \<Rightarrow> (Some (Wrapf ''build target opts: %w'' [] err), ps, [])
      | Inr tgtOpts \<Rightarrow>
          (case newClient (tgtOpts @ catch_up_producer_opts) of
             Some err \<Rightarrow> (Some (Wrapf ''create shared producer: %w'' [] err), ps, [])
           | None \<Rightarrow> (None, ps\<lparr>ps_totalBytes := 0, ps_totalRecords := 0\<rparr>,
                      List.map_filter (\<lambda>(part, from, to). catchUpPartitionPipelined ps topic part from to) partitionLags)))"

definition CatchUp :: "build_env \<Rightarrow> (kgo_opt list \<Rightarrow> go_error option) \<Rightarrow> string \<Rightarrow> int32 \<Rightarrow> int \<Rightarrow> int
    \<Rightarrow> ParallelSource \<Rightarrow> go_error option \<times> ParallelSource \<times> pipeline list" where
  "CatchUp env newClient topic part startOffset endOffset ps =
     CatchUpMultiPartition env newClient [(part, startOffset, endOffset)] topic ps"

text \<open>The last entry of an answer that matches a partition, or zero.\<close>

definition last_match :: "string \<Rightarrow> int32 \<Rightarrow> (TopicPartition \<times> int64) list \<Rightarrow> int64" where
  "last_match topic part answer =
     foldl (\<lambda>acc (tp, v). if tp_topic tp = topic \<and> tp_partition tp = part then v else acc) 0 answer"

definition GetPartitionLag :: "build_env \<Rightarrow> (kgo_opt list \<Rightarrow> go_error option) \<Rightarrow> ClusterConfig
    \<Rightarrow> go_error + (TopicPartition \<times> int64) list \<Rightarrow> go_error + (TopicPartition \<times> int64) list
    \<Rightarrow> string \<Rightarrow> int32 \<Rightarrow> go_error + int64 \<times> int64" where
  "GetPartitionLag env newClient srcCfg fetchOffsets listEndOffsets topic part =
     (case BuildClientOpts env srcCfg of
        Inl err \<Rightarrow> Inl err
      | Inr opts \<Rightarrow>
          (case newClient opts of
             Some err \<Rightarrow> Inl err
           | None \<Rightarrow>
               (case fetchOffsets of
                  Inl err \<Rightarrow> Inl (Wrapf ''fetch offsets: %w'' [] err)
                | Inr offsets \<Rightarrow>
                    (case listEndOffsets of
                       Inl err \<Rightarrow> Inl (Wrapf ''list end offsets: %w'' [] err)
                     | Inr endOffsets \<Rightarrow> Inr (last_match topic part offsets, last_match topic part endOffsets)))))"

definition GetAllPartitionLags :: "build_env \<Rightarrow> (kgo_opt list \<Rightarrow> go_error option) \<Rightarrow> ClusterConfig
    \<Rightarrow> go_error + (TopicPartition \<times> int64) list \<Rightarrow> go_error + (TopicPartition \<times> int64) list
    \<Rightarrow> go_error + (TopicPartition \<rightharpoonup> int64 \<times> int64)" where
  "GetAllPartitionLags env newClient srcCfg fetchOffsets listEndOffsets =
     (case BuildClientOpts env srcCfg of
        Inl err \<Rightarrow> Inl err
      | Inr opts \<Rightarrow>
          (case newClient opts of
             Some err \<Rightarrow> Inl err
           | None \<Rightarrow>
               (case fetchOffsets of
                  Inl err \<Rightarrow> Inl (Wrapf ''fetch offsets: %w'' [] err)
                | Inr offsets \<Rightarrow>
                    (case listEndOffsets of
                       Inl err \<Rightarrow> Inl (Wrapf ''list end offsets: %w'' [] err)
                     | Inr endOffsets \<Rightarrow>
                         Inr (foldl (\<lambda>m (tp, hwm). m(tp \<mapsto> (last_match (tp_topic tp) (tp_partition tp) offsets, hwm)))
                                Map.empty endOffsets)))))"

section \<open>Lemmas: segments\<close>

lemma times_div_le: "0 < b \<Longrightarrow> b * (a div b) \<le> a" for a b :: int
  using mult_div_mod_eq [of b a] pos_mod_sign [of b a] by linarith

lemma segments_uniform:
  assumes "0 \<le> seg"
  shows "concat (map (\<lambda>i. [s + int i * seg..s + int i * seg + seg - 1]) [0..<k]) = [s..s + int k * seg - 1]"
proof (induction k)
  case (Suc k)
  have "0 \<le> int k * seg" using assms by simp
  with Suc assms upto_append [of s "s + int k * seg" "s + int (Suc k) * seg - 1"] show ?case
    by (simp add: algebra_simps)
qed simp

lemma segment_size_large:
  assumes "0 < workers" "1000 \<le> totalRange div workers" "0 < totalRange"
  shows "segment_size workers totalRange = (workers, totalRange div workers)"
  using assms by (simp add: segment_size_def go_div_nonneg Let_def)

lemma segment_size_small:
  assumes "0 < workers" "totalRange div workers < 1000" "0 < totalRange"
  shows "segment_size workers totalRange = (1, totalRange)"
  using assms by (simp add: segment_size_def go_div_nonneg Let_def)

lemma plan_segments_small:
  assumes "0 < workers" "s < e" "(e - s) div workers < 1000"
  shows "plan_segments workers s e = [(0, s, e)]"
  using segment_size_small [of workers "e - s"] assms by (simp add: plan_segments_def)

lemma plan_segments_large:
  assumes "0 < workers" "s < e" "1000 \<le> (e - s) div workers"
  shows "plan_segments workers s e =
    map (\<lambda>i. (i, s + int i * ((e - s) div workers),
              if int i = workers - 1 then e else s + int i * ((e - s) div workers) + (e - s) div workers)) [0..<nat workers]"
proof -
  let ?seg = "(e - s) div workers"
  have "s + int i * ?seg < e" if "i < nat workers" for i
  proof -
    have "int i * ?seg \<le> (workers - 1) * ?seg" using that assms by (intro mult_right_mono) auto
    moreover have "workers * ?seg \<le> e - s" using assms(1) by (rule times_div_le)
    ultimately show ?thesis using assms(3) by (simp add: left_diff_distrib)
  qed
  then show ?thesis
    using segment_size_large [of workers "e - s"] assms
    by (simp add: plan_segments_def Let_def takeWhile_eq_all_conv)
qed

text \<open>
  The segments of a partition are a partition of its range: for any positive number of workers
  the segments, taken in order, contain every offset from the start to the end exactly once and
  nothing else, and there are at most as many segments as workers.
\<close>

lemma plan_segments_cover:
  assumes "0 < workers"
  shows "concat (map (\<lambda>(i, a, b). [a..b - 1]) (plan_segments workers s e)) = [s..e - 1] \<and>
    int (length (plan_segments workers s e)) \<le> workers"
proof (cases "s < e")
  case False
  then show ?thesis using assms by (simp add: plan_segments_def)
next
  case se: True
  show ?thesis
  proof (cases "(e - s) div workers < 1000")
    case True
    then show ?thesis using plan_segments_small [OF assms se] assms by simp
  next
    case False
    let ?seg = "(e - s) div workers"
    obtain w where w: "nat workers = Suc w" "int w = workers - 1" using assms by (cases "nat workers") auto
    have fits: "int w * ?seg + ?seg \<le> e - s"
      using assms w(2) times_div_le [of workers "e - s"] by (simp add: left_diff_distrib)
    have early: "map (\<lambda>i. [s + int i * ?seg..(if int i = workers - 1 then e else s + int i * ?seg + ?seg) - 1]) [0..<w] =
        map (\<lambda>i. [s + int i * ?seg..s + int i * ?seg + ?seg - 1]) [0..<w]" using w(2) by auto
    have "0 \<le> int w * ?seg" using False by simp
    then have "concat (map (\<lambda>(i, a, b). [a..b - 1]) (plan_segments workers s e)) = [s..e - 1]"
      unfolding plan_segments_large [OF assms se leI [OF False]] w(1)
      using segments_uniform [of ?seg s w] upto_append [of s "s + int w * ?seg" "e - 1"] fits False w(2)
      by (simp add: comp_def early)
    then show ?thesis using plan_segments_large [OF assms se leI [OF False]] assms by simp
  qed
qed

text \<open>
  C38. The catch-up can reorder records. If the segments are at least as long as the ring buffer
  (with four workers and the default 16384 slots: a lag of 65536, below the 100000 at which a
  catch-up starts), the segment of the second worker contains an offset that shares a slot with the
  start offset; if its record arrives first, the drainer takes it first, before the record at the
  start offset.
\<close>

theorem catch_up_can_reorder:
  assumes "1 < workers" and "0 < cap" and "1000 \<le> (e - s) div workers" and "cap \<le> (e - s) div workers"
    and "NewOrderedRingBuffer cap s = Ret rb"
  shows "\<exists>a b off rb' rb''. (1, a, b) \<in> set (plan_segments workers s e) \<and> a \<le> off \<and> off < b \<and> s < off \<and>
    Put None off (src off) rb = Ret (Some True, rb') \<and> DrainBatch None 1 rb' = Ret (Some ([Some (src off)], True), rb'')"
proof -
  let ?seg = "(e - s) div workers"
  have pos: "0 < workers" using assms(1) by simp
  have se: "s < e"
  proof (rule ccontr)
    assume "\<not> s < e"
    then have "(e - s) div workers \<le> 0" using div_nonpos_pos_le0 [of "e - s" workers] pos by simp
    with assms(3) show False by simp
  qed
  define b where "b = (if workers = 2 then e else s + ?seg + ?seg)"
  have seg: "(1, s + ?seg, b) \<in> set (plan_segments workers s e)"
    unfolding plan_segments_large [OF pos se assms(3)] b_def using assms(1) by (auto simp: image_iff intro!: bexI [of _ 1])
  define k where "k = (?seg + cap - 1) div cap"
  have k: "?seg \<le> k * cap" "k * cap < ?seg + cap"
    using div_mult_mod_eq [of "?seg + cap - 1" cap] pos_mod_bound [OF assms(2), of "?seg + cap - 1"]
      pos_mod_sign [OF assms(2), of "?seg + cap - 1"] unfolding k_def by linarith+
  have "2 * ?seg \<le> e - s" if "workers = 2" using that by simp
  then have "s + ?seg + ?seg \<le> b" by (auto simp: b_def)
  then have off: "s + ?seg \<le> s + k * cap" "s + k * cap < b" using k assms(4) by linarith+
  have kpos: "0 < k"
  proof (rule ccontr)
    assume "\<not> 0 < k"
    then have "k * cap \<le> 0" using assms(2) by (simp add: mult_nonpos_nonneg)
    with k(1) assms(3) show False by linarith
  qed
  then have "0 < k * cap" using assms(2) by simp
  note new = NewOrderedRingBuffer_ok [OF assms(5,2)]
  obtain rb' rb'' where "Put None (s + k * cap) (src (s + k * cap)) rb = Ret (Some True, rb')"
    "DrainBatch None 1 rb' = Ret (Some ([Some (src (s + k * cap))], True), rb'')"
    using out_of_window_put_overtakes [OF new(1,3) kpos, of "s + k * cap" None "src (s + k * cap)"] new(2,4) by auto
  with seg off \<open>0 < k * cap\<close> show ?thesis by (metis less_add_same_cancel1)
qed

theorem catch_up_can_reorder_witness:
  "\<exists>a b off rb' rb''. (1, a, b) \<in> set (plan_segments 4 0 100001) \<and> a \<le> off \<and> off < b \<and> 0 < off \<and>
    Put None off (log_record off) \<lparr>rb_slots = replicate 16384 zero_slot, rb_capacity = 16384, rb_drainOffset = 0, rb_closed = False\<rparr>
      = Ret (Some True, rb') \<and>
    DrainBatch None 1 rb' = Ret (Some ([Some (log_record off)], True), rb'')"
proof -
  let ?rb = "\<lparr>rb_slots = replicate 16384 zero_slot, rb_capacity = 16384, rb_drainOffset = 0, rb_closed = False\<rparr>"
  have new: "NewOrderedRingBuffer 16384 0 = Ret ?rb" by (simp only: NewOrderedRingBuffer_def) simp
  show ?thesis
    using catch_up_can_reorder [of 4 16384 100001 0 ?rb log_record, OF _ _ _ _ new] by simp
qed

section \<open>Lemmas: fetcher\<close>

abbreviation off_of :: "Record \<Rightarrow> int" where
  "off_of r \<equiv> sint (rec_offset r)"

lemma fetch_records_all:
  "fetch_records toOffset (\<lambda>_. True) rs = (takeWhile (\<lambda>r. off_of r < toOffset) rs, \<exists>r \<in> set rs. toOffset \<le> off_of r)"
  by (induction rs) auto

lemma fetch_records_puts:
  "fetch_records toOffset put_ok rs = (puts, ret) \<Longrightarrow> r \<in> set puts \<Longrightarrow> off_of r < toOffset \<and> put_ok r \<and> r \<in> set rs"
  by (induction rs arbitrary: puts ret) (auto split: if_splits prod.splits)

text \<open>A poll without an error, and one with errors and no records.\<close>

lemma fetch_poll_simps [simp]:
  "poll_ctx p = None \<Longrightarrow> poll_errors p = [] \<Longrightarrow>
     fetch_poll wid errs p = (if poll_records p = [] then FetchAgain errs else FetchRecords (poll_records p))"
  "poll_ctx p = None \<Longrightarrow> poll_errors p \<noteq> [] \<Longrightarrow> poll_records p = [] \<Longrightarrow> errs < 9 \<Longrightarrow> fetch_poll wid errs p = FetchAgain (errs + 1)"
  by (simp_all add: fetch_poll_def Let_def)

lemma fetch_poll_tenth: "poll_ctx p = None \<Longrightarrow> poll_errors p \<noteq> [] \<Longrightarrow> \<exists>e. fetch_poll wid 9 p = FetchReturn (Some e)"
  by (simp add: fetch_poll_def Let_def)

lemma fetch_poll_records: "fetch_poll wid errs p = FetchRecords rs \<Longrightarrow> rs = poll_records p \<and> rs \<noteq> [] \<and> poll_ctx p = None"
  by (auto simp: fetch_poll_def Let_def split: if_splits)

lemma fetch_loop_puts:
  "fetch_loop wid toOffset put_ok errs polls = (res, puts) \<Longrightarrow> r \<in> set puts \<Longrightarrow> off_of r < toOffset \<and> put_ok r"
proof (induction wid toOffset put_ok errs polls arbitrary: res puts rule: fetch_loop.induct)
  case (2 wid toOffset put_ok errs p ps)
  show ?case
  proof (cases "fetch_poll wid errs p")
    case (FetchRecords rs)
    obtain puts1 ret1 where f: "fetch_records toOffset put_ok rs = (puts1, ret1)" by fastforce
    obtain res2 puts2 where l: "fetch_loop wid toOffset put_ok 0 ps = (res2, puts2)" by fastforce
    show ?thesis
    proof (cases "ret1 \<or> segment_done toOffset rs")
      case True
      with "2.prems" FetchRecords f fetch_records_puts [OF f, of r] show ?thesis by auto
    next
      case False
      with "2.prems" FetchRecords f l have "r \<in> set puts1 \<or> r \<in> set puts2" by auto
      with fetch_records_puts [OF f, of r] "2.IH"(2) [OF FetchRecords f [symmetric] refl False l] show ?thesis by auto
    qed
  qed (use "2.prems" "2.IH"(1) in auto)
qed simp

lemma append_eq_upto: "xs @ ys = [a..m] \<Longrightarrow> xs = [a..a + int (length xs) - 1] \<and> ys = [a + int (length xs)..m]"
proof (induction xs arbitrary: a)
  case (Cons x xs)
  then have "a \<le> m" "x = a" "xs @ ys = [a + 1..m]" by (auto simp: upto_rec1 [of a m] split: if_splits)
      (metis list.distinct(1) upto_empty not_le upto_rec1 list.inject)+
  with Cons.IH [of "a + 1"] show ?case using upto_rec1 [of a "a + int (length (x # xs)) - 1"] by (simp add: algebra_simps)
qed simp

lemma takeWhile_upto: "a \<le> b \<Longrightarrow> b - 1 \<le> m \<Longrightarrow> takeWhile (\<lambda>x. x < b) [a..m] = [a..b - 1]" for a b m :: int
proof -
  assume "a \<le> b" "b - 1 \<le> m"
  then have "[a..m] = [a..b - 1] @ [b..m]" using upto_append [of a b m] by simp
  moreover have "takeWhile (\<lambda>x. x < b) [b..m] = []" by (cases "b \<le> m") (simp_all add: upto_rec1)
  ultimately show ?thesis by (simp add: takeWhile_append)
qed

text \<open>One poll of a fetcher: it reaches the end of the segment, or puts everything and goes on.\<close>

lemma fetch_loop_last_poll:
  assumes "poll_ctx p = None" "poll_errors p = []" "map off_of (poll_records p) = [from..k]" "from < toOffset" "toOffset - 1 \<le> k"
  shows "\<exists>puts. fetch_loop wid toOffset (\<lambda>_. True) errs (p # polls) = (Some None, puts) \<and> map off_of puts = [from..toOffset - 1]"
proof -
  let ?rs = "poll_records p"
  have fk: "from \<le> k" using assms(4,5) by simp
  then have ne: "?rs \<noteq> []" using assms(3) by auto
  have last: "off_of (last ?rs) = k" using assms(3) ne upto_rec2 [OF fk] by (metis last_map last_snoc)
  have "map off_of (takeWhile (\<lambda>r. off_of r < toOffset) ?rs) = [from..toOffset - 1]"
    using takeWhile_map [of "\<lambda>x. x < toOffset" off_of ?rs] assms(3-5) takeWhile_upto [of "from" toOffset k] by (simp add: comp_def)
  then show ?thesis using assms(1,2,5) ne last by (simp add: fetch_records_all segment_done_def Let_def)
qed

lemma fetch_loop_inner_poll:
  assumes "poll_ctx p = None" "poll_errors p = []" "map off_of (poll_records p) = [from..k]" "from \<le> k" "k < toOffset - 1"
    and "fetch_loop wid toOffset (\<lambda>_. True) 0 polls = (Some None, puts)"
  shows "fetch_loop wid toOffset (\<lambda>_. True) errs (p # polls) = (Some None, poll_records p @ puts)"
proof -
  let ?rs = "poll_records p"
  have ne: "?rs \<noteq> []" using assms(3,4) by auto
  have last: "off_of (last ?rs) = k" using assms(3) ne upto_rec2 [OF assms(4)] by (metis last_map last_snoc)
  have "off_of r < toOffset" if "r \<in> set ?rs" for r
  proof -
    have "off_of r \<in> set (map off_of ?rs)" using that by simp
    then show ?thesis using assms(3,5) by simp
  qed
  then have "fetch_records toOffset (\<lambda>_. True) ?rs = (?rs, False)"
    by (fastforce simp: fetch_records_all takeWhile_eq_all_conv)
  then show ?thesis using assms(1,2,5,6) ne last by (simp add: segment_done_def)
qed

lemma fetch_loop_delivers:
  assumes "\<forall>p \<in> set polls. poll_ctx p = None \<and> poll_errors p = []"
    and "map off_of (concat (map poll_records polls)) = [from..m]" "toOffset - 1 \<le> m" "from < toOffset"
  shows "\<exists>puts. fetch_loop wid toOffset (\<lambda>_. True) errs polls = (Some None, puts) \<and> map off_of puts = [from..toOffset - 1]"
  using assms
proof (induction polls arbitrary: "from" errs)
  case (Cons p polls)
  let ?rs = "poll_records p"
  have p: "poll_ctx p = None" "poll_errors p = []" and tail: "\<forall>p \<in> set polls. poll_ctx p = None \<and> poll_errors p = []"
    using Cons.prems(1) by auto
  show ?case
  proof (cases "?rs = []")
    case True
    then have "map off_of (concat (map poll_records polls)) = [from..m]" using Cons.prems(2) by simp
    from Cons.IH [OF tail this Cons.prems(3,4), of errs] show ?thesis using p True by simp
  next
    case False
    define k where "k = from + int (length ?rs) - 1"
    have rs: "map off_of ?rs = [from..k]" "map off_of (concat (map poll_records polls)) = [k + 1..m]"
      using append_eq_upto [of "map off_of ?rs" "map off_of (concat (map poll_records polls))" "from" m] Cons.prems(2)
      by (simp_all add: k_def)
    have fk: "from \<le> k" using False by (cases ?rs) (simp_all add: k_def)
    show ?thesis
    proof (cases "toOffset - 1 \<le> k")
      case True
      show ?thesis by (rule fetch_loop_last_poll [OF p rs(1) Cons.prems(4) True])
    next
      case False
      then obtain puts where puts: "fetch_loop wid toOffset (\<lambda>_. True) 0 polls = (Some None, puts)" "map off_of puts = [k + 1..toOffset - 1]"
        using Cons.IH [OF tail rs(2) Cons.prems(3), of 0] by auto
      show ?thesis
        using fetch_loop_inner_poll [OF p rs(1) fk _ puts(1)] False rs(1) puts(2) upto_append [of "from" "k + 1" "toOffset - 1"] fk
        by simp
    qed
  qed
qed simp

lemma fetch_loop_gives_up:
  assumes "\<forall>p \<in> set polls. poll_ctx p = None \<and> poll_errors p \<noteq> [] \<and> poll_records p = []"
    and "errs < 10" "10 - errs \<le> int (length polls)"
  shows "\<exists>e. fetch_loop wid toOffset put_ok errs polls = (Some (Some e), [])"
  using assms
proof (induction polls arbitrary: errs)
  case (Cons p polls)
  show ?case
  proof (cases "errs = 9")
    case True
    with Cons.prems fetch_poll_tenth [of p wid] show ?thesis by auto
  next
    case False
    with Cons show ?thesis by simp
  qed
qed simp

text \<open>
  C25. A fetcher does its segment or reports failure. If its polls bring the log from the start of the
  segment without errors and every put is accepted, it returns without error after putting exactly
  the records of the segment, in offset order. After ten polls in a row with errors and no records
  it returns an error, so the ring buffer gets closed and the drainer is not left waiting. It never
  puts a record past the end of its segment.
\<close>

theorem fetcher_delivers_segment:
  "((\<forall>p \<in> set polls. poll_ctx p = None \<and> poll_errors p = []) \<and>
      map off_of (concat (map poll_records polls)) = [from..m] \<and> toOffset - 1 \<le> m \<and> from < toOffset \<longrightarrow>
      (\<exists>puts. fetch_loop wid toOffset (\<lambda>_. True) 0 polls = (Some None, puts) \<and> map off_of puts = [from..toOffset - 1])) \<and>
   ((\<forall>p \<in> set polls. poll_ctx p = None \<and> poll_errors p \<noteq> [] \<and> poll_records p = []) \<and> 10 \<le> length polls \<longrightarrow>
      (\<exists>e. fetch_loop wid toOffset put_ok 0 polls = (Some (Some e), []))) \<and>
   (\<forall>r \<in> set (snd (fetch_loop wid toOffset put_ok errs polls)). off_of r < toOffset \<and> put_ok r)"
proof (intro conjI impI ballI)
  show "\<exists>puts. fetch_loop wid toOffset (\<lambda>_. True) 0 polls = (Some None, puts) \<and> map off_of puts = [from..toOffset - 1]"
    if "(\<forall>p \<in> set polls. poll_ctx p = None \<and> poll_errors p = []) \<and>
      map off_of (concat (map poll_records polls)) = [from..m] \<and> toOffset - 1 \<le> m \<and> from < toOffset"
    using fetch_loop_delivers [of polls "from" m toOffset wid 0] that by blast
  show "\<exists>e. fetch_loop wid toOffset put_ok 0 polls = (Some (Some e), [])"
    if "(\<forall>p \<in> set polls. poll_ctx p = None \<and> poll_errors p \<noteq> [] \<and> poll_records p = []) \<and> 10 \<le> length polls"
    using fetch_loop_gives_up [of polls 0 wid toOffset put_ok] that by simp
  fix r assume "r \<in> set (snd (fetch_loop wid toOffset put_ok errs polls))"
  then show "off_of r < toOffset" "put_ok r"
    using fetch_loop_puts [of wid toOffset put_ok errs polls "fst (fetch_loop wid toOffset put_ok errs polls)"
        "snd (fetch_loop wid toOffset put_ok errs polls)" r] by simp_all
qed

theorem fetcher_delivers_segment_witness:
  "\<exists>puts. fetch_loop 0 12 (\<lambda>_. True) 0 [\<lparr>poll_ctx = None, poll_errors = [], poll_records = map log_record [10, 11, 12]\<rparr>] =
      (Some None, puts) \<and> map off_of puts = [10..12 - 1]"
  using fetcher_delivers_segment [of "[\<lparr>poll_ctx = None, poll_errors = [], poll_records = map log_record [10, 11, 12]\<rparr>]"
      10 12 12 0 "\<lambda>_. True" 0]
  by (simp add: log_record_def zero_record_def upto_rec1 sint_of_int64)

section \<open>Lemmas: drainer\<close>

lemma drain_flush_panics: "drain_flush ps targetTopic part ds = Panic ''inconsistent label cardinality''"
  by (simp add: drain_flush_def add_metric_four_labels Let_def)

lemma drain_one_foldl:
  "ds_periodRecs (foldl (drain_one t p) ds rs) = ds_periodRecs ds + int (length rs) \<and>
   ds_totalRecs (foldl (drain_one t p) ds rs) = ds_totalRecs ds + int (length rs) \<and>
   ds_produced (foldl (drain_one t p) ds rs) = ds_produced ds @ map (drain_target_record t p) rs"
  by (induction rs arbitrary: ds) (auto simp: drain_one_def Let_def)

text \<open>A batch that does not crash the process is one after which nothing is flushed.\<close>

lemma drain_batch_Ret:
  "drain_batch ps t p batch now ds = Ret ds' \<Longrightarrow> None \<notin> set batch \<and> ds' = foldl (drain_one t p) ds (map the batch)"
  by (auto simp: drain_batch_def drain_flush_panics Let_def split: if_splits)

lemma drain_finish_Ret:
  "drain_finish ps t p ds = Ret (ps', ds') \<Longrightarrow> ds_periodRecs ds \<le> 0 \<and> ds' = ds"
  by (auto simp: drain_finish_def drain_flush_panics split: if_splits)

lemma drain_rounds_period:
  "drain_rounds ps t p rounds ds = Ret ds' \<Longrightarrow> ds_periodRecs ds \<le> ds_periodRecs ds'"
proof (induction ps t p rounds ds rule: drain_rounds.induct)
  case (2 ps t p ctxErr batch ok now rounds ds)
  show ?case
  proof (cases "ctxErr \<noteq> None \<or> \<not> ok \<or> batch = []")
    case False
    then obtain ds1 where b: "drain_batch ps t p batch now ds = Ret ds1" "drain_rounds ps t p rounds ds1 = Ret ds'"
      using "2.prems" by (auto split: outcome.splits)
    from "2.IH" [OF _ _ b] False drain_one_foldl [of t p ds "map the batch"] drain_batch_Ret [OF b(1)] show ?thesis by simp
  qed (use "2.prems" in \<open>auto split: if_splits\<close>)
qed simp

lemma retry_keeps:
  assumes "Retry cfg ctxErr ctxDone backoff fn s = (res, s')" and "\<And>k s. f (snd (fn k s)) = f s"
  shows "f s' = f s"
proof -
  obtain n where "s' = after_calls fn n s"
    using retry_loop_states [of cfg ctxErr ctxDone backoff fn 0 None s res s'] assms(1) by (auto simp: Retry_def)
  moreover have "f (after_calls fn n s) = f s" by (induction n) (simp_all add: after_Suc assms(2))
  ultimately show ?thesis by simp
qed

text \<open>A callback leaves the counters of the loop alone and counts its record as an error exactly when it is lost.\<close>

lemma drain_callback_keeps:
  assumes "drain_callback ps env t src p err record ds = Ret ds'"
  shows "ds_periodRecs ds' = ds_periodRecs ds" "ds_totalRecs ds' = ds_totalRecs ds" "ds_produced ds' = ds_produced ds"
    "ds_produceErrors ds' = ds_produceErrors ds + (if produce_lost ps env err then 1 else 0)"
proof -
  let ?f = "\<lambda>d. (ds_periodRecs d, ds_totalRecs d, ds_produced d, ds_produceErrors d)"
  let ?d = "ds\<lparr>ds_metrics := inc (m_ProduceErrors all_metrics) [r_Source (ps_cfg ps), r_Target (ps_cfg ps), t] (ds_metrics ds)\<rparr>"
  obtain res ds1 where r: "Retry (ps_retryCfg ps) (re_ctxErr env) (re_ctxDone env) (re_backoff env) (drain_retry ps (re_results env)) ?d = (res, ds1)"
    by fastforce
  have "?f (snd (drain_retry ps rs k d)) = ?f d" for rs k d by (cases "rs k") (simp_all add: drain_retry_def)
  from retry_keeps [OF r, of ?f] this have keep: "?f ds1 = ?f ds" by simp
  have "res = fst (Retry (ps_retryCfg ps) (re_ctxErr env) (re_ctxDone env) (re_backoff env) (drain_retry ps (re_results env)) ?d)"
    using r by simp
  also have "\<dots> = fst (Retry (ps_retryCfg ps) (re_ctxErr env) (re_ctxDone env) (re_backoff env)
      (\<lambda>k s. (case re_results env k of Inl e \<Rightarrow> Some e | Inr _ \<Rightarrow> None, s)) ())"
    by (rule retry_result_only) (simp add: drain_retry_def split: sum.splits)
  finally have "produce_lost ps env err \<longleftrightarrow> err \<noteq> None \<and> res \<noteq> Ret None" by (simp add: produce_lost_def)
  then have "?f ds' = (ds_periodRecs ds, ds_totalRecs ds, ds_produced ds, ds_produceErrors ds + (if produce_lost ps env err then 1 else 0))"
    using assms r keep by (simp add: drain_callback_def split: option.splits outcome.splits) clarsimp+
  then show "ds_periodRecs ds' = ds_periodRecs ds" "ds_totalRecs ds' = ds_totalRecs ds" "ds_produced ds' = ds_produced ds"
    "ds_produceErrors ds' = ds_produceErrors ds + (if produce_lost ps env err then 1 else 0)" by auto
qed

lemma drain_callbacks_period:
  "drain_callbacks ps t src p cbs ds = Ret ds' \<Longrightarrow> ds_periodRecs ds' = ds_periodRecs ds"
proof (induction ps t src p cbs ds rule: drain_callbacks.induct)
  case (2 ps t src p env err r cbs ds)
  obtain ds1 where cb: "drain_callback ps env t src p err r ds = Ret ds1"
    using "2.prems" by (cases "drain_callback ps env t src p err r ds") auto
  with 2 have "ds_periodRecs ds' = ds_periodRecs ds1" by simp
  with drain_callback_keeps(1) [OF cb] show ?case by simp
qed simp

text \<open>
  A catch-up that drained anything does not complete. Whatever the drainer is handed, if its first batch
  is not empty then \<open>drainPartition\<close> does not return: at the latest when it flushes its counters at
  the end it passes four label values for a counter of three labels.
\<close>

lemma drain_partition_crashes:
  assumes "batch \<noteq> []"
  shows "drainPartition ps targetTopic sourceTopic part now mv ((None, (batch, True), t) # rounds) callbacks \<noteq> Ret x"
proof -
  let ?run = "drain_rounds ps targetTopic part ((None, (batch, True), t) # rounds) (drain_start now mv)"
  have pos: "0 < ds_periodRecs ds'" if run: "?run = Ret ds'" for ds'
  proof -
    obtain ds1 where b: "drain_batch ps targetTopic part batch t (drain_start now mv) = Ret ds1"
      "drain_rounds ps targetTopic part rounds ds1 = Ret ds'" using run assms by (auto split: outcome.splits)
    have "0 < ds_periodRecs ds1"
      using drain_batch_Ret [OF b(1)] drain_one_foldl [of targetTopic part "drain_start now mv" "map the batch"] assms
      by (simp add: drain_start_def)
    with drain_rounds_period [OF b(2)] show ?thesis by simp
  qed
  have "0 < ds_periodRecs ds2"
    if "?run = Ret ds'" "drain_callbacks ps targetTopic sourceTopic part callbacks ds' = Ret ds2" for ds' ds2
    using drain_callbacks_period [OF that(2)] pos [OF that(1)] by simp
  then show ?thesis
    unfolding drainPartition_def using drain_finish_Ret by (cases x) (fastforce split: outcome.splits)
qed

end
