(* ===== verification/Catch_Up_Pipeline.thy ===== *)
theory Catch_Up_Pipeline
  imports Parallel_Source
begin

text \<open>
  The parallel catch-up of \<open>internal/mirror/parallel_source.go\<close> as a whole: for every partition the fetchers of
  its segments, the drainer with its produce callbacks, and the coordinator that closes the buffer run
  interleaved, all partitions on one shared producer, metrics registry and total. The state of a goroutine is
  its program counter with its local variables; a step is what it does up to its next visible action. A
  blocked \<open>Put\<close> or \<open>DrainBatch\<close> takes no step. A panic of any goroutine crashes the process.
\<close>

section \<open>Fetchers\<close>

text \<open>
  A fetcher connects, polls, puts the records of a poll (all of them, and those that are left), and has returned.
  \<open>ft_pos\<close> is the position of its consumer, the first offset the next poll may bring.
\<close>

datatype fetch_pc = FetchStart | FetchPoll | FetchPut "Record list" "Record list" | FetchReturned "go_error option"

record fetcher =
  ft_id :: nat
  ft_from :: int
  ft_to :: int
  ft_pos :: int
  ft_errs :: int
  ft_pc :: fetch_pc

definition start_fetcher :: "nat \<times> int \<times> int \<Rightarrow> fetcher" where
  "start_fetcher seg = (case seg of (i, segStart, segEnd) \<Rightarrow>
     \<lparr>ft_id = i, ft_from = segStart, ft_to = segEnd, ft_pos = segStart, ft_errs = 0, ft_pc = FetchStart\<rparr>)"

definition after_connect :: "go_error option \<Rightarrow> fetcher \<Rightarrow> fetcher" where
  "after_connect err f = f\<lparr>ft_pc := (case err of None \<Rightarrow> FetchPoll | Some e \<Rightarrow> FetchReturned (Some e))\<rparr>"

definition after_poll :: "Poll \<Rightarrow> fetcher \<Rightarrow> fetcher" where
  "after_poll p f =
     (case fetch_poll (ft_id f) (ft_errs f) p of
        FetchReturn res \<Rightarrow> f\<lparr>ft_pc := FetchReturned res\<rparr>
      | FetchAgain errs \<Rightarrow> f\<lparr>ft_errs := errs\<rparr>
      | FetchRecords rs \<Rightarrow> f\<lparr>ft_errs := 0, ft_pos := off_of (last rs) + 1, ft_pc := FetchPut rs rs\<rparr>)"

text \<open>The next record of the batch, or the end of the batch. \<open>None\<close>: the fetcher is elsewhere or blocked in \<open>Put\<close>.\<close>

definition fetch_put :: "go_error option \<Rightarrow> fetcher \<Rightarrow> OrderedRingBuffer \<Rightarrow> (fetcher \<times> OrderedRingBuffer) outcome option" where
  "fetch_put ctxErr f rb =
     (case ft_pc f of
        FetchPut rs [] \<Rightarrow> Some (Ret (f\<lparr>ft_pc := (if segment_done (ft_to f) rs then FetchReturned None else FetchPoll)\<rparr>, rb))
      | FetchPut rs (r # rest) \<Rightarrow>
          if off_of r \<ge> ft_to f then Some (Ret (f\<lparr>ft_pc := FetchReturned None\<rparr>, rb))
          else (case Put ctxErr (off_of r) r rb of
              Ret (Some ok, rb') \<Rightarrow> Some (Ret (f\<lparr>ft_pc := (if ok then FetchPut rs rest else FetchReturned None)\<rparr>, rb'))
            | Ret (None, _) \<Rightarrow> None
            | Fail e \<Rightarrow> Some (Fail e)
            | Panic m \<Rightarrow> Some (Panic m))
      | _ \<Rightarrow> None)"

definition returned :: "fetcher \<Rightarrow> bool" where
  "returned f \<longleftrightarrow> (case ft_pc f of FetchReturned _ \<Rightarrow> True | _ \<Rightarrow> False)"

definition failed :: "fetcher \<Rightarrow> bool" where
  "failed f \<longleftrightarrow> (case ft_pc f of FetchReturned (Some _) \<Rightarrow> True | _ \<Rightarrow> False)"

section \<open>Partitions\<close>

datatype drain_pc = Draining | DrainWait | DrainDone

text \<open>
  The pipeline of a partition. \<open>pt_drained\<close> is the history of what the drainer took; of those, \<open>pt_inflight\<close> are with
  the producer, \<open>pt_acked\<close> were produced in the end and \<open>pt_lost\<close> were given up.
\<close>

record partition_run =
  pt_partition :: int32
  pt_start :: int
  pt_end :: int
  pt_targetTopic :: string
  pt_ring :: OrderedRingBuffer
  pt_fetchers :: "fetcher list"
  pt_fetcherFailed :: bool
  pt_drain_pc :: drain_pc
  pt_drain :: drain_state
  pt_drained :: "Record list"
  pt_inflight :: "Record list"
  pt_acked :: "Record list"
  pt_lost :: "Record list"

definition start_partition :: "int \<Rightarrow> metric_values \<Rightarrow> pipeline \<Rightarrow> OrderedRingBuffer \<Rightarrow> partition_run" where
  "start_partition now mv pl rb = \<lparr>pt_partition = pl_partition pl, pt_start = pl_start pl, pt_end = pl_end pl,
     pt_targetTopic = pl_targetTopic pl, pt_ring = rb, pt_fetchers = map start_fetcher (pl_segments pl),
     pt_fetcherFailed = False, pt_drain_pc = Draining, pt_drain = drain_start now mv, pt_drained = [],
     pt_inflight = [], pt_acked = [], pt_lost = []\<rparr>"

text \<open>A fetcher moves on; if it returned an error its goroutine closes the buffer at once.\<close>

definition set_fetcher :: "nat \<Rightarrow> fetcher \<Rightarrow> OrderedRingBuffer \<Rightarrow> partition_run \<Rightarrow> partition_run" where
  "set_fetcher j f rb pt = pt\<lparr>pt_fetchers := (pt_fetchers pt)[j := f],
     pt_ring := (if failed f then CloseWithError rb else rb), pt_fetcherFailed := pt_fetcherFailed pt \<or> failed f\<rparr>"

text \<open>The coordinator, when \<open>fetcherWg.Wait()\<close> returns.\<close>

definition close_buffer :: "partition_run \<Rightarrow> partition_run" where
  "close_buffer pt = pt\<lparr>pt_ring := (if pt_fetcherFailed pt then CloseWithError (pt_ring pt) else Close (pt_ring pt))\<rparr>"

text \<open>
  One round of the drain loop, with the shared metrics. \<open>None\<close>: the drainer has left the loop or is blocked in
  \<open>DrainBatch\<close>. After a cancellation the drainer may leave at any moment; when it is asleep in \<open>DrainBatch\<close>
  it really leaves only once the buffer is closed.
\<close>

definition drain_turn :: "ParallelSource \<Rightarrow> bool \<Rightarrow> int \<Rightarrow> metric_values \<Rightarrow> partition_run \<Rightarrow> (metric_values \<times> partition_run) outcome option" where
  "drain_turn ps cancelled now mv pt =
     (if pt_drain_pc pt \<noteq> Draining then None
      else if cancelled then Some (Ret (mv, pt\<lparr>pt_drain_pc := DrainWait\<rparr>))
      else (case DrainBatch None 512 (pt_ring pt) of
          Ret (None, _) \<Rightarrow> None
        | Ret (Some (batch, ok), rb) \<Rightarrow>
            if \<not> ok \<or> batch = [] then Some (Ret (mv, pt\<lparr>pt_ring := rb, pt_drain_pc := DrainWait\<rparr>))
            else (case drain_batch ps (pt_targetTopic pt) (pt_partition pt) batch now ((pt_drain pt)\<lparr>ds_metrics := mv\<rparr>) of
                Ret ds \<Rightarrow> Some (Ret (ds_metrics ds, pt\<lparr>pt_ring := rb, pt_drain := ds, pt_drained := pt_drained pt @ map the batch,
                  pt_inflight := pt_inflight pt @ map the batch\<rparr>))
              | Fail e \<Rightarrow> Some (Fail e)
              | Panic m \<Rightarrow> Some (Panic m))
        | Fail e \<Rightarrow> Some (Fail e)
        | Panic m \<Rightarrow> Some (Panic m)))"

text \<open>The callback of a produced record, which is then acknowledged or lost.\<close>

definition callback_turn :: "ParallelSource \<Rightarrow> string \<Rightarrow> retry_env \<Rightarrow> go_error option \<Rightarrow> Record \<Rightarrow> metric_values \<Rightarrow> partition_run
    \<Rightarrow> (metric_values \<times> partition_run) outcome" where
  "callback_turn ps topic env err r mv pt =
     (case drain_callback ps env (pt_targetTopic pt) topic (pt_partition pt) err r ((pt_drain pt)\<lparr>ds_metrics := mv\<rparr>) of
        Ret ds \<Rightarrow>
          (let lost = produce_lost ps env err
           in Ret (ds_metrics ds, pt\<lparr>pt_drain := ds, pt_inflight := remove1 r (pt_inflight pt),
                pt_acked := pt_acked pt @ (if lost then [] else [r]), pt_lost := pt_lost pt @ (if lost then [r] else [])\<rparr>))
      | Fail e \<Rightarrow> Fail e
      | Panic m \<Rightarrow> Panic m)"

text \<open>The end of the drainer, once \<open>inflight.Wait()\<close> returns.\<close>

definition finish_turn :: "ParallelSource \<Rightarrow> metric_values \<Rightarrow> partition_run \<Rightarrow> (ParallelSource \<times> metric_values \<times> partition_run) outcome option" where
  "finish_turn ps mv pt =
     (if pt_drain_pc pt = DrainWait \<and> pt_inflight pt = [] then
        Some (case drain_finish ps (pt_targetTopic pt) (pt_partition pt) ((pt_drain pt)\<lparr>ds_metrics := mv\<rparr>) of
            Ret (ps', ds) \<Rightarrow> Ret (ps', ds_metrics ds, pt\<lparr>pt_drain := ds, pt_drain_pc := DrainDone\<rparr>)
          | Fail e \<Rightarrow> Fail e
          | Panic m \<Rightarrow> Panic m)
      else None)"

section \<open>The catch-up of a topic\<close>

record catchup =
  ct_ps :: ParallelSource
  ct_topic :: string
  ct_parts :: "partition_run list"
  ct_metrics :: metric_values
  ct_cancelled :: bool
  ct_crashed :: "string option"

definition start_catchup :: "int \<Rightarrow> metric_values \<Rightarrow> string \<Rightarrow> ParallelSource \<Rightarrow> pipeline list \<Rightarrow> catchup" where
  "start_catchup now mv topic ps plan = \<lparr>ct_ps = ps, ct_topic = topic,
     ct_parts = List.map_filter (\<lambda>pl. case pl_ring pl of Ret rb \<Rightarrow> Some (start_partition now mv pl rb) | _ \<Rightarrow> None) plan,
     ct_metrics = mv, ct_cancelled = False,
     ct_crashed = (if list_all (\<lambda>pl. case pl_ring pl of Ret _ \<Rightarrow> True | _ \<Rightarrow> False) plan then None
                   else Some ''makeslice: len out of range'')\<rparr>"

definition set_part :: "nat \<Rightarrow> partition_run \<Rightarrow> catchup \<Rightarrow> catchup" where
  "set_part i pt c = c\<lparr>ct_parts := (ct_parts c)[i := pt]\<rparr>"

text \<open>
  What a poll may bring: the records of the source log from the consumer's position on, each offset once, in
  order, none left out. \<open>L\<close> are the offsets that the log of the partition holds, \<open>src\<close> its records.
\<close>

definition next_records :: "(int \<Rightarrow> Record) \<Rightarrow> int set \<Rightarrow> int \<Rightarrow> Record list \<Rightarrow> bool" where
  "next_records src L pos rs \<longleftrightarrow> sorted_wrt (<) (map off_of rs) \<and>
     (\<forall>r \<in> set rs. pos \<le> off_of r \<and> off_of r \<in> L \<and> r = src (off_of r)) \<and>
     (rs \<noteq> [] \<longrightarrow> (\<forall>k \<in> L. pos \<le> k \<and> k \<le> off_of (last rs) \<longrightarrow> k \<in> off_of ` set rs))"

abbreviation ctx_err :: "catchup \<Rightarrow> go_error option" where
  "ctx_err c \<equiv> (if ct_cancelled c then Some Canceled else None)"

inductive catchup_step :: "(int32 \<Rightarrow> int \<Rightarrow> Record) \<Rightarrow> (int32 \<Rightarrow> int set) \<Rightarrow> catchup \<Rightarrow> catchup \<Rightarrow> bool" for src L where
  cu_connect: "ct_crashed c = None \<Longrightarrow> i < length (ct_parts c) \<Longrightarrow> pt = ct_parts c ! i \<Longrightarrow> j < length (pt_fetchers pt) \<Longrightarrow>
    f = pt_fetchers pt ! j \<Longrightarrow> ft_pc f = FetchStart \<Longrightarrow>
    err = fetch_connect env newClient (ct_ps c) (ct_topic c) (pt_partition pt) (ft_from f) \<Longrightarrow>
    catchup_step src L c (set_part i (set_fetcher j (after_connect err f) (pt_ring pt) pt) c)"
| cu_poll: "ct_crashed c = None \<Longrightarrow> i < length (ct_parts c) \<Longrightarrow> pt = ct_parts c ! i \<Longrightarrow> j < length (pt_fetchers pt) \<Longrightarrow>
    f = pt_fetchers pt ! j \<Longrightarrow> ft_pc f = FetchPoll \<Longrightarrow> poll_ctx p = ctx_err c \<Longrightarrow>
    next_records (src (pt_partition pt)) (L (pt_partition pt)) (ft_pos f) (poll_records p) \<Longrightarrow>
    catchup_step src L c (set_part i (set_fetcher j (after_poll p f) (pt_ring pt) pt) c)"
| cu_put: "ct_crashed c = None \<Longrightarrow> i < length (ct_parts c) \<Longrightarrow> pt = ct_parts c ! i \<Longrightarrow> j < length (pt_fetchers pt) \<Longrightarrow>
    f = pt_fetchers pt ! j \<Longrightarrow> fetch_put (ctx_err c) f (pt_ring pt) = Some (Ret (f', rb)) \<Longrightarrow>
    catchup_step src L c (set_part i (set_fetcher j f' rb pt) c)"
| cu_close: "ct_crashed c = None \<Longrightarrow> i < length (ct_parts c) \<Longrightarrow> pt = ct_parts c ! i \<Longrightarrow> list_all returned (pt_fetchers pt) \<Longrightarrow>
    catchup_step src L c (set_part i (close_buffer pt) c)"
| cu_drain: "ct_crashed c = None \<Longrightarrow> i < length (ct_parts c) \<Longrightarrow> pt = ct_parts c ! i \<Longrightarrow>
    drain_turn (ct_ps c) (ct_cancelled c) now (ct_metrics c) pt = Some (Ret (mv, pt')) \<Longrightarrow>
    catchup_step src L c ((set_part i pt' c)\<lparr>ct_metrics := mv\<rparr>)"
| cu_callback: "ct_crashed c = None \<Longrightarrow> i < length (ct_parts c) \<Longrightarrow> pt = ct_parts c ! i \<Longrightarrow> r \<in> set (pt_inflight pt) \<Longrightarrow>
    callback_turn (ct_ps c) (ct_topic c) env err r (ct_metrics c) pt = Ret (mv, pt') \<Longrightarrow>
    catchup_step src L c ((set_part i pt' c)\<lparr>ct_metrics := mv\<rparr>)"
| cu_finish: "ct_crashed c = None \<Longrightarrow> i < length (ct_parts c) \<Longrightarrow> pt = ct_parts c ! i \<Longrightarrow>
    finish_turn (ct_ps c) (ct_metrics c) pt = Some (Ret (ps, mv, pt')) \<Longrightarrow>
    catchup_step src L c ((set_part i pt' c)\<lparr>ct_metrics := mv, ct_ps := ps\<rparr>)"
| cu_put_panic: "ct_crashed c = None \<Longrightarrow> i < length (ct_parts c) \<Longrightarrow> pt = ct_parts c ! i \<Longrightarrow> f \<in> set (pt_fetchers pt) \<Longrightarrow>
    fetch_put (ctx_err c) f (pt_ring pt) = Some (Panic m) \<Longrightarrow> catchup_step src L c (c\<lparr>ct_crashed := Some m\<rparr>)"
| cu_drain_panic: "ct_crashed c = None \<Longrightarrow> i < length (ct_parts c) \<Longrightarrow> pt = ct_parts c ! i \<Longrightarrow>
    drain_turn (ct_ps c) (ct_cancelled c) now (ct_metrics c) pt = Some (Panic m) \<Longrightarrow> catchup_step src L c (c\<lparr>ct_crashed := Some m\<rparr>)"
| cu_callback_panic: "ct_crashed c = None \<Longrightarrow> i < length (ct_parts c) \<Longrightarrow> pt = ct_parts c ! i \<Longrightarrow> r \<in> set (pt_inflight pt) \<Longrightarrow>
    callback_turn (ct_ps c) (ct_topic c) env err r (ct_metrics c) pt = Panic m \<Longrightarrow> catchup_step src L c (c\<lparr>ct_crashed := Some m\<rparr>)"
| cu_finish_panic: "ct_crashed c = None \<Longrightarrow> i < length (ct_parts c) \<Longrightarrow> pt = ct_parts c ! i \<Longrightarrow>
    finish_turn (ct_ps c) (ct_metrics c) pt = Some (Panic m) \<Longrightarrow> catchup_step src L c (c\<lparr>ct_crashed := Some m\<rparr>)"
| cu_cancel: "catchup_step src L c (c\<lparr>ct_cancelled := True\<rparr>)"

inductive catchup_reach :: "(int32 \<Rightarrow> int \<Rightarrow> Record) \<Rightarrow> (int32 \<Rightarrow> int set) \<Rightarrow> catchup \<Rightarrow> catchup \<Rightarrow> bool" for src L c0 where
  catchup_start: "catchup_reach src L c0 c0"
| catchup_next: "catchup_reach src L c0 c \<Longrightarrow> catchup_step src L c c' \<Longrightarrow> catchup_reach src L c0 c'"

end
