(* ===== verification/Admin_Client.thy ===== *)
theory Admin_Client
  imports Client_Builder "HOL-Library.List_Lexorder" "HOL-Library.Char_ord"
begin

text \<open>
  \<open>internal/admin/client.go\<close> and \<open>internal/admin/topic_sync.go\<close>: the admin operations and the
  synchronisation of topic configurations. What the cluster answers to a request of the admin
  library is an argument; a map in an answer is a list in the order Go iterates over it.
\<close>

section \<open>Answers of the admin library\<close>

record TopicDetail =
  td_Topic :: string
  td_Partitions :: "int32 list"

record OffsetResponse =
  or_tp :: TopicPartition
  or_At :: int64

datatype ConfigSource = ConfigSourceDynamicTopicConfig | ConfigSourceOther

record ConfigEntry =
  ce_Key :: string
  ce_Value :: "string option"
  ce_Source :: ConfigSource

record ResourceConfig =
  rcf_Err :: "go_error option"
  rcf_Configs :: "ConfigEntry list"

record AlterConfig =
  acf_Name :: string
  acf_Value :: "string option"

section \<open>Operations\<close>

definition NewClient :: "build_env \<Rightarrow> (kgo_opt list \<Rightarrow> go_error option) \<Rightarrow> ClusterConfig \<Rightarrow> go_error option" where
  "NewClient env newClient cc =
     (case BuildClientOpts env cc of
        Inl err \<Rightarrow> Some (Wrapf ''build client opts: %w'' [] err)
      | Inr opts \<Rightarrow> (case newClient opts of
          Some err \<Rightarrow> Some (Wrapf ''create kafka client: %w'' [] err)
        | None \<Rightarrow> None))"

definition ListTopics :: "go_error + (string \<times> TopicDetail) list \<Rightarrow> go_error + string list" where
  "ListTopics answer =
     (case answer of
        Inl err \<Rightarrow> Inl (Wrapf ''list topics: %w'' [] err)
      | Inr topics \<Rightarrow> Inr (sort (map fst topics)))"

definition ListTopicPartitions :: "go_error + (string \<times> TopicDetail) list \<Rightarrow> string \<Rightarrow> go_error + int32 list" where
  "ListTopicPartitions answer topic =
     (case answer of
        Inl err \<Rightarrow> Inl (Wrapf ''list topic partitions: %w'' [] err)
      | Inr topics \<Rightarrow> (case map_of topics topic of
          None \<Rightarrow> Inl (Errorf ''topic %s not found'' [topic])
        | Some detail \<Rightarrow> Inr (td_Partitions detail)))"

definition ListTopicsDetails :: "go_error + (string \<times> TopicDetail) list \<Rightarrow> go_error + (string \<times> TopicDetail) list" where
  "ListTopicsDetails answer =
     (case answer of Inl err \<Rightarrow> Inl (Wrapf ''list topics: %w'' [] err) | Inr topics \<Rightarrow> Inr topics)"

definition TopicPartitions :: "go_error + (string \<times> TopicDetail) list \<Rightarrow> go_error + TopicPartition list" where
  "TopicPartitions answer =
     (case answer of
        Inl err \<Rightarrow> Inl (Wrapf ''describe topics: %w'' [] err)
      | Inr details \<Rightarrow> Inr (concat (map (\<lambda>(_, detail).
          map (\<lambda>p. \<lparr>tp_topic = td_Topic detail, tp_partition = p\<rparr>) (td_Partitions detail)) details)))"

text \<open>The first error in a list of per-topic responses.\<close>

fun first_response_err :: "go_error option list \<Rightarrow> go_error option" where
  "first_response_err [] = None"
| "first_response_err (r # rs) = (case r of Some e \<Rightarrow> Some e | None \<Rightarrow> first_response_err rs)"

definition CreateTopic :: "go_error + go_error option list \<Rightarrow> string \<Rightarrow> go_error option" where
  "CreateTopic answer name =
     (case answer of
        Inl err \<Rightarrow> Some (Wrapf ''create topic %s: %w'' [name] err)
      | Inr resp \<Rightarrow> map_option (Wrapf ''create topic %s: %w'' [name]) (first_response_err resp))"

text \<open>\<open>CreateCompactedTopic\<close>: one partition, \<open>cleanup.policy=compact\<close>; \<open>create\<close> is the library call.\<close>

definition CreateCompactedTopic :: "(string \<Rightarrow> int \<Rightarrow> int \<Rightarrow> (string \<times> string) list \<Rightarrow> go_error + go_error option list)
    \<Rightarrow> string \<Rightarrow> int \<Rightarrow> go_error option" where
  "CreateCompactedTopic create name replicationFactor =
     CreateTopic (create name 1 replicationFactor [(''cleanup.policy'', ''compact'')]) name"

text \<open>\<open>EnsurePartitions\<close> ignores every per-topic error, whatever it says.\<close>

definition EnsurePartitions :: "go_error + go_error option list \<Rightarrow> string \<Rightarrow> go_error option" where
  "EnsurePartitions answer topic =
     (case answer of
        Inl err \<Rightarrow> Some (Wrapf ''create partitions for %s: %w'' [topic] err)
      | Inr resp \<Rightarrow> None)"

definition ListConsumerGroups :: "go_error + string list \<Rightarrow> go_error + string list" where
  "ListConsumerGroups answer =
     (case answer of
        Inl err \<Rightarrow> Inl (Wrapf ''list consumer groups: %w'' [] err)
      | Inr names \<Rightarrow> Inr (sort names))"

definition FetchGroupOffsets :: "go_error + OffsetResponse list \<Rightarrow> string \<Rightarrow> go_error + (TopicPartition \<rightharpoonup> int64)" where
  "FetchGroupOffsets answer grp =
     (case answer of
        Inl err \<Rightarrow> Inl (Wrapf ''fetch offsets for group %s: %w'' [grp] err)
      | Inr offsets \<Rightarrow> Inr (foldl (\<lambda>m o'. m(or_tp o' \<mapsto> or_At o')) Map.empty offsets))"

fun add_entries :: "ConfigEntry list \<Rightarrow> (string \<rightharpoonup> string) \<Rightarrow> (string \<rightharpoonup> string)" where
  "add_entries [] m = m"
| "add_entries (e # es) m =
     add_entries es
       (if ce_Source e = ConfigSourceDynamicTopicConfig
        then (case ce_Value e of Some v \<Rightarrow> m(ce_Key e \<mapsto> v) | None \<Rightarrow> m) else m)"

fun add_resources :: "string \<Rightarrow> ResourceConfig list \<Rightarrow> (string \<rightharpoonup> string) \<Rightarrow> go_error + (string \<rightharpoonup> string)" where
  "add_resources topic [] m = Inr m"
| "add_resources topic (rc # rcs) m =
     (case rcf_Err rc of
        Some err \<Rightarrow> Inl (Wrapf ''describe topic config %s: %w'' [topic] err)
      | None \<Rightarrow> add_resources topic rcs (add_entries (rcf_Configs rc) m))"

definition DescribeTopicConfigs :: "go_error + ResourceConfig list \<Rightarrow> string \<Rightarrow> go_error + (string \<rightharpoonup> string)" where
  "DescribeTopicConfigs answer topic =
     (case answer of
        Inl err \<Rightarrow> Inl (Wrapf ''describe topic configs for %s: %w'' [topic] err)
      | Inr resources \<Rightarrow> add_resources topic resources Map.empty)"

text \<open>\<open>AlterTopicConfigs\<close>: \<open>alter\<close> is the library call; it gets one \<open>SetConfig\<close> per entry.\<close>

definition AlterTopicConfigs :: "(AlterConfig list \<Rightarrow> string \<Rightarrow> 'k \<Rightarrow> (go_error + go_error option list) \<times> 'k)
    \<Rightarrow> string \<Rightarrow> (string \<times> string) list \<Rightarrow> 'k \<Rightarrow> go_error option \<times> 'k" where
  "AlterTopicConfigs alter topic configs k =
     (case alter (map (\<lambda>(n, v). \<lparr>acf_Name = n, acf_Value = Some v\<rparr>) configs) topic k of
        (Inl err, k') \<Rightarrow> (Some (Wrapf ''alter topic configs for %s: %w'' [topic] err), k')
      | (Inr resp, k') \<Rightarrow> (map_option (Wrapf ''alter topic config %s: %w'' [topic]) (first_response_err resp), k'))"

text \<open>
  \<open>SyncTopicConfigs\<close>. \<open>srcKeys\<close> is the order in which Go iterates over the source's map; the
  target cluster \<open>k\<close> answers describe requests (\<open>describe\<close>) and is changed by \<open>alter\<close>.
  \<open>allowedProps\<close> is the nil map or the set of allowed names.
\<close>

definition configs_to_apply :: "string set option \<Rightarrow> string list \<Rightarrow> (string \<rightharpoonup> string) \<Rightarrow> (string \<rightharpoonup> string)
    \<Rightarrow> (string \<times> string) list" where
  "configs_to_apply allowedProps srcKeys srcConfigs tgtConfigs =
     concat (map (\<lambda>k. case srcConfigs k of
         None \<Rightarrow> []
       | Some v \<Rightarrow>
           if (case allowedProps of None \<Rightarrow> False | Some allowed \<Rightarrow> k \<notin> allowed) then []
           else if tgtConfigs k = Some v then [] else [(k, v)]) srcKeys)"

definition SyncTopicConfigs :: "go_error + ResourceConfig list \<Rightarrow> ('k \<Rightarrow> go_error + ResourceConfig list)
    \<Rightarrow> (AlterConfig list \<Rightarrow> string \<Rightarrow> 'k \<Rightarrow> (go_error + go_error option list) \<times> 'k)
    \<Rightarrow> string \<Rightarrow> string \<Rightarrow> string set option \<Rightarrow> string list \<Rightarrow> 'k \<Rightarrow> go_error option \<times> 'k" where
  "SyncTopicConfigs srcAnswer describe alter srcTopic tgtTopic allowedProps srcKeys k =
     (case DescribeTopicConfigs srcAnswer srcTopic of
        Inl err \<Rightarrow> (Some (Wrapf ''describe source topic %s configs: %w'' [srcTopic] err), k)
      | Inr srcConfigs \<Rightarrow>
          (case DescribeTopicConfigs (describe k) tgtTopic of
             Inl err \<Rightarrow> (Some (Wrapf ''describe target topic %s configs: %w'' [tgtTopic] err), k)
           | Inr tgtConfigs \<Rightarrow>
               (let toApply = configs_to_apply allowedProps srcKeys srcConfigs tgtConfigs
                in if toApply = [] then (None, k)
                   else (case AlterTopicConfigs alter tgtTopic toApply k of
                       (Some err, k') \<Rightarrow> (Some (Wrapf ''alter target topic %s configs: %w'' [tgtTopic] err), k')
                     | (None, k') \<Rightarrow> (None, k')))))"

section \<open>Lemmas\<close>

lemma ListTopics_sorted:
  "ListTopics (Inr topics) = Inr names \<Longrightarrow> sorted names \<and> set names = fst ` set topics"
  by (force simp: ListTopics_def)

lemma first_response_err_None: "first_response_err resp = None \<longleftrightarrow> (\<forall>r \<in> set resp. r = None)"
  by (induction resp) (auto split: option.splits)

text \<open>A property name passes the allow list; the nil map allows all.\<close>

definition allowed :: "string set option \<Rightarrow> string \<Rightarrow> bool" where
  "allowed allowedProps n \<longleftrightarrow> (case allowedProps of None \<Rightarrow> True | Some ps \<Rightarrow> n \<in> ps)"

lemma configs_to_apply_simps [simp]:
  "configs_to_apply ap [] src tgt = []"
  "configs_to_apply ap (k # ks) src tgt =
     (if allowed ap k \<and> src k \<noteq> None \<and> tgt k \<noteq> src k then [(k, the (src k))] else []) @ configs_to_apply ap ks src tgt"
  by (auto simp: configs_to_apply_def allowed_def split: option.splits)

lemma apply_configs:
  assumes "distinct ks"
  shows "foldl (\<lambda>m a. m(acf_Name a := acf_Value a)) tgt0
       (map (\<lambda>(n, v). \<lparr>acf_Name = n, acf_Value = Some v\<rparr>) (configs_to_apply ap ks src tgt)) n =
     (if n \<in> set ks \<and> allowed ap n \<and> src n \<noteq> None \<and> tgt n \<noteq> src n then src n else tgt0 n)"
  using assms
proof (induction ks arbitrary: tgt0)
  case (Cons k ks)
  then show ?case by auto
qed simp

lemma configs_to_apply_empty:
  "configs_to_apply ap ks src tgt = [] \<longleftrightarrow> (\<forall>k \<in> set ks. allowed ap k \<longrightarrow> src k \<noteq> None \<longrightarrow> tgt k = src k)"
  by (induction ks) auto

definition synced :: "string set option \<Rightarrow> (string \<rightharpoonup> string) \<Rightarrow> (string \<rightharpoonup> string) \<Rightarrow> (string \<rightharpoonup> string)" where
  "synced ap src tgt = (\<lambda>n. if allowed ap n \<and> src n \<noteq> None then src n else tgt n)"


text \<open>A cluster with one topic: its state is the list of the properties that were set, newest first.\<close>

definition demo_describe :: "(string \<times> string) list \<Rightarrow> go_error + ResourceConfig list" where
  "demo_describe kvs = Inr [\<lparr>rcf_Err = None, rcf_Configs = map (\<lambda>(n, v). \<lparr>ce_Key = n, ce_Value = Some v,
     ce_Source = ConfigSourceDynamicTopicConfig\<rparr>) (rev kvs)\<rparr>]"

definition demo_set :: "(string \<times> string) list \<Rightarrow> AlterConfig \<Rightarrow> (string \<times> string) list" where
  "demo_set kvs a = (case acf_Value a of
     Some v \<Rightarrow> (acf_Name a, v) # kvs | None \<Rightarrow> filter (\<lambda>kv. fst kv \<noteq> acf_Name a) kvs)"

definition demo_alter :: "AlterConfig list \<Rightarrow> string \<Rightarrow> (string \<times> string) list
    \<Rightarrow> (go_error + go_error option list) \<times> (string \<times> string) list" where
  "demo_alter acs topic kvs = (Inr [None], foldl demo_set kvs acs)"

lemma add_entries_append: "add_entries (es @ es') m = add_entries es' (add_entries es m)"
  by (induction es arbitrary: m) simp_all

lemma demo_describe_reads: "DescribeTopicConfigs (demo_describe kvs) topic = Inr (map_of kvs)"
proof -
  have "add_entries (map (\<lambda>(n, v). \<lparr>ce_Key = n, ce_Value = Some v, ce_Source = ConfigSourceDynamicTopicConfig\<rparr>) (rev kvs))
      Map.empty = map_of kvs"
    by (induction kvs) (auto simp: add_entries_append)
  then show ?thesis by (simp add: DescribeTopicConfigs_def demo_describe_def)
qed

lemma demo_set_conf: "map_of (demo_set kvs a) = (map_of kvs)(acf_Name a := acf_Value a)"
proof (cases "acf_Value a")
  case None
  have "map_of (filter (\<lambda>kv. fst kv \<noteq> x) kvs) n = ((map_of kvs)(x := None)) n" for x n
    by (induction kvs) auto
  with None show ?thesis by (auto simp: demo_set_def)
qed (simp add: demo_set_def)

lemma demo_alter_sets:
  "demo_alter acs topic kvs = (Inr resp, kvs') \<Longrightarrow>
   map_of kvs' = foldl (\<lambda>m a. m(acf_Name a := acf_Value a)) (map_of kvs) acs"
  unfolding demo_alter_def
  by (induction acs arbitrary: kvs) (auto simp: demo_set_conf)


end
