(* ===== verification/Topic_Discovery.thy ===== *)
theory Topic_Discovery
  imports Source_Replicator Admin_Client
begin

text \<open>
  \<open>internal/mirror/topic_discovery.go\<close>: one round of topic discovery decides which topics of the source
  cluster to replicate, brings the topics of the target cluster in line and subscribes the
  replicator. The round is a function of what the two clusters answer; its requests to the target
  are listed as actions.
\<close>

section \<open>Definitions\<close>

record 're TopicDiscovery =
  disc_cfg :: ReplicationConfig
  disc_srcCfg :: ClusterConfig
  disc_tgtCfg :: ClusterConfig
  disc_topicFilter :: "'re TopicFilter"
  disc_policy :: ReplicationPolicy
  disc_running :: bool

definition NewTopicDiscovery :: "(string \<Rightarrow> go_error + 're) \<Rightarrow> ReplicationConfig \<Rightarrow> ClusterConfig \<Rightarrow> ClusterConfig
    \<Rightarrow> go_error + 're TopicDiscovery" where
  "NewTopicDiscovery compile cfg srcCfg tgtCfg =
     (case NewTopicFilter compile (tfc_Whitelist (r_TopicFilter cfg)) (tfc_Blacklist (r_TopicFilter cfg)) of
        Inl err \<Rightarrow> Inl (Wrapf ''create topic filter: %w'' [] err)
      | Inr topicFilter \<Rightarrow>
          (case NewPolicy (r_ReplicationPolicy cfg) (r_Separator cfg) of
             Inl err \<Rightarrow> Inl (Wrapf ''create replication policy: %w'' [] err)
           | Inr pol \<Rightarrow> Inr \<lparr>disc_cfg = cfg, disc_srcCfg = srcCfg, disc_tgtCfg = tgtCfg, disc_topicFilter = topicFilter,
                             disc_policy = pol, disc_running = False\<rparr>))"

definition TopicDiscovery_Start :: "'re TopicDiscovery \<Rightarrow> go_error option \<times> 're TopicDiscovery" where
  "TopicDiscovery_Start td =
     (if disc_running td then (Some (Errorf ''topic discovery already running'' []), td)
      else (None, td\<lparr>disc_running := True\<rparr>))"

definition TopicDiscovery_Stop :: "'re TopicDiscovery \<Rightarrow> 're TopicDiscovery" where
  "TopicDiscovery_Stop td = (if \<not> disc_running td then td else td\<lparr>disc_running := False\<rparr>)"

interpretation discovery: lifecycle disc_running "\<lambda>_. True" TopicDiscovery_Start TopicDiscovery_Stop
  by unfold_locales (auto simp: TopicDiscovery_Start_def TopicDiscovery_Stop_def split: if_splits)

definition shouldReplicate :: "('re \<Rightarrow> string \<Rightarrow> bool) \<Rightarrow> 're TopicDiscovery \<Rightarrow> string \<Rightarrow> bool" where
  "shouldReplicate match td topic =
     (if IsInternalTopic (disc_policy td) topic then False
      else if IsHeartbeatsTopic (disc_policy td) topic then False
      else if TopicSource (disc_policy td) topic \<noteq> [] then False
      else TopicFilter_ShouldReplicate match (disc_topicFilter td) topic)"

datatype disc_action =
    ActCreateTopic string int int
  | ActCreatePartitions string int
  | ActSyncConfigs string string

text \<open>
  One replicable topic: the requests made to the target. \<open>create name\<close> is the answer to creating
  that topic; a failure skips the configuration.
\<close>

definition sync_action :: "'re TopicDiscovery \<Rightarrow> string \<Rightarrow> string \<Rightarrow> disc_action list" where
  "sync_action td srcTopic remoteTopic =
     (if BoolDefault (r_SyncTopicConfigs (disc_cfg td)) True then [ActSyncConfigs srcTopic remoteTopic] else [])"

definition mirror_topic :: "(string \<Rightarrow> go_error + go_error option list) \<Rightarrow> 're TopicDiscovery
    \<Rightarrow> (string \<times> TopicDetail) list \<Rightarrow> TopicDetail \<Rightarrow> disc_action list" where
  "mirror_topic create td tgtTopics srcDetail =
     (let srcTopic = td_Topic srcDetail;
          remoteTopic = FormatRemoteTopic (disc_policy td) (r_Source (disc_cfg td)) srcTopic;
          srcPartitions = int (length (td_Partitions srcDetail))
      in case map_of tgtTopics remoteTopic of
           None \<Rightarrow>
             ActCreateTopic remoteTopic srcPartitions (r_ReplicationFactor (disc_cfg td)) #
             (if CreateTopic (create remoteTopic) remoteTopic \<noteq> None then [] else sync_action td srcTopic remoteTopic)
         | Some tgtDetail \<Rightarrow>
             (let tgtPartitions = int (length (td_Partitions tgtDetail))
              in (if srcPartitions > tgtPartitions then [ActCreatePartitions remoteTopic srcPartitions] else []) @
                 sync_action td srcTopic remoteTopic))"

text \<open>
  \<open>refresh\<close>: the errors of the two admin clients, the answers to the two listings (the source's in
  the order of \<open>Sorted\<close>), and the source replicator; the result lists the requests, and gives the
  replicator, the topics added to its consumer, and the metrics.
\<close>

definition replicable :: "('re \<Rightarrow> string \<Rightarrow> bool) \<Rightarrow> 're TopicDiscovery \<Rightarrow> TopicDetail list \<Rightarrow> TopicDetail list" where
  "replicable match td srcTopics = filter (\<lambda>d. shouldReplicate match td (td_Topic d)) srcTopics"

definition refresh :: "('re \<Rightarrow> string \<Rightarrow> bool) \<Rightarrow> build_env \<Rightarrow> (kgo_opt list \<Rightarrow> go_error option)
    \<Rightarrow> go_error + (string \<times> TopicDetail) list \<Rightarrow> go_error + (string \<times> TopicDetail) list
    \<Rightarrow> (string \<Rightarrow> go_error + go_error option list) \<Rightarrow> 're TopicDiscovery \<Rightarrow> 're Source \<Rightarrow> metric_values
    \<Rightarrow> (disc_action list \<times> 're Source \<times> string list \<times> metric_values) outcome" where
  "refresh match env newClient srcAnswer tgtAnswer create td s mv =
     (if NewClient env newClient (disc_srcCfg td) \<noteq> None then Ret ([], s, [], mv)
      else if NewClient env newClient (disc_tgtCfg td) \<noteq> None then Ret ([], s, [], mv)
      else case ListTopicsDetails srcAnswer of
        Inl _ \<Rightarrow> Ret ([], s, [], mv)
      | Inr srcTopics \<Rightarrow>
          (case ListTopicsDetails tgtAnswer of
             Inl _ \<Rightarrow> Ret ([], s, [], mv)
           | Inr tgtTopics \<Rightarrow>
               (let found = replicable match td (map snd srcTopics);
                    actions = concat (map (mirror_topic create td tgtTopics) found);
                    topics = map td_Topic found
                in case set_metric (m_TopicsDiscovered all_metrics)
                          [r_Source (disc_cfg td), r_Target (disc_cfg td)] (int (length found)) mv of
                     Ret mv' \<Rightarrow>
                       (if topics \<noteq> [] then let (s', added) = UpdateTopics topics s in Ret (actions, s', added, mv')
                        else Ret (actions, s, [], mv'))
                   | Fail e \<Rightarrow> Fail e
                   | Panic m \<Rightarrow> Panic m)))"

text \<open>
  The loop: one round at once and one per tick, until the context ends; each round with the answers
  it gets. A panic in a round ends the process.
\<close>

record disc_round =
  dr_env :: build_env
  dr_newClient :: "kgo_opt list \<Rightarrow> go_error option"
  dr_srcAnswer :: "go_error + (string \<times> TopicDetail) list"
  dr_tgtAnswer :: "go_error + (string \<times> TopicDetail) list"
  dr_create :: "string \<Rightarrow> go_error + go_error option list"

fun discovery_loop :: "('re \<Rightarrow> string \<Rightarrow> bool) \<Rightarrow> 're TopicDiscovery \<Rightarrow> disc_round list \<Rightarrow> 're Source \<Rightarrow> metric_values
    \<Rightarrow> (disc_action list list \<times> 're Source \<times> metric_values) outcome" where
  "discovery_loop match td [] s mv = Ret ([], s, mv)"
| "discovery_loop match td (d # ds) s mv =
     (case refresh match (dr_env d) (dr_newClient d) (dr_srcAnswer d) (dr_tgtAnswer d) (dr_create d) td s mv of
        Ret (actions, s', added, mv') \<Rightarrow>
          (case discovery_loop match td ds s' mv' of
             Ret (rest, s'', mv'') \<Rightarrow> Ret (actions # rest, s'', mv'')
           | Fail e \<Rightarrow> Fail e | Panic m \<Rightarrow> Panic m)
      | Fail e \<Rightarrow> Fail e | Panic m \<Rightarrow> Panic m)"

section \<open>Lemmas\<close>

lemma shouldReplicate_iff:
  "shouldReplicate match td t \<longleftrightarrow> \<not> IsInternalTopic (disc_policy td) t \<and> \<not> IsHeartbeatsTopic (disc_policy td) t \<and>
     TopicSource (disc_policy td) t = [] \<and> TopicFilter_ShouldReplicate match (disc_topicFilter td) t"
  by (simp add: shouldReplicate_def)

lemma set_topics_discovered:
  "\<exists>mv'. set_metric (m_TopicsDiscovered all_metrics) [a, b] n mv = Ret mv'"
  by (simp add: set_metric_def WithLabelValues_def label_counts)


definition demo_discovery :: "string TopicDiscovery" where
  "demo_discovery = \<lparr>disc_cfg = set_replication_defaults demo_flow, disc_srcCfg = secure_cluster, disc_tgtCfg = secure_cluster,
     disc_topicFilter = \<lparr>tf_whitelist = [], tf_blacklist = []\<rparr>, disc_policy = DefaultPolicy ''.'', disc_running = False\<rparr>"


text \<open>What an action means for the target's topics, and which source topic asked for it.\<close>

definition action_ok :: "'re TopicDiscovery \<Rightarrow> (string \<times> TopicDetail) list \<Rightarrow> TopicDetail \<Rightarrow> disc_action \<Rightarrow> bool" where
  "action_ok td tgtTopics d a =
     (let remote = FormatRemoteTopic (disc_policy td) (r_Source (disc_cfg td)) (td_Topic d);
          n = int (length (td_Partitions d))
      in case a of
           ActCreateTopic name parts rf \<Rightarrow>
             name = remote \<and> map_of tgtTopics name = None \<and> parts = n \<and> rf = r_ReplicationFactor (disc_cfg td)
         | ActCreatePartitions name parts \<Rightarrow>
             name = remote \<and> parts = n \<and> (\<exists>t. map_of tgtTopics name = Some t \<and> int (length (td_Partitions t)) < parts)
         | ActSyncConfigs src name \<Rightarrow>
             name = remote \<and> src = td_Topic d \<and> BoolDefault (r_SyncTopicConfigs (disc_cfg td)) True)"

lemma mirror_topic_ok: "a \<in> set (mirror_topic create td tgtTopics d) \<Longrightarrow> action_ok td tgtTopics d a"
  by (auto simp: mirror_topic_def action_ok_def sync_action_def Let_def split: option.splits if_splits)

text \<open>The target topic of \<open>d\<close> is missing or too small: the action that mends it.\<close>

lemma mirror_topic_mends:
  fixes d td
  defines "remote \<equiv> FormatRemoteTopic (disc_policy td) (r_Source (disc_cfg td)) (td_Topic d)"
  shows "map_of tgtTopics remote = None \<Longrightarrow>
      ActCreateTopic remote (int (length (td_Partitions d))) (r_ReplicationFactor (disc_cfg td)) \<in> set (mirror_topic create td tgtTopics d)"
    and "map_of tgtTopics remote = Some t \<Longrightarrow> length (td_Partitions t) < length (td_Partitions d) \<Longrightarrow>
      ActCreatePartitions remote (int (length (td_Partitions d))) \<in> set (mirror_topic create td tgtTopics d)"
  by (simp_all add: mirror_topic_def remote_def Let_def)

lemma UpdateTopics_added: "set (snd (UpdateTopics ts s)) \<subseteq> set ts"
  using subscribe_new_spec [of ts "src_subscribedTopics s" "[]"]
  by (cases "subscribe_new ts (src_subscribedTopics s) []") (auto simp: UpdateTopics_def)



end
