(* ===== verification/Checkpoint_Emitter.thy ===== *)
theory Checkpoint_Emitter
  imports Source_Replicator Admin_Client
begin

text \<open>
  \<open>internal/mirror/checkpoint.go\<close>: the checkpoint emitter translates the committed offsets of the source
  cluster's consumer groups and writes them as checkpoint records. One emission is a function of the
  sync store and of the cluster's answers: the list of groups and the offsets of each.
\<close>

section \<open>Definitions\<close>

record 're CheckpointEmitter =
  ckp_cfg :: ReplicationConfig
  ckp_srcCfg :: ClusterConfig
  ckp_tgtCfg :: ClusterConfig
  ckp_topicFilter :: "'re TopicFilter"
  ckp_groupFilter :: "'re GroupFilter"
  ckp_policy :: ReplicationPolicy
  ckp_srcAdmin :: "kgo_opt list option"
  ckp_producer :: "kgo_opt list option"
  ckp_running :: bool

definition NewCheckpoint :: "(string \<Rightarrow> go_error + 're) \<Rightarrow> ReplicationConfig \<Rightarrow> ClusterConfig \<Rightarrow> ClusterConfig
    \<Rightarrow> go_error + 're CheckpointEmitter" where
  "NewCheckpoint compile cfg srcCfg tgtCfg =
     (case NewTopicFilter compile (tfc_Whitelist (r_TopicFilter cfg)) (tfc_Blacklist (r_TopicFilter cfg)) of
        Inl err \<Rightarrow> Inl (Wrapf ''create topic filter: %w'' [] err)
      | Inr topicFilter \<Rightarrow>
          (case NewGroupFilter compile (gfc_Whitelist (r_GroupFilter cfg)) (gfc_Blacklist (r_GroupFilter cfg)) of
             Inl err \<Rightarrow> Inl (Wrapf ''create group filter: %w'' [] err)
           | Inr groupFilter \<Rightarrow>
               (case NewPolicy (r_ReplicationPolicy cfg) (r_Separator cfg) of
                  Inl err \<Rightarrow> Inl (Wrapf ''create replication policy: %w'' [] err)
                | Inr pol \<Rightarrow> Inr \<lparr>ckp_cfg = cfg, ckp_srcCfg = srcCfg, ckp_tgtCfg = tgtCfg, ckp_topicFilter = topicFilter,
                    ckp_groupFilter = groupFilter, ckp_policy = pol, ckp_srcAdmin = None, ckp_producer = None,
                    ckp_running = False\<rparr>)))"

definition Checkpoint_Start :: "build_env \<Rightarrow> (kgo_opt list \<Rightarrow> go_error option) \<Rightarrow> 're CheckpointEmitter
    \<Rightarrow> go_error option \<times> 're CheckpointEmitter" where
  "Checkpoint_Start env newClient c =
     (if ckp_running c then (Some (Errorf ''checkpoint already running'' []), c)
      else if \<not> BoolDefault (r_EmitCheckpoints (ckp_cfg c)) True then (None, c)
      else case BuildClientOpts env (ckp_srcCfg c) of
        Inl err \<Rightarrow> (Some (Wrapf ''build source client opts: %w'' [] err), c)
      | Inr srcOpts \<Rightarrow>
          (case newClient srcOpts of
             Some err \<Rightarrow> (Some (Wrapf ''create source admin client: %w'' [] err), c)
           | None \<Rightarrow>
               (let c = c\<lparr>ckp_srcAdmin := Some srcOpts\<rparr> in
                case BuildClientOpts env (ckp_tgtCfg c) of
                  Inl err \<Rightarrow> (Some (Wrapf ''build target client opts: %w'' [] err), c)
                | Inr tgtOpts \<Rightarrow>
                    (let tgtOpts = tgtOpts @ [RequiredAcks_AllISR] in
                     case newClient tgtOpts of
                       Some err \<Rightarrow> (Some (Wrapf ''create checkpoint producer: %w'' [] err), c)
                     | None \<Rightarrow> (None, c\<lparr>ckp_producer := Some tgtOpts, ckp_running := True\<rparr>)))))"

definition Checkpoint_Stop :: "'re CheckpointEmitter \<Rightarrow> 're CheckpointEmitter" where
  "Checkpoint_Stop c = (if \<not> ckp_running c then c else c\<lparr>ckp_running := False\<rparr>)"

interpretation checkpoint: lifecycle ckp_running "\<lambda>c. BoolDefault (r_EmitCheckpoints (ckp_cfg c)) True"
    "Checkpoint_Start env newClient" Checkpoint_Stop for env newClient
  by unfold_locales (auto simp: Checkpoint_Start_def Checkpoint_Stop_def Let_def split: sum.splits option.splits if_splits)

text \<open>The checkpoint for one committed offset of a group, if it can be translated.\<close>

definition checkpoint_of :: "('re \<Rightarrow> string \<Rightarrow> bool) \<Rightarrow> 're CheckpointEmitter \<Rightarrow> SyncStore \<Rightarrow> string \<Rightarrow> OffsetResponse
    \<Rightarrow> Checkpoint option" where
  "checkpoint_of match c store grp o' =
     (if \<not> TopicFilter_ShouldReplicate match (ckp_topicFilter c) (tp_topic (or_tp o')) then None
      else let (downstream, ok) = TranslateDownstream store (or_tp o') (or_At o')
           in if \<not> ok then None
              else if downstream <s 0 then None
              else Some \<lparr>cp_group = grp, cp_tp = or_tp o', cp_upstream = or_At o', cp_downstream = downstream,
                         cp_metadata = []\<rparr>)"

definition checkpoint_record :: "'re CheckpointEmitter \<Rightarrow> Checkpoint \<Rightarrow> Record" where
  "checkpoint_record c cp = zero_record\<lparr>rec_topic := CheckpointsTopic (ckp_policy c) (r_Source (ckp_cfg c)),
     rec_key := Checkpoint_SerializeKey cp, rec_value := Checkpoint_SerializeValue cp\<rparr>"

text \<open>One group: its offsets, or a logged error.\<close>

definition group_checkpoints :: "('re \<Rightarrow> string \<Rightarrow> bool) \<Rightarrow> 're CheckpointEmitter \<Rightarrow> SyncStore
    \<Rightarrow> (string \<Rightarrow> go_error + OffsetResponse list) \<Rightarrow> string \<Rightarrow> Checkpoint list" where
  "group_checkpoints match c store fetchOffsets grp =
     (if \<not> GroupFilter_ShouldReplicate match (ckp_groupFilter c) grp then []
      else case fetchOffsets grp of
        Inl _ \<Rightarrow> []
      | Inr offsets \<Rightarrow> List.map_filter (checkpoint_of match c store grp) offsets)"

definition emitCheckpoints :: "('re \<Rightarrow> string \<Rightarrow> bool) \<Rightarrow> 're CheckpointEmitter \<Rightarrow> SyncStore
    \<Rightarrow> go_error + string list \<Rightarrow> (string \<Rightarrow> go_error + OffsetResponse list) \<Rightarrow> go_error option \<times> Record list" where
  "emitCheckpoints match c store listGroups fetchOffsets =
     (if \<not> IsReady store then (None, [])
      else case listGroups of
        Inl err \<Rightarrow> (Some (Wrapf ''list consumer groups: %w'' [] err), [])
      | Inr groups \<Rightarrow>
          (None, map (checkpoint_record c) (concat (map (group_checkpoints match c store fetchOffsets) groups))))"

text \<open>The callback of a produced checkpoint.\<close>

definition checkpoint_callback :: "'re CheckpointEmitter \<Rightarrow> go_error option \<Rightarrow> metric_values \<Rightarrow> metric_values outcome" where
  "checkpoint_callback c err mv =
     (case err of
        Some _ \<Rightarrow> Ret mv
      | None \<Rightarrow> add_metric (m_CheckpointsEmitted all_metrics) [r_Source (ckp_cfg c), r_Target (ckp_cfg c)] 1 mv)"

text \<open>
  The loop: per tick the store as it is then and the answers of the source cluster; an error of an
  emission is only logged. The result lists the records of each tick.
\<close>

fun checkpoint_emitLoop :: "('re \<Rightarrow> string \<Rightarrow> bool) \<Rightarrow> 're CheckpointEmitter
    \<Rightarrow> (SyncStore \<times> (go_error + string list) \<times> (string \<Rightarrow> go_error + OffsetResponse list)) list \<Rightarrow> Record list list" where
  "checkpoint_emitLoop match c [] = []"
| "checkpoint_emitLoop match c ((store, groups, offsets) # ticks) =
     snd (emitCheckpoints match c store groups offsets) # checkpoint_emitLoop match c ticks"

section \<open>Lemmas\<close>

lemma checkpoint_of_Some:
  "checkpoint_of match c store grp o' = Some cp \<longleftrightarrow>
     TopicFilter_ShouldReplicate match (ckp_topicFilter c) (tp_topic (or_tp o')) \<and>
     cp = \<lparr>cp_group = grp, cp_tp = or_tp o', cp_upstream = or_At o', cp_downstream = cp_downstream cp, cp_metadata = []\<rparr> \<and>
     TranslateDownstream store (or_tp o') (or_At o') = (cp_downstream cp, True) \<and> 0 \<le> sint (cp_downstream cp)"
  by (cases cp) (auto simp: checkpoint_of_def word_sless_alt split: prod.splits)

lemma map_filter_set: "x \<in> set (List.map_filter f xs) \<longleftrightarrow> (\<exists>y \<in> set xs. f y = Some x)"
  by (force simp: List.map_filter_def)

lemma group_checkpoints_set:
  "cp \<in> set (group_checkpoints match c store fetchOffsets grp) \<longleftrightarrow>
     GroupFilter_ShouldReplicate match (ckp_groupFilter c) grp \<and>
     (\<exists>offsets. fetchOffsets grp = Inr offsets \<and> (\<exists>o' \<in> set offsets. checkpoint_of match c store grp o' = Some cp))"
  by (cases "fetchOffsets grp") (auto simp: group_checkpoints_def map_filter_set)

text \<open>Where an emitted record comes from.\<close>

lemma emitted_checkpoint:
  assumes "emitCheckpoints match c store (Inr groups) fetchOffsets = (err, records)" and "r \<in> set records"
  obtains cp offsets o' where "r = checkpoint_record c cp" "cp_group cp \<in> set groups" "fetchOffsets (cp_group cp) = Inr offsets"
    "o' \<in> set offsets" "cp_tp cp = or_tp o'" "cp_upstream cp = or_At o'"
    "GroupFilter_ShouldReplicate match (ckp_groupFilter c) (cp_group cp)"
    "TopicFilter_ShouldReplicate match (ckp_topicFilter c) (tp_topic (cp_tp cp))" "0 \<le> sint (cp_downstream cp)"
    "TranslateDownstream store (cp_tp cp) (cp_upstream cp) = (cp_downstream cp, True)"
proof -
  obtain grp cp where grp: "grp \<in> set groups" "cp \<in> set (group_checkpoints match c store fetchOffsets grp)" "r = checkpoint_record c cp"
    using assms by (auto simp: emitCheckpoints_def split: if_splits)
  then obtain offsets o' where o': "GroupFilter_ShouldReplicate match (ckp_groupFilter c) grp"
    "fetchOffsets grp = Inr offsets" "o' \<in> set offsets" "checkpoint_of match c store grp o' = Some cp"
    by (auto simp: group_checkpoints_set)
  from o'(4) [unfolded checkpoint_of_Some] have cp: "cp_group cp = grp" "cp_tp cp = or_tp o'" "cp_upstream cp = or_At o'"
    "TopicFilter_ShouldReplicate match (ckp_topicFilter c) (tp_topic (or_tp o'))"
    "TranslateDownstream store (or_tp o') (or_At o') = (cp_downstream cp, True)" "0 \<le> sint (cp_downstream cp)"
    by (cases cp; simp)+
  show thesis by (rule that [of cp offsets o']) (use grp o' cp in simp_all)
qed

text \<open>
  Failing over with an emitted checkpoint loses nothing. Let the store be any reachable one and
  its retained syncs truthful for a partition (the record with source offset \<open>k\<close> is on the target at
  \<open>f k\<close>, in order). Then the target offset of every checkpoint emitted for that partition is not
  negative and not beyond the target position of any record at or after the group's committed offset;
  the checkpoint is for a listed group that passes the group filter, a topic that passes the topic
  filter, and the offset that group committed.
\<close>

lemma checkpoint_never_skips:
  assumes "store_reach store" and "emitCheckpoints match c store (Inr groups) fetchOffsets = (err, records)"
    and "r \<in> set records"
  shows "\<exists>cp offsets o'. r = checkpoint_record c cp \<and> cp_group cp \<in> set groups \<and> fetchOffsets (cp_group cp) = Inr offsets \<and>
    o' \<in> set offsets \<and> cp_tp cp = or_tp o' \<and> cp_upstream cp = or_At o' \<and>
    GroupFilter_ShouldReplicate match (ckp_groupFilter c) (cp_group cp) \<and>
    TopicFilter_ShouldReplicate match (ckp_topicFilter c) (tp_topic (cp_tp cp)) \<and> 0 \<le> sint (cp_downstream cp) \<and>
    (\<forall>R f k. placed (set (slots_of store (cp_tp cp))) R f \<and> k \<in> R \<and> sint (cp_upstream cp) \<le> k \<longrightarrow>
       sint (cp_downstream cp) \<le> f k)"
  using assms(2,3)
proof (cases rule: emitted_checkpoint)
  case (1 cp offsets o')
  have "sint (cp_downstream cp) \<le> f k"
    if "placed (set (slots_of store (cp_tp cp))) R f" "k \<in> R" "sint (cp_upstream cp) \<le> k" for R f k
    using store.translate_skips_nothing [OF store_reach_ok [OF assms(1)] 1(10)] that by simp
  with 1 show ?thesis by metis
qed

definition demo_emitter :: "string CheckpointEmitter" where
  "demo_emitter = \<lparr>ckp_cfg = demo_flow, ckp_srcCfg = secure_cluster, ckp_tgtCfg = secure_cluster,
     ckp_topicFilter = \<lparr>tf_whitelist = [], tf_blacklist = []\<rparr>, ckp_groupFilter = \<lparr>gf_whitelist = [], gf_blacklist = []\<rparr>,
     ckp_policy = DefaultPolicy ''.'', ckp_srcAdmin = None, ckp_producer = None, ckp_running = True\<rparr>"

lemma demo_emission:
  "emitCheckpoints (\<lambda>_ _. False) demo_emitter demo_store (Inr [''g'']) (\<lambda>_. Inr [\<lparr>or_tp = tp_t0, or_At = 120\<rparr>])
     = (None, [checkpoint_record demo_emitter
         \<lparr>cp_group = ''g'', cp_tp = tp_t0, cp_upstream = 120, cp_downstream = 52, cp_metadata = []\<rparr>])"
proof -
  have "checkpoint_of (\<lambda>_ _. False) demo_emitter demo_store ''g'' \<lparr>or_tp = tp_t0, or_At = 120\<rparr>
     = Some \<lparr>cp_group = ''g'', cp_tp = tp_t0, cp_upstream = 120, cp_downstream = 52, cp_metadata = []\<rparr>"
    by (simp add: checkpoint_of_Some demo_translate demo_emitter_def TopicFilter_ShouldReplicate_def HasPrefix_def)
  then show ?thesis
    by (simp add: emitCheckpoints_def IsReady_def demo_ready group_checkpoints_def List.map_filter_def
      demo_emitter_def GroupFilter_ShouldReplicate_def)
qed

lemma checkpoint_never_skips_example:
  "\<exists>cp offsets o'. checkpoint_record demo_emitter
      \<lparr>cp_group = ''g'', cp_tp = tp_t0, cp_upstream = 120, cp_downstream = 52, cp_metadata = []\<rparr> = checkpoint_record demo_emitter cp \<and>
    cp_group cp \<in> set [''g''] \<and> Inr [\<lparr>or_tp = tp_t0, or_At = 120\<rparr>] = (Inr offsets :: go_error + OffsetResponse list) \<and>
    o' \<in> set offsets \<and> cp_tp cp = or_tp o' \<and> cp_upstream cp = or_At o' \<and>
    GroupFilter_ShouldReplicate (\<lambda>_ _. False) (ckp_groupFilter demo_emitter) (cp_group cp) \<and>
    TopicFilter_ShouldReplicate (\<lambda>_ _. False) (ckp_topicFilter demo_emitter) (tp_topic (cp_tp cp)) \<and> 0 \<le> sint (cp_downstream cp) \<and>
    (\<forall>R f k. placed (set (slots_of demo_store (cp_tp cp))) R f \<and> k \<in> R \<and> sint (cp_upstream cp) \<le> k \<longrightarrow>
       sint (cp_downstream cp) \<le> f k)"
  by (rule checkpoint_never_skips [OF demo_reach demo_emission]) simp

end
