(* ===== verification/Heartbeat_Emitter.thy ===== *)
theory Heartbeat_Emitter
  imports Source_Replicator
begin

text \<open>
  \<open>internal/mirror/heartbeat.go\<close>: the heartbeat emitter writes one record per tick of its timer to
  the heartbeats topic of the target cluster. The ticks, each with the time it reads, are the
  arguments of the loop.
\<close>

section \<open>Definitions\<close>

record HeartbeatEmitter =
  hbe_cfg :: ReplicationConfig
  hbe_tgtCfg :: ClusterConfig
  hbe_policy :: ReplicationPolicy
  hbe_producer :: "kgo_opt list option"
  hbe_running :: bool

definition NewHeartbeat :: "ReplicationConfig \<Rightarrow> ClusterConfig \<Rightarrow> go_error + HeartbeatEmitter" where
  "NewHeartbeat cfg tgtCfg =
     (case NewPolicy (r_ReplicationPolicy cfg) (r_Separator cfg) of
        Inl err \<Rightarrow> Inl (Wrapf ''create replication policy: %w'' [] err)
      | Inr pol \<Rightarrow> Inr \<lparr>hbe_cfg = cfg, hbe_tgtCfg = tgtCfg, hbe_policy = pol, hbe_producer = None, hbe_running = False\<rparr>)"

definition Heartbeat_Start :: "build_env \<Rightarrow> (kgo_opt list \<Rightarrow> go_error option) \<Rightarrow> HeartbeatEmitter
    \<Rightarrow> go_error option \<times> HeartbeatEmitter" where
  "Heartbeat_Start env newClient h =
     (if hbe_running h then (Some (Errorf ''heartbeat already running'' []), h)
      else if \<not> BoolDefault (r_EmitHeartbeats (hbe_cfg h)) True then (None, h)
      else case BuildClientOpts env (hbe_tgtCfg h) of
        Inl err \<Rightarrow> (Some (Wrapf ''build target client opts: %w'' [] err), h)
      | Inr opts \<Rightarrow>
          (let opts = opts @ [RequiredAcks_AllISR] in
           case newClient opts of
             Some err \<Rightarrow> (Some (Wrapf ''create heartbeat producer: %w'' [] err), h)
           | None \<Rightarrow> (None, h\<lparr>hbe_producer := Some opts, hbe_running := True\<rparr>)))"

definition Heartbeat_Stop :: "HeartbeatEmitter \<Rightarrow> HeartbeatEmitter" where
  "Heartbeat_Stop h = (if \<not> hbe_running h then h else h\<lparr>hbe_running := False\<rparr>)"

interpretation heartbeat: lifecycle hbe_running "\<lambda>h. BoolDefault (r_EmitHeartbeats (hbe_cfg h)) True"
    "Heartbeat_Start env newClient" Heartbeat_Stop for env newClient
  by unfold_locales (auto simp: Heartbeat_Start_def Heartbeat_Stop_def Let_def split: sum.splits option.splits if_splits)

definition emitHeartbeat :: "HeartbeatEmitter \<Rightarrow> int \<Rightarrow> Record" where
  "emitHeartbeat h now =
     (let hb = \<lparr>hb_source = r_Source (hbe_cfg h), hb_target = r_Target (hbe_cfg h), hb_timestamp = now\<rparr>
      in zero_record\<lparr>rec_topic := HeartbeatsTopic (hbe_policy h), rec_key := Heartbeat_SerializeKey hb,
           rec_value := Heartbeat_SerializeValue hb\<rparr>)"

text \<open>
  The callback: the latency is observed in a histogram, whose value in the model is the sum of its
  observations, in nanoseconds.
\<close>

definition heartbeat_callback :: "HeartbeatEmitter \<Rightarrow> int \<Rightarrow> int \<Rightarrow> go_error option \<Rightarrow> metric_values \<Rightarrow> metric_values outcome" where
  "heartbeat_callback h now later err mv =
     (case err of
        Some _ \<Rightarrow> Ret mv
      | None \<Rightarrow> add_metric (m_HeartbeatLatency all_metrics) [r_Source (hbe_cfg h), r_Target (hbe_cfg h)] (later - now) mv)"

text \<open>What the \<open>select\<close> of the loop chooses: a tick, or the end of the context.\<close>

datatype tick_event = Tick int | CtxDone

fun heartbeat_emitLoop :: "HeartbeatEmitter \<Rightarrow> tick_event list \<Rightarrow> Record list" where
  "heartbeat_emitLoop h [] = []"
| "heartbeat_emitLoop h (CtxDone # evs) = []"
| "heartbeat_emitLoop h (Tick now # evs) = emitHeartbeat h now # heartbeat_emitLoop h evs"

section \<open>Lemmas\<close>

lemma heartbeat_emitLoop_Tick:
  "r \<in> set (heartbeat_emitLoop h evs) \<Longrightarrow> \<exists>now. Tick now \<in> set evs \<and> r = emitHeartbeat h now"
  by (induction h evs rule: heartbeat_emitLoop.induct) auto

lemma emitHeartbeat_fields [simp]:
  "rec_topic (emitHeartbeat h now) = HeartbeatsTopic (hbe_policy h)"
  "rec_key (emitHeartbeat h now) = length_prefixed (r_Source (hbe_cfg h)) @ length_prefixed (r_Target (hbe_cfg h))"
  "rec_value (emitHeartbeat h now) = PutUint16 0 @ PutUint64 (UnixMilli now)"
  by (simp_all add: emitHeartbeat_def Heartbeat_key_eq Heartbeat_value_eq)

text \<open>A heartbeat is counted under the flow's two labels, and a failed one not at all; no label is missing.\<close>

lemma heartbeat_callback_ok: "\<exists>mv'. heartbeat_callback h now later err mv = Ret mv'"
  by (cases err) (simp_all add: heartbeat_callback_def add_metric_def WithLabelValues_def label_counts)

text \<open>Stopping and starting again succeeds when starting succeeded before.\<close>

lemma heartbeat_restart:
  "Heartbeat_Start env newClient h = (None, h') \<Longrightarrow> hbe_running h' \<Longrightarrow>
     Heartbeat_Start env newClient (Heartbeat_Stop h') = (None, h')"
  by (auto simp: Heartbeat_Start_def Heartbeat_Stop_def Let_def split: if_splits sum.splits option.splits)

text \<open>
  What the heartbeats say. Every record the loop writes is on the heartbeats topic, and the
  records of two emitters have the same key exactly when the emitters serve the same flow (the
  cluster names being shorter than 65536 bytes), so a reader of the compacted topic sees the
  latest heartbeat of each flow; the value after the two version bytes is the time of a tick in
  milliseconds.
\<close>

lemma heartbeats_identify_flow:
  assumes "r \<in> set (heartbeat_emitLoop g evs)" and "r' \<in> set (heartbeat_emitLoop h evs')"
    and "length (r_Source (hbe_cfg g)) < 2 ^ 16" and "length (r_Source (hbe_cfg h)) < 2 ^ 16"
    and "length (r_Target (hbe_cfg g)) < 2 ^ 16" and "length (r_Target (hbe_cfg h)) < 2 ^ 16"
  shows "rec_topic r = ''heartbeats'' \<and>
    (rec_key r = rec_key r' \<longleftrightarrow> r_Source (hbe_cfg g) = r_Source (hbe_cfg h) \<and> r_Target (hbe_cfg g) = r_Target (hbe_cfg h)) \<and>
    (\<exists>now. Tick now \<in> set evs \<and> Uint64 (drop 2 (rec_value r)) = Some (UnixMilli now))"
proof -
  obtain now where now: "Tick now \<in> set evs" "r = emitHeartbeat g now" using heartbeat_emitLoop_Tick [OF assms(1)] by blast
  obtain now' where now': "r' = emitHeartbeat h now'" using heartbeat_emitLoop_Tick [OF assms(2)] by blast
  have "rec_topic r = ''heartbeats''" by (cases "hbe_policy g") (simp_all add: now)
  moreover have "rec_key r = rec_key r' \<longleftrightarrow>
      r_Source (hbe_cfg g) = r_Source (hbe_cfg h) \<and> r_Target (hbe_cfg g) = r_Target (hbe_cfg h)"
    using length_prefixed_eq_iff [OF assms(3,4)] length_prefixed_eq_iff [OF assms(5,6), of "[]" "[]"]
    by (simp add: now now')
  moreover have "Uint64 (drop 2 (rec_value r)) = Some (UnixMilli now)"
    by (simp add: now PutUint16_def)
  ultimately show ?thesis using now(1) by blast
qed

definition demo_heartbeat :: HeartbeatEmitter where
  "demo_heartbeat = \<lparr>hbe_cfg = demo_flow, hbe_tgtCfg = secure_cluster, hbe_policy = IdentityPolicy, hbe_producer = None,
     hbe_running = True\<rparr>"

lemma heartbeats_identify_flow_example:
  "rec_topic (emitHeartbeat demo_heartbeat 5000000) = ''heartbeats'' \<and>
    (rec_key (emitHeartbeat demo_heartbeat 5000000) = rec_key (emitHeartbeat demo_heartbeat 7000000) \<longleftrightarrow>
      r_Source (hbe_cfg demo_heartbeat) = r_Source (hbe_cfg demo_heartbeat) \<and>
      r_Target (hbe_cfg demo_heartbeat) = r_Target (hbe_cfg demo_heartbeat)) \<and>
    (\<exists>now. Tick now \<in> set [Tick 5000000, CtxDone] \<and>
      Uint64 (drop 2 (rec_value (emitHeartbeat demo_heartbeat 5000000))) = Some (UnixMilli now))"
  by (rule heartbeats_identify_flow [of _ _ "[Tick 5000000, CtxDone]" _ _ "[Tick 7000000]"])
    (simp_all add: demo_heartbeat_def demo_flow_def)

end
