(* ===== verification/Mirror_Engine.thy ===== *)
theory Mirror_Engine
  imports Sync_Topic Catch_Up_Pipeline Topic_Discovery Checkpoint_Emitter Heartbeat_Emitter "HOL-Library.AList"
begin

text \<open>
  \<open>internal/mirror/engine.go\<close>: the engine builds the components of every enabled replication, loads
  the offset syncs, catches up partitions with a high lag, starts the components and stops them.

  Objects that the code shares through pointers are entries of lists, and a pointer is an index: flow
  \<open>i\<close> is the \<open>i\<close>-th enabled replication, its sync store is \<open>e_stores ! i\<close> (shared by its source,
  its checkpoint emitter and its reader) and its source is \<open>e_sources ! i\<close>. The two maps of the
  engine are association lists from flow keys to indices. A writer handed to a source is held by
  value there; it is also in the engine's list.
\<close>

section \<open>State\<close>

record 're Engine =
  e_cfg :: Config
  e_sources :: "'re Source list"
  e_sourcesByFlow :: "(string \<times> nat) list"
  e_heartbeats :: "HeartbeatEmitter list"
  e_checkpoints :: "'re CheckpointEmitter list"
  e_topicDiscoveries :: "'re TopicDiscovery list"
  e_stores :: "SyncStore list"
  e_syncStores :: "(string \<times> nat) list"
  e_syncReaders :: "(SyncReader \<times> nat) list"
  e_syncWriters :: "SyncWriter list"
  e_dlqs :: "DLQ list"
  e_httpServer :: bool
  e_running :: bool

datatype slog_Level = LevelDebug | LevelInfo | LevelWarn | LevelError

definition parseLogLevel :: "string \<Rightarrow> slog_Level" where
  "parseLogLevel level =
     (if level = ''debug'' then LevelDebug
      else if level = ''warn'' then LevelWarn
      else if level = ''error'' then LevelError
      else LevelInfo)"

section \<open>Construction\<close>

definition flowKey :: "ReplicationConfig \<Rightarrow> string" where
  "flowKey r = r_Source r @ ''->'' @ r_Target r"

definition empty_engine :: "Config \<Rightarrow> 're Engine" where
  "empty_engine cfg = \<lparr>e_cfg = cfg, e_sources = [], e_sourcesByFlow = [], e_heartbeats = [], e_checkpoints = [],
     e_topicDiscoveries = [], e_stores = [], e_syncStores = [], e_syncReaders = [], e_syncWriters = [], e_dlqs = [],
     e_httpServer = False, e_running = False\<rparr>"

text \<open>The body of the loop of \<open>NewEngine\<close>, for an enabled replication.\<close>

definition add_flow :: "(string \<Rightarrow> go_error + 're) \<Rightarrow> build_env \<Rightarrow> (kgo_opt list \<Rightarrow> go_error option)
    \<Rightarrow> ReplicationConfig \<Rightarrow> 're Engine \<Rightarrow> go_error + 're Engine" where
  "add_flow compile env newClient r e =
     (case map_of (c_Clusters (e_cfg e)) (r_Source r) of
        None \<Rightarrow> Inl (Errorf ''source cluster %q not defined'' [r_Source r])
      | Some srcCfg \<Rightarrow>
     (case map_of (c_Clusters (e_cfg e)) (r_Target r) of
        None \<Rightarrow> Inl (Errorf ''target cluster %q not defined'' [r_Target r])
      | Some tgtCfg \<Rightarrow>
     (let syncStore = NewSyncStore;
          e = e\<lparr>e_syncStores := AList.update (flowKey r) (length (e_stores e)) (e_syncStores e),
                e_stores := e_stores e @ [syncStore]\<rparr>
      in case NewSource compile env newClient r srcCfg tgtCfg (Some syncStore) of
        Inl err \<Rightarrow> Inl (Wrapf ''create source for %s: %w'' [flowKey r] err)
      | Inr src \<Rightarrow>
     (case NewDLQ env newClient r tgtCfg of
        Inl err \<Rightarrow> Inl (Wrapf ''create DLQ for %s: %w'' [flowKey r] err)
      | Inr dlq \<Rightarrow>
     (let src = (case dlq of None \<Rightarrow> src | Some d \<Rightarrow> SetDLQ (Some d) src);
          e = e\<lparr>e_sourcesByFlow := AList.update (flowKey r) (length (e_sources e)) (e_sourcesByFlow e),
                e_sources := e_sources e @ [src],
                e_dlqs := e_dlqs e @ (case dlq of None \<Rightarrow> [] | Some d \<Rightarrow> [d])\<rparr>
      in case NewHeartbeat r tgtCfg of
        Inl err \<Rightarrow> Inl (Wrapf ''create heartbeat for %s: %w'' [flowKey r] err)
      | Inr hb \<Rightarrow>
     (case NewCheckpoint compile r srcCfg tgtCfg of
        Inl err \<Rightarrow> Inl (Wrapf ''create checkpoint for %s: %w'' [flowKey r] err)
      | Inr cp \<Rightarrow>
     (case NewTopicDiscovery compile r srcCfg tgtCfg of
        Inl err \<Rightarrow> Inl (Wrapf ''create topic discovery for %s: %w'' [flowKey r] err)
      | Inr td \<Rightarrow> Inr (e\<lparr>e_heartbeats := e_heartbeats e @ [hb], e_checkpoints := e_checkpoints e @ [cp],
                          e_topicDiscoveries := e_topicDiscoveries e @ [td]\<rparr>))))))))"

fun add_flows :: "(string \<Rightarrow> go_error + 're) \<Rightarrow> build_env \<Rightarrow> (kgo_opt list \<Rightarrow> go_error option)
    \<Rightarrow> ReplicationConfig list \<Rightarrow> 're Engine \<Rightarrow> go_error + 're Engine" where
  "add_flows compile env newClient [] e = Inr e"
| "add_flows compile env newClient (r # rs) e =
     (if \<not> r_Enabled r then add_flows compile env newClient rs e
      else case add_flow compile env newClient r e of
        Inl err \<Rightarrow> Inl err
      | Inr e' \<Rightarrow> add_flows compile env newClient rs e')"

definition NewEngine :: "(string \<Rightarrow> go_error + 're) \<Rightarrow> build_env \<Rightarrow> (kgo_opt list \<Rightarrow> go_error option)
    \<Rightarrow> Config \<Rightarrow> go_error + 're Engine" where
  "NewEngine compile env newClient cfg = add_flows compile env newClient (c_Replications cfg) (empty_engine cfg)"

section \<open>Phase 1: the offset syncs\<close>

text \<open>A map lookup in Go gives the zero value for a missing key.\<close>

definition cluster :: "Config \<Rightarrow> string \<Rightarrow> ClusterConfig" where
  "cluster cfg name = (case map_of (c_Clusters cfg) name of
     Some cc \<Rightarrow> cc | None \<Rightarrow> \<lparr>cc_BootstrapServers = [], cc_SASL = None, cc_TLS = None\<rparr>)"

text \<open>
  One flow of \<open>bootstrapOffsetSyncs\<close>; \<open>polls\<close> are the polls of its reader. \<open>None\<close>: \<open>ReadToEnd\<close>
  is still polling. The answer to creating the topic is not looked at. A flow whose key is not
  in the engine's map would give \<open>ReadToEnd\<close> a nil store.
\<close>

definition bootstrap_flow :: "build_env \<Rightarrow> (kgo_opt list \<Rightarrow> go_error option) \<Rightarrow> Poll list \<Rightarrow> ReplicationConfig
    \<Rightarrow> 're Engine \<Rightarrow> (go_error option \<times> 're Engine) outcome option" where
  "bootstrap_flow env newClient polls r e =
     (let srcCfg = cluster (e_cfg e) (r_Source r) in
      case NewPolicy (r_ReplicationPolicy r) (r_Separator r) of
        Inl err \<Rightarrow> Some (Ret (Some (Wrapf ''create policy for %s: %w'' [flowKey r] err), e))
      | Inr pol \<Rightarrow>
     (let syncTopic = OffsetSyncsTopic pol (r_Source r) in
      case NewClient env newClient srcCfg of
        Some err \<Rightarrow> Some (Ret (Some (Wrapf ''create admin for offset-syncs topic %s: %w'' [flowKey r] err), e))
      | None \<Rightarrow>
     (case NewSyncReader env newClient srcCfg syncTopic of
        Inl err \<Rightarrow> Some (Ret (Some (Wrapf ''create sync reader for %s: %w'' [flowKey r] err), e))
      | Inr reader \<Rightarrow>
     (case map_of (e_syncStores e) (flowKey r) of
        None \<Rightarrow> Some (Panic ''nil pointer dereference'')
      | Some addr \<Rightarrow>
     (case ReadToEnd (e_stores e ! addr) 0 polls of
        None \<Rightarrow> None
      | Some (Fail err) \<Rightarrow> Some (Fail err)
      | Some (Panic m) \<Rightarrow> Some (Panic m)
      | Some (Ret (err, store)) \<Rightarrow>
     (let e = e\<lparr>e_stores := (e_stores e)[addr := store]\<rparr> in
      case err of
        Some err \<Rightarrow> Some (Ret (Some (Wrapf ''read offset-syncs to end for %s: %w'' [flowKey r] err), e))
      | None \<Rightarrow>
     (let e = e\<lparr>e_syncReaders := e_syncReaders e @ [(reader, addr)]\<rparr> in
      case NewSyncWriter env newClient srcCfg syncTopic of
        Inl err \<Rightarrow> Some (Ret (Some (Wrapf ''create sync writer for %s: %w'' [flowKey r] err), e))
      | Inr writer \<Rightarrow>
     (let e = e\<lparr>e_syncWriters := e_syncWriters e @ [writer]\<rparr> in
      Some (Ret (None, case map_of (e_sourcesByFlow e) (flowKey r) of
          Some i \<Rightarrow> e\<lparr>e_sources := (e_sources e)[i := SetSyncWriter writer (e_sources e ! i)]\<rparr>
        | None \<Rightarrow> e))))))))))"

text \<open>\<open>polls r\<close> are the polls of the reader of a replication.\<close>

fun bootstrap_flows :: "build_env \<Rightarrow> (kgo_opt list \<Rightarrow> go_error option) \<Rightarrow> (ReplicationConfig \<Rightarrow> Poll list)
    \<Rightarrow> ReplicationConfig list \<Rightarrow> 're Engine \<Rightarrow> (go_error option \<times> 're Engine) outcome option" where
  "bootstrap_flows env newClient polls [] e = Some (Ret (None, e))"
| "bootstrap_flows env newClient polls (r # rs) e =
     (if \<not> r_Enabled r then bootstrap_flows env newClient polls rs e
      else if \<not> BoolDefault (r_EmitOffsetSyncs r) True then bootstrap_flows env newClient polls rs e
      else case bootstrap_flow env newClient (polls r) r e of
        Some (Ret (None, e')) \<Rightarrow> bootstrap_flows env newClient polls rs e'
      | stop \<Rightarrow> stop)"

definition bootstrapOffsetSyncs :: "build_env \<Rightarrow> (kgo_opt list \<Rightarrow> go_error option) \<Rightarrow> (ReplicationConfig \<Rightarrow> Poll list)
    \<Rightarrow> 're Engine \<Rightarrow> (go_error option \<times> 're Engine) outcome option" where
  "bootstrapOffsetSyncs env newClient polls e = bootstrap_flows env newClient polls (c_Replications (e_cfg e)) e"

section \<open>Phase 2: parallel catch-up\<close>

text \<open>
  What the two clusters answer while one replication is examined: the topics of the source, the
  listing used for the partitions of a topic, the creation of a target topic, and the two requests
  behind the lag of a partition.
\<close>

record catchup_env =
  cu_topics :: "go_error + (string \<times> TopicDetail) list"
  cu_partitions :: "string \<Rightarrow> go_error + (string \<times> TopicDetail) list"
  cu_create :: "string \<Rightarrow> go_error + go_error option list"
  cu_committed :: "string \<Rightarrow> int32 \<Rightarrow> go_error + (TopicPartition \<times> int64) list"
  cu_ends :: "string \<Rightarrow> int32 \<Rightarrow> go_error + (TopicPartition \<times> int64) list"

text \<open>
  The requests of the phase: creating a target topic, with its answer, and a parallel catch-up of a
  topic over the partitions with their ranges, with its error and the pipelines it launched.
\<close>

datatype run_action =
    RunCreateTopic string int32 int "go_error option"
  | RunCatchUp string "(int32 \<times> int \<times> int) list" "go_error option" "pipeline list"

definition parallelThreshold :: int64 where
  "parallelThreshold = 100000"

text \<open>The range to catch up, if the lag is above the threshold. The subtraction is Go's, on 64 bits.\<close>

definition high_lag :: "int64 \<Rightarrow> int64 \<Rightarrow> (int64 \<times> int64) option" where
  "high_lag committed hwm =
     (let lag = hwm - committed;
          (lag, committed) = (if committed \<le>s 0 then (hwm, 0) else (lag, committed))
      in if parallelThreshold <s lag then Some (committed, hwm) else None)"

definition partition_lag :: "build_env \<Rightarrow> (kgo_opt list \<Rightarrow> go_error option) \<Rightarrow> catchup_env \<Rightarrow> ClusterConfig
    \<Rightarrow> string \<Rightarrow> int32 \<Rightarrow> (int32 \<times> int \<times> int) option" where
  "partition_lag env newClient cu srcCfg topic part =
     (case GetPartitionLag env newClient srcCfg (cu_committed cu topic part) (cu_ends cu topic part) topic part of
        Inl _ \<Rightarrow> None
      | Inr (committed, hwm) \<Rightarrow> map_option (\<lambda>(from, to). (part, sint from, sint to)) (high_lag committed hwm))"

definition skipped_topic :: "string \<Rightarrow> bool" where
  "skipped_topic topic \<longleftrightarrow> topic \<noteq> [] \<and> (hd topic = CHR ''_'' \<or> hd topic = CHR ''.'')"

text \<open>
  One topic. \<open>tgtAdmin\<close> tells whether the target's admin client exists, \<open>pol\<close> is the policy if its
  name is known; the map from partitions to ranges is a list without repeated keys.
\<close>

definition catch_up_topic :: "build_env \<Rightarrow> (kgo_opt list \<Rightarrow> go_error option) \<Rightarrow> catchup_env \<Rightarrow> ReplicationConfig
    \<Rightarrow> ClusterConfig \<Rightarrow> ClusterConfig \<Rightarrow> bool \<Rightarrow> ReplicationPolicy option \<Rightarrow> int \<Rightarrow> string \<Rightarrow> run_action list" where
  "catch_up_topic env newClient cu r srcCfg tgtCfg tgtAdmin pol workersPerPartition topic =
     (if skipped_topic topic then []
      else if NewClient env newClient srcCfg \<noteq> None then []
      else let partitions = (case ListTopicPartitions (cu_partitions cu topic) topic of Inl _ \<Rightarrow> [0] | Inr ps \<Rightarrow> ps);
               created = (case pol of
                   Some p \<Rightarrow>
                     if tgtAdmin
                     then let targetTopic = FormatRemoteTopic p (r_Source r) topic
                          in [RunCreateTopic targetTopic (of_nat (length partitions)) (r_ReplicationFactor r)
                                (CreateTopic (cu_create cu targetTopic) targetTopic)]
                     else []
                 | None \<Rightarrow> []);
               partitionLags = List.map_filter (partition_lag env newClient cu srcCfg topic) (remdups partitions)
           in created @
              (if partitionLags \<noteq> [] then
                 (case NewParallelSource env newClient r srcCfg tgtCfg workersPerPartition of
                    Inl _ \<Rightarrow> []
                  | Inr ps \<Rightarrow>
                      (case CatchUpMultiPartition env newClient partitionLags topic ps of
                         (err, _, plan) \<Rightarrow> [RunCatchUp topic partitionLags err plan]))
               else []))"

definition catch_up_flow :: "build_env \<Rightarrow> (kgo_opt list \<Rightarrow> go_error option) \<Rightarrow> catchup_env \<Rightarrow> Config
    \<Rightarrow> ReplicationConfig \<Rightarrow> run_action list" where
  "catch_up_flow env newClient cu cfg r =
     (let srcCfg = cluster cfg (r_Source r); tgtCfg = cluster cfg (r_Target r) in
      if NewClient env newClient srcCfg \<noteq> None then []
      else case ListTopics (cu_topics cu) of
        Inl _ \<Rightarrow> []
      | Inr topics \<Rightarrow>
          (let tgtAdmin = (NewClient env newClient tgtCfg = None);
               pol = (case NewPolicy (r_ReplicationPolicy r) (r_Separator r) of Inl _ \<Rightarrow> None | Inr p \<Rightarrow> Some p);
               workersPerPartition = (if r_WorkersPerPartition r < 2 then 2 else r_WorkersPerPartition r)
           in concat (map (catch_up_topic env newClient cu r srcCfg tgtCfg tgtAdmin pol workersPerPartition) topics)))"

definition catch_up :: "build_env \<Rightarrow> (kgo_opt list \<Rightarrow> go_error option) \<Rightarrow> (ReplicationConfig \<Rightarrow> catchup_env) \<Rightarrow> Config
    \<Rightarrow> run_action list" where
  "catch_up env newClient cu cfg =
     concat (map (\<lambda>r. catch_up_flow env newClient (cu r) cfg r) (filter r_Enabled (c_Replications cfg)))"

section \<open>Starting and stopping\<close>

text \<open>The loops over the components of one kind; \<open>start_all\<close> is their common form.\<close>

definition start_sources :: "build_env \<Rightarrow> (kgo_opt list \<Rightarrow> go_error option) \<Rightarrow> 're Engine \<Rightarrow> go_error option \<times> 're Engine" where
  "start_sources env newClient e =
     (case start_all (Start env newClient) (e_sources e) of
        (err, xs) \<Rightarrow> (map_option (Wrapf ''start source: %w'' []) err, e\<lparr>e_sources := xs\<rparr>))"

definition start_discoveries :: "'re Engine \<Rightarrow> go_error option \<times> 're Engine" where
  "start_discoveries e =
     (case start_all TopicDiscovery_Start (e_topicDiscoveries e) of
        (err, xs) \<Rightarrow> (map_option (Wrapf ''start topic discovery: %w'' []) err, e\<lparr>e_topicDiscoveries := xs\<rparr>))"

definition start_heartbeats :: "build_env \<Rightarrow> (kgo_opt list \<Rightarrow> go_error option) \<Rightarrow> 're Engine \<Rightarrow> go_error option \<times> 're Engine" where
  "start_heartbeats env newClient e =
     (case start_all (Heartbeat_Start env newClient) (e_heartbeats e) of
        (err, xs) \<Rightarrow> (map_option (Wrapf ''start heartbeat: %w'' []) err, e\<lparr>e_heartbeats := xs\<rparr>))"

definition start_checkpoints :: "build_env \<Rightarrow> (kgo_opt list \<Rightarrow> go_error option) \<Rightarrow> 're Engine \<Rightarrow> go_error option \<times> 're Engine" where
  "start_checkpoints env newClient e =
     (case start_all (Checkpoint_Start env newClient) (e_checkpoints e) of
        (err, xs) \<Rightarrow> (map_option (Wrapf ''start checkpoint: %w'' []) err, e\<lparr>e_checkpoints := xs\<rparr>))"

text \<open>The phases after the catch-up, each only if the one before it succeeded.\<close>

fun start_phases :: "('re Engine \<Rightarrow> go_error option \<times> 're Engine) list \<Rightarrow> 're Engine \<Rightarrow> go_error option \<times> 're Engine" where
  "start_phases [] e = (None, e)"
| "start_phases (p # ps) e = (case p e of (None, e') \<Rightarrow> start_phases ps e' | (Some err, e') \<Rightarrow> (Some err, e'))"

text \<open>
  \<open>Run\<close> up to the point where it waits for a signal: the error it returns before, the engine, and the
  requests of the catch-up. \<open>None\<close>: it is still reading offset syncs.
\<close>

definition Run_start :: "build_env \<Rightarrow> (kgo_opt list \<Rightarrow> go_error option) \<Rightarrow> (ReplicationConfig \<Rightarrow> Poll list)
    \<Rightarrow> (ReplicationConfig \<Rightarrow> catchup_env) \<Rightarrow> 're Engine \<Rightarrow> (go_error option \<times> 're Engine \<times> run_action list) outcome option" where
  "Run_start env newClient polls cu e =
     (if e_running e then Some (Ret (Some (Errorf ''engine already running'' []), e, []))
      else let e = e\<lparr>e_running := True\<rparr>;
               e = (if mc_Enabled (c_Metrics (e_cfg e)) then e\<lparr>e_httpServer := True\<rparr> else e)
           in case bootstrapOffsetSyncs env newClient polls e of
                None \<Rightarrow> None
              | Some (Fail err) \<Rightarrow> Some (Fail err)
              | Some (Panic m) \<Rightarrow> Some (Panic m)
              | Some (Ret (Some err, e)) \<Rightarrow> Some (Ret (Some (Wrapf ''bootstrap offset syncs: %w'' [] err), e, []))
              | Some (Ret (None, e)) \<Rightarrow>
                  (case start_phases [start_sources env newClient, start_discoveries,
                          start_heartbeats env newClient, start_checkpoints env newClient] e of
                     (err, e') \<Rightarrow> Some (Ret (err, e', catch_up env newClient cu (e_cfg e)))))"

definition Shutdown :: "'re Engine \<Rightarrow> 're Engine" where
  "Shutdown e = e\<lparr>
     e_checkpoints := map Checkpoint_Stop (e_checkpoints e),
     e_heartbeats := map Heartbeat_Stop (e_heartbeats e),
     e_topicDiscoveries := map TopicDiscovery_Stop (e_topicDiscoveries e),
     e_sources := map (\<lambda>s. fst (Stop s)) (e_sources e),
     e_syncWriters := map SyncWriter_Close (e_syncWriters e),
     e_dlqs := map DLQ_Close (e_dlqs e),
     e_running := False\<rparr>"

text \<open>
  The whole of \<open>Run\<close>: once everything is started it waits for a signal or for the end of its context
  and shuts down. \<open>work\<close> is what the running components do to the engine until then.
\<close>

definition Run :: "build_env \<Rightarrow> (kgo_opt list \<Rightarrow> go_error option) \<Rightarrow> (ReplicationConfig \<Rightarrow> Poll list)
    \<Rightarrow> (ReplicationConfig \<Rightarrow> catchup_env) \<Rightarrow> ('re Engine \<Rightarrow> 're Engine) \<Rightarrow> 're Engine
    \<Rightarrow> (go_error option \<times> 're Engine \<times> run_action list) outcome option" where
  "Run env newClient polls cu work e =
     (case Run_start env newClient polls cu e of
        Some (Ret (None, e', acts)) \<Rightarrow> Some (Ret (None, Shutdown (work e'), acts))
      | early \<Rightarrow> early)"

text \<open>The handlers of the HTTP server: status and body.\<close>

definition healthz :: "nat \<times> string" where
  "healthz = (200, ''ok'')"

definition readyz :: "'re Engine \<Rightarrow> nat \<times> string" where
  "readyz e = (if list_all (\<lambda>(_, addr). IsReady (e_stores e ! addr)) (e_syncStores e) then (200, ''ok'') else (503, ''not ready''))"

text \<open>
  The routes of \<open>startMetricsServer\<close>; \<open>metrics\<close> is what the handler of the metrics library answers. The multiplexer
  matches paths exactly.
\<close>

definition metrics_mux :: "nat \<times> string \<Rightarrow> 're Engine \<Rightarrow> string \<Rightarrow> nat \<times> string" where
  "metrics_mux metrics e path =
     (if path = ''/metrics'' then metrics else if path = ''/healthz'' then healthz else if path = ''/readyz'' then readyz e
      else (404, ''404 page not found''))"

section \<open>Lemmas: construction\<close>

text \<open>The enabled replications, in order; flow \<open>i\<close> is the \<open>i\<close>-th of them.\<close>

definition flows :: "Config \<Rightarrow> ReplicationConfig list" where
  "flows cfg = filter r_Enabled (c_Replications cfg)"

text \<open>The last flow with a given key, which is the one that the engine's maps know.\<close>

definition last_flow :: "ReplicationConfig list \<Rightarrow> string \<rightharpoonup> nat" where
  "last_flow rs k =
     (let is = filter (\<lambda>i. flowKey (rs ! i) = k) [0..<length rs] in if is = [] then None else Some (last is))"

lemma last_flow_Nil [simp]: "last_flow [] = Map.empty"
  by (rule ext) (simp add: last_flow_def)

lemma last_flow_snoc [simp]: "last_flow (rs @ [r]) = (last_flow rs)(flowKey r \<mapsto> length rs)"
proof (rule ext)
  fix k
  have "filter (\<lambda>i. flowKey ((rs @ [r]) ! i) = k) [0..<length rs] = filter (\<lambda>i. flowKey (rs ! i) = k) [0..<length rs]"
    by (rule filter_cong) (simp_all add: nth_append)
  then show "last_flow (rs @ [r]) k = ((last_flow rs)(flowKey r \<mapsto> length rs)) k"
    by (simp add: last_flow_def)
qed

lemma last_flow_Some:
  "last_flow rs k = Some i \<longleftrightarrow> i < length rs \<and> flowKey (rs ! i) = k \<and> (\<forall>j < length rs. flowKey (rs ! j) = k \<longrightarrow> j \<le> i)"
proof (induction rs arbitrary: i rule: rev_induct)
  case (snoc r rs)
  show ?case
  proof (cases "flowKey r = k")
    case True
    then show ?thesis by (fastforce simp: nth_append)
  next
    case False
    have "(\<forall>j < length (rs @ [r]). flowKey ((rs @ [r]) ! j) = k \<longrightarrow> j \<le> i) \<longleftrightarrow> (\<forall>j < length rs. flowKey (rs ! j) = k \<longrightarrow> j \<le> i)"
      using False by (auto simp: nth_append)
    moreover have "i < length (rs @ [r]) \<and> flowKey ((rs @ [r]) ! i) = k \<longleftrightarrow> i < length rs \<and> flowKey (rs ! i) = k"
      using False by (cases "i = length rs") (auto simp: nth_append)
    ultimately show ?thesis using snoc False by auto
  qed
qed simp

lemma last_flow_None: "last_flow rs k = None \<longleftrightarrow> k \<notin> flowKey ` set rs"
  by (induction rs rule: rev_induct) auto

lemma last_flow_distinct:
  "distinct (map flowKey rs) \<Longrightarrow> i < length rs \<Longrightarrow> last_flow rs (flowKey (rs ! i)) = Some i"
  by (force simp: last_flow_Some distinct_conv_nth)

text \<open>The shape of the engine: one component of each kind per flow, and the maps as described.\<close>

definition wired :: "ReplicationConfig list \<Rightarrow> 're Engine \<Rightarrow> bool" where
  "wired rs e \<longleftrightarrow>
     map src_cfg (e_sources e) = rs \<and> map hbe_cfg (e_heartbeats e) = rs \<and> map ckp_cfg (e_checkpoints e) = rs \<and>
     map disc_cfg (e_topicDiscoveries e) = rs \<and> length (e_stores e) = length rs \<and>
     map_of (e_syncStores e) = last_flow rs \<and> distinct (map fst (e_syncStores e)) \<and>
     map_of (e_sourcesByFlow e) = last_flow rs"

lemma NewSource_Inr: "NewSource compile env newClient r sc tc st = Inr s \<Longrightarrow>
    src_cfg s = r \<and> src_srcCfg s = sc \<and> src_tgtCfg s = tc \<and> \<not> src_running s \<and> src_syncWriter s = None"
  by (auto simp: NewSource_def split: sum.splits)

lemma NewHeartbeat_Inr: "NewHeartbeat r tc = Inr h \<Longrightarrow> hbe_cfg h = r \<and> hbe_tgtCfg h = tc \<and> \<not> hbe_running h"
  by (auto simp: NewHeartbeat_def split: sum.splits)

lemma NewCheckpoint_Inr: "NewCheckpoint compile r sc tc = Inr c \<Longrightarrow>
    ckp_cfg c = r \<and> ckp_srcCfg c = sc \<and> ckp_tgtCfg c = tc \<and> \<not> ckp_running c"
  by (auto simp: NewCheckpoint_def split: sum.splits)

lemma NewTopicDiscovery_Inr: "NewTopicDiscovery compile r sc tc = Inr d \<Longrightarrow>
    disc_cfg d = r \<and> disc_srcCfg d = sc \<and> disc_tgtCfg d = tc \<and> \<not> disc_running d"
  by (auto simp: NewTopicDiscovery_def split: sum.splits)

lemmas New_Inr = NewSource_Inr NewHeartbeat_Inr NewCheckpoint_Inr NewTopicDiscovery_Inr

text \<open>No component runs.\<close>

definition idle :: "'re Engine \<Rightarrow> bool" where
  "idle e \<longleftrightarrow> (\<forall>s \<in> set (e_sources e). \<not> src_running s) \<and> (\<forall>h \<in> set (e_heartbeats e). \<not> hbe_running h) \<and>
     (\<forall>c \<in> set (e_checkpoints e). \<not> ckp_running c) \<and> (\<forall>d \<in> set (e_topicDiscoveries e). \<not> disc_running d)"

text \<open>A new engine: nothing runs, no store is loaded, no source has a writer.\<close>

definition fresh :: "'re Engine \<Rightarrow> bool" where
  "fresh e \<longleftrightarrow> idle e \<and> \<not> e_running e \<and> (\<forall>st \<in> set (e_stores e). st = NewSyncStore) \<and>
     (\<forall>s \<in> set (e_sources e). src_syncWriter s = None)"

lemma add_flow_Inr:
  assumes "add_flow compile env newClient r e = Inr e'"
  obtains src hb cp td where
    "e_sources e' = e_sources e @ [src]" "e_heartbeats e' = e_heartbeats e @ [hb]"
    "e_checkpoints e' = e_checkpoints e @ [cp]" "e_topicDiscoveries e' = e_topicDiscoveries e @ [td]"
    "e_stores e' = e_stores e @ [NewSyncStore]" "e_cfg e' = e_cfg e" "e_running e' = e_running e"
    "e_syncStores e' = AList.update (flowKey r) (length (e_stores e)) (e_syncStores e)"
    "e_sourcesByFlow e' = AList.update (flowKey r) (length (e_sources e)) (e_sourcesByFlow e)"
    "src_cfg src = r" "hbe_cfg hb = r" "ckp_cfg cp = r" "disc_cfg td = r"
    "\<not> src_running src" "\<not> hbe_running hb" "\<not> ckp_running cp" "\<not> disc_running td" "src_syncWriter src = None"
    "src_srcCfg src = cluster (e_cfg e) (r_Source r)" "src_tgtCfg src = cluster (e_cfg e) (r_Target r)"
    "hbe_tgtCfg hb = cluster (e_cfg e) (r_Target r)" "ckp_srcCfg cp = cluster (e_cfg e) (r_Source r)"
    "ckp_tgtCfg cp = cluster (e_cfg e) (r_Target r)"
proof -
  note e' = assms [unfolded add_flow_def Let_def]
  obtain sc where sc: "map_of (c_Clusters (e_cfg e)) (r_Source r) = Some sc"
    using e' by (cases "map_of (c_Clusters (e_cfg e)) (r_Source r)") simp_all
  note e' = e' [unfolded sc option.case]
  obtain tc where tc: "map_of (c_Clusters (e_cfg e)) (r_Target r) = Some tc"
    using e' by (cases "map_of (c_Clusters (e_cfg e)) (r_Target r)") simp_all
  note e' = e' [unfolded tc option.case]
  obtain src where src: "NewSource compile env newClient r sc tc (Some NewSyncStore) = Inr src"
    using e' by (cases "NewSource compile env newClient r sc tc (Some NewSyncStore)") simp_all
  note e' = e' [unfolded src sum.case]
  obtain dlq where dlq: "NewDLQ env newClient r tc = Inr dlq"
    using e' by (cases "NewDLQ env newClient r tc") simp_all
  note e' = e' [unfolded dlq sum.case]
  obtain hb where hb: "NewHeartbeat r tc = Inr hb" using e' by (cases "NewHeartbeat r tc") simp_all
  note e' = e' [unfolded hb sum.case]
  obtain cp where cp: "NewCheckpoint compile r sc tc = Inr cp" using e' by (cases "NewCheckpoint compile r sc tc") simp_all
  note e' = e' [unfolded cp sum.case]
  obtain td where td: "NewTopicDiscovery compile r sc tc = Inr td"
    using e' by (cases "NewTopicDiscovery compile r sc tc") simp_all
  have e': "e' = e\<lparr>e_syncStores := AList.update (flowKey r) (length (e_stores e)) (e_syncStores e),
        e_stores := e_stores e @ [NewSyncStore],
        e_sourcesByFlow := AList.update (flowKey r) (length (e_sources e)) (e_sourcesByFlow e),
        e_sources := e_sources e @ [case dlq of None \<Rightarrow> src | Some d \<Rightarrow> SetDLQ (Some d) src],
        e_dlqs := e_dlqs e @ (case dlq of None \<Rightarrow> [] | Some d \<Rightarrow> [d]),
        e_heartbeats := e_heartbeats e @ [hb], e_checkpoints := e_checkpoints e @ [cp],
        e_topicDiscoveries := e_topicDiscoveries e @ [td]\<rparr>"
    using e' td by simp
  show thesis
  proof (rule that [of "case dlq of None \<Rightarrow> src | Some d \<Rightarrow> SetDLQ (Some d) src" hb cp td])
  qed (use New_Inr(1) [OF src] New_Inr(2) [OF hb] New_Inr(3) [OF cp] New_Inr(4) [OF td] in
    \<open>simp_all add: e' SetDLQ_def cluster_def sc tc split: option.splits\<close>)
qed

lemma add_flow_wired:
  assumes "add_flow compile env newClient r e = Inr e'"
  shows "wired rs e \<Longrightarrow> wired (rs @ [r]) e'" and "fresh e \<Longrightarrow> fresh e'" and "e_cfg e' = e_cfg e"
  using assms
  by (auto elim!: add_flow_Inr simp: wired_def fresh_def idle_def update_conv' distinct_update)

lemma add_flows_wired:
  "add_flows compile env newClient rs e = Inr e' \<Longrightarrow> wired qs e \<Longrightarrow> fresh e \<Longrightarrow>
     wired (qs @ filter r_Enabled rs) e' \<and> fresh e' \<and> e_cfg e' = e_cfg e"
proof (induction rs arbitrary: e qs)
  case (Cons r rs)
  show ?case
  proof (cases "r_Enabled r")
    case True
    with Cons.prems(1) obtain e1 where e1: "add_flow compile env newClient r e = Inr e1"
      "add_flows compile env newClient rs e1 = Inr e'" by (auto split: sum.splits)
    from Cons.IH [OF e1(2) add_flow_wired(1,2) [OF e1(1)]] Cons.prems(2,3) add_flow_wired(3) [OF e1(1)] True
    show ?thesis by auto
  qed (use Cons in auto)
qed simp

lemma NewEngine_wired:
  "NewEngine compile env newClient cfg = Inr e \<Longrightarrow> wired (flows cfg) e \<and> fresh e \<and> e_cfg e = cfg"
  using add_flows_wired [of compile env newClient "c_Replications cfg" "empty_engine cfg" e "[]"]
  by (simp add: NewEngine_def flows_def) (simp add: empty_engine_def wired_def fresh_def idle_def)

text \<open>Every component is idle and has the clusters of its replication.\<close>

definition startable :: "'re Engine \<Rightarrow> bool" where
  "startable e \<longleftrightarrow> (let cl = cluster (e_cfg e) in
     (\<forall>s \<in> set (e_sources e). \<not> src_running s \<and> src_srcCfg s = cl (r_Source (src_cfg s)) \<and> src_tgtCfg s = cl (r_Target (src_cfg s))) \<and>
     (\<forall>h \<in> set (e_heartbeats e). \<not> hbe_running h \<and> hbe_tgtCfg h = cl (r_Target (hbe_cfg h))) \<and>
     (\<forall>c \<in> set (e_checkpoints e). \<not> ckp_running c \<and> ckp_srcCfg c = cl (r_Source (ckp_cfg c)) \<and> ckp_tgtCfg c = cl (r_Target (ckp_cfg c))) \<and>
     (\<forall>d \<in> set (e_topicDiscoveries e). \<not> disc_running d))"

lemma add_flow_startable:
  "add_flow compile env newClient r e = Inr e' \<Longrightarrow> startable e \<Longrightarrow> startable e'"
  by (erule add_flow_Inr) (auto simp: startable_def Let_def)

lemma add_flows_startable:
  "add_flows compile env newClient rs e = Inr e' \<Longrightarrow> startable e \<Longrightarrow> startable e'"
  by (induction rs arbitrary: e) (auto split: if_splits sum.splits intro: add_flow_startable)

lemma NewEngine_startable: "NewEngine compile env newClient cfg = Inr e \<Longrightarrow> startable e"
  unfolding NewEngine_def by (erule add_flows_startable) (simp add: startable_def empty_engine_def)

text \<open>A flow can be built: what \<open>add_flow\<close> needs of a replication.\<close>

abbreviation compiles :: "(string \<Rightarrow> go_error + 're) \<Rightarrow> string list \<Rightarrow> bool" where
  "compiles compile ps \<equiv> \<forall>p \<in> set ps. \<exists>re. compile p = Inr re"

lemma compilePatterns_ok: "(\<exists>res. compilePatterns compile ps = Inr res) \<longleftrightarrow> compiles compile ps"
  by (induction ps) (auto split: sum.splits)

lemma NewTopicFilter_ok: "(\<exists>tf. NewTopicFilter compile wl bl = Inr tf) \<longleftrightarrow> compiles compile wl \<and> compiles compile bl"
  unfolding compilePatterns_ok [symmetric] by (auto simp: NewTopicFilter_def split: sum.splits)

lemma NewGroupFilter_ok: "(\<exists>tf. NewGroupFilter compile wl bl = Inr tf) \<longleftrightarrow> compiles compile wl \<and> compiles compile bl"
  unfolding compilePatterns_ok [symmetric] by (auto simp: NewGroupFilter_def split: sum.splits)

definition known_policy :: "string \<Rightarrow> bool" where
  "known_policy name \<longleftrightarrow> name \<in> {''default'', [], ''identity''}"

lemma NewPolicy_ok: "(\<exists>p. NewPolicy name sep = Inr p) \<longleftrightarrow> known_policy name"
  by (auto simp: NewPolicy_def known_policy_def)

lemma New_ok:
  "(\<exists>s. NewSource compile env newClient r sc tc st = Inr s) \<longleftrightarrow>
     compiles compile (tfc_Whitelist (r_TopicFilter r)) \<and> compiles compile (tfc_Blacklist (r_TopicFilter r)) \<and>
     known_policy (r_ReplicationPolicy r)"
  "(\<exists>h. NewHeartbeat r tc = Inr h) \<longleftrightarrow> known_policy (r_ReplicationPolicy r)"
  "(\<exists>c. NewCheckpoint compile r sc tc = Inr c) \<longleftrightarrow>
     compiles compile (tfc_Whitelist (r_TopicFilter r)) \<and> compiles compile (tfc_Blacklist (r_TopicFilter r)) \<and>
     compiles compile (gfc_Whitelist (r_GroupFilter r)) \<and> compiles compile (gfc_Blacklist (r_GroupFilter r)) \<and>
     known_policy (r_ReplicationPolicy r)"
  "(\<exists>d. NewTopicDiscovery compile r sc tc = Inr d) \<longleftrightarrow>
     compiles compile (tfc_Whitelist (r_TopicFilter r)) \<and> compiles compile (tfc_Blacklist (r_TopicFilter r)) \<and>
     known_policy (r_ReplicationPolicy r)"
  using NewTopicFilter_ok [of compile "tfc_Whitelist (r_TopicFilter r)" "tfc_Blacklist (r_TopicFilter r)"]
    NewGroupFilter_ok [of compile "gfc_Whitelist (r_GroupFilter r)" "gfc_Blacklist (r_GroupFilter r)"]
    NewPolicy_ok [of "r_ReplicationPolicy r" "r_Separator r"]
  unfolding NewSource_def NewHeartbeat_def NewCheckpoint_def NewTopicDiscovery_def
  by (auto split: sum.splits)

text \<open>What a flow needs beyond what \<open>Validate\<close> looks at.\<close>

definition flow_builds :: "(string \<Rightarrow> go_error + 're) \<Rightarrow> build_env \<Rightarrow> (kgo_opt list \<Rightarrow> go_error option) \<Rightarrow> Config
    \<Rightarrow> ReplicationConfig \<Rightarrow> bool" where
  "flow_builds compile env newClient cfg r \<longleftrightarrow>
     compiles compile (gfc_Whitelist (r_GroupFilter r)) \<and> compiles compile (gfc_Blacklist (r_GroupFilter r)) \<and>
     known_policy (r_ReplicationPolicy r) \<and> (\<exists>d. NewDLQ env newClient r (cluster cfg (r_Target r)) = Inr d)"

lemma add_flow_ok:
  assumes "flow_ok compile (c_Clusters (e_cfg e)) r"
  shows "(\<exists>e'. add_flow compile env newClient r e = Inr e') \<longleftrightarrow> flow_builds compile env newClient (e_cfg e) r"
proof -
  obtain sc tc where cl: "map_of (c_Clusters (e_cfg e)) (r_Source r) = Some sc" "map_of (c_Clusters (e_cfg e)) (r_Target r) = Some tc"
    using assms by (metis flow_ok_def map_of_eq_None_iff not_None_eq)
  have tf: "compiles compile (tfc_Whitelist (r_TopicFilter r))" "compiles compile (tfc_Blacklist (r_TopicFilter r))"
    using assms by (auto simp: flow_ok_def)
  have cfg: "cluster (e_cfg e) (r_Target r) = tc" by (simp add: cluster_def cl)
  note ok = New_ok(1) [of compile env newClient r sc tc "Some NewSyncStore"] New_ok(2) [of r tc]
    New_ok(3,4) [of compile r sc tc]
  have "(\<exists>e'. add_flow compile env newClient r e = Inr e') \<longleftrightarrow>
      (\<exists>s. NewSource compile env newClient r sc tc (Some NewSyncStore) = Inr s) \<and>
      (\<exists>d. NewDLQ env newClient r tc = Inr d) \<and> (\<exists>h. NewHeartbeat r tc = Inr h) \<and>
      (\<exists>c. NewCheckpoint compile r sc tc = Inr c) \<and> (\<exists>d. NewTopicDiscovery compile r sc tc = Inr d)"
    unfolding add_flow_def Let_def cl option.case
    by (cases "NewSource compile env newClient r sc tc (Some NewSyncStore)", simp, cases "NewDLQ env newClient r tc", simp,
      cases "NewHeartbeat r tc", simp, cases "NewCheckpoint compile r sc tc", simp,
      cases "NewTopicDiscovery compile r sc tc", simp, simp)
  then show ?thesis using tf by (auto simp: flow_builds_def cfg ok)
qed

lemma add_flows_ok:
  "(\<forall>r \<in> set rs. r_Enabled r \<longrightarrow> flow_ok compile (c_Clusters (e_cfg e)) r) \<Longrightarrow>
   (\<exists>e'. add_flows compile env newClient rs e = Inr e') \<longleftrightarrow>
     (\<forall>r \<in> set rs. r_Enabled r \<longrightarrow> flow_builds compile env newClient (e_cfg e) r)"
proof (induction rs arbitrary: e)
  case (Cons r rs)
  show ?case
  proof (cases "r_Enabled r")
    case True
    then have ok: "(\<exists>e'. add_flow compile env newClient r e = Inr e') \<longleftrightarrow> flow_builds compile env newClient (e_cfg e) r"
      using Cons.prems by (intro add_flow_ok) simp
    show ?thesis
    proof (cases "add_flow compile env newClient r e")
      case (Inl err)
      with ok True show ?thesis by auto
    next
      case (Inr e1)
      with add_flow_wired(3) [OF Inr] Cons.IH [of e1] Cons.prems ok True show ?thesis by auto
    qed
  qed (use Cons in auto)
qed simp

lemma add_flow_policy:
  assumes "add_flow compile env newClient r e = Inr e'"
  shows "known_policy (r_ReplicationPolicy r)"
proof (rule ccontr)
  assume "\<not> known_policy (r_ReplicationPolicy r)"
  then have "NewSource compile env newClient r sc tc st \<noteq> Inr s" for sc tc st s
    using New_ok(1) [of compile env newClient r sc tc st] by blast
  then show False
    using assms unfolding add_flow_def Let_def by (auto split: option.splits sum.splits)
qed

lemma add_flows_policy:
  "add_flows compile env newClient rs e = Inr e' \<Longrightarrow> r \<in> set rs \<Longrightarrow> r_Enabled r \<Longrightarrow> known_policy (r_ReplicationPolicy r)"
  by (induction rs arbitrary: e) (auto split: if_splits sum.splits dest: add_flow_policy)

end
