(* ===== verification/Engine_Run.thy ===== *)
theory Engine_Run
  imports Mirror_Engine
begin

text \<open>
  The life of the engine: what every run keeps of its wiring, which syncs and writers a start leaves
  behind, when the readiness endpoint answers, what the catch-up phase selects, and what a failed
  start or a shutdown leaves. The components work between start and shutdown; the step relation
  \<open>engine_reach\<close> interleaves their changes of the shared state in every order.
\<close>

section \<open>Lemmas: loading the syncs\<close>

lemma ReadToEnd_result:
  "ReadToEnd s n ps = Some (Ret (err, st)) \<Longrightarrow>
     (store_reach s \<longrightarrow> store_reach st) \<and> (ss_readToEnd st \<longleftrightarrow> ss_readToEnd s \<or> err = None)"
proof (induction s n ps rule: ReadToEnd.induct)
  case (2 s n p ps)
  show ?case
  proof (cases "poll_ctx p")
    case (Some c)
    with "2.prems" show ?thesis by (auto intro: store_mark split: if_splits)
  next
    case None
    with "2.prems" obtain s' n' where a: "absorb_records s n (poll_records p) = Ret (s', n')"
      by (cases "absorb_records s n (poll_records p)") auto
    note s' = absorb_records_Ret [OF a]
    show ?thesis
    proof (cases "poll_records p = [] \<and> poll_errors p = []")
      case True
      with "2.prems" None a show ?thesis by (auto simp: s' intro: store_mark handle_all_reach)
    next
      case False
      with "2.prems" None a "2.IH" [OF None a refl False] show ?thesis
        by (auto simp: s' intro: handle_all_reach)
    qed
  qed
qed simp

text \<open>What one flow's bootstrap can do to the engine.\<close>

text \<open>The bootstrap up to the read: it stops early and changes nothing, or it has read the topic.\<close>

lemma bootstrap_flow_reads:
  assumes "bootstrap_flow env newClient polls r e = Some (Ret (err, e'))"
  obtains (unchanged) "err \<noteq> None" "e' = e"
  | (read_topic) pol reader addr e1 st where "NewPolicy (r_ReplicationPolicy r) (r_Separator r) = Inr pol"
      "NewClient env newClient (cluster (e_cfg e) (r_Source r)) = None"
      "NewSyncReader env newClient (cluster (e_cfg e) (r_Source r)) (OffsetSyncsTopic pol (r_Source r)) = Inr reader"
      "map_of (e_syncStores e) (flowKey r) = Some addr" "ReadToEnd (e_stores e ! addr) 0 polls = Some (Ret (e1, st))"
proof -
  note b = assms [unfolded bootstrap_flow_def Let_def]
  let ?sc = "cluster (e_cfg e) (r_Source r)"
  consider (stopped) "err \<noteq> None" "e' = e"
    | (reader) pol reader where "NewPolicy (r_ReplicationPolicy r) (r_Separator r) = Inr pol" "NewClient env newClient ?sc = None"
        "NewSyncReader env newClient ?sc (OffsetSyncsTopic pol (r_Source r)) = Inr reader"
    using b by (cases "NewPolicy (r_ReplicationPolicy r) (r_Separator r)"; cases "NewClient env newClient ?sc") (auto split: sum.splits)
  then show thesis
  proof cases
    case stopped
    then show ?thesis by (rule unchanged)
  next
    case (reader pol reader)
    note b = b [unfolded reader sum.case option.case]
    obtain addr where addr: "map_of (e_syncStores e) (flowKey r) = Some addr"
      using b by (cases "map_of (e_syncStores e) (flowKey r)") auto
    note b = b [unfolded addr option.case]
    obtain e1 st where "ReadToEnd (e_stores e ! addr) 0 polls = Some (Ret (e1, st))"
      using b by (auto split: option.splits outcome.splits)
    with reader addr show ?thesis by (rule read_topic)
  qed
qed

lemma bootstrap_flow_cases:
  assumes "bootstrap_flow env newClient polls r e = Some (Ret (err, e'))"
  obtains (early) "err \<noteq> None" "e' = e"
  | (unread) addr e1 st where "err \<noteq> None" "map_of (e_syncStores e) (flowKey r) = Some addr"
      "ReadToEnd (e_stores e ! addr) 0 polls = Some (Ret (Some e1, st))" "e' = e\<lparr>e_stores := (e_stores e)[addr := st]\<rparr>"
  | (unwritten) addr st reader where "err \<noteq> None" "map_of (e_syncStores e) (flowKey r) = Some addr"
      "ReadToEnd (e_stores e ! addr) 0 polls = Some (Ret (None, st))"
      "e' = e\<lparr>e_stores := (e_stores e)[addr := st], e_syncReaders := e_syncReaders e @ [(reader, addr)]\<rparr>"
  | (loaded) addr st reader pol w where "err = None" "map_of (e_syncStores e) (flowKey r) = Some addr"
      "ReadToEnd (e_stores e ! addr) 0 polls = Some (Ret (None, st))"
      "NewPolicy (r_ReplicationPolicy r) (r_Separator r) = Inr pol"
      "sw_topic w = OffsetSyncsTopic pol (r_Source r)"
      "e' = e\<lparr>e_stores := (e_stores e)[addr := st], e_syncReaders := e_syncReaders e @ [(reader, addr)],
              e_syncWriters := e_syncWriters e @ [w],
              e_sources := (case map_of (e_sourcesByFlow e) (flowKey r) of
                  Some i \<Rightarrow> (e_sources e)[i := SetSyncWriter w (e_sources e ! i)] | None \<Rightarrow> e_sources e)\<rparr>"
  using assms
proof (cases rule: bootstrap_flow_reads)
  case unchanged
  then show ?thesis by (rule early)
next
  case (read_topic pol reader addr e1 st)
  let ?sc = "cluster (e_cfg e) (r_Source r)"
  note addr = read_topic(4)
  note b = assms [unfolded bootstrap_flow_def Let_def read_topic sum.case option.case outcome.case prod.case]
  show ?thesis
  proof (cases e1)
    case (Some x)
    with b read_topic(5) show ?thesis by (intro unread [OF _ addr]) auto
  next
    case None
    note rd = read_topic(5) [unfolded None] and b = b [unfolded None option.case]
    show ?thesis
    proof (cases "NewSyncWriter env newClient ?sc (OffsetSyncsTopic pol (r_Source r))")
      case Inl
      with b show ?thesis by (intro unwritten [OF _ addr rd]) auto
    next
      case (Inr w)
      then have "sw_topic w = OffsetSyncsTopic pol (r_Source r)"
        by (auto simp: NewSyncWriter_def split: sum.splits option.splits)
      with b Inr show ?thesis
        by (intro loaded [OF _ addr rd read_topic(1), of w reader]) (auto split: option.splits)
    qed
  qed
qed

section \<open>The invariant of the engine\<close>

abbreviation emits_syncs_cfg :: "ReplicationConfig \<Rightarrow> bool" where
  "emits_syncs_cfg r \<equiv> BoolDefault (r_EmitOffsetSyncs r) True"

text \<open>
  A store is loaded, and a source has a writer, only if the flow is the last one with its key and
  some flow with that key emits offset syncs.
\<close>

definition served :: "ReplicationConfig list \<Rightarrow> nat \<Rightarrow> ReplicationConfig \<Rightarrow> bool" where
  "served rs i r \<longleftrightarrow> r \<in> set rs \<and> emits_syncs_cfg r \<and> last_flow rs (flowKey r) = Some i"

definition writes_for :: "SyncWriter \<Rightarrow> ReplicationConfig \<Rightarrow> bool" where
  "writes_for w r \<longleftrightarrow> (\<exists>pol. NewPolicy (r_ReplicationPolicy r) (r_Separator r) = Inr pol \<and>
     sw_topic w = OffsetSyncsTopic pol (r_Source r))"

definition engine_inv :: "Config \<Rightarrow> 're Engine \<Rightarrow> bool" where
  "engine_inv cfg e \<longleftrightarrow> wired (flows cfg) e \<and> e_cfg e = cfg \<and> (\<forall>st \<in> set (e_stores e). store_reach st) \<and>
     (\<forall>i < length (e_stores e). ss_readToEnd (e_stores e ! i) \<longrightarrow> (\<exists>r. served (flows cfg) i r)) \<and>
     (\<forall>i < length (e_sources e). \<forall>w. src_syncWriter (e_sources e ! i) = Some w \<longrightarrow>
        (\<exists>r. served (flows cfg) i r \<and> writes_for w r))"

lemma map_update_same: "(i < length xs \<Longrightarrow> f y = f (xs ! i)) \<Longrightarrow> map f (xs[i := y]) = map f xs"
  by (cases "i < length xs") (simp_all add: map_update list_update_same_conv list_update_beyond)

lemma wired_length:
  "wired rs e \<Longrightarrow> length (e_sources e) = length rs \<and> length (e_stores e) = length rs \<and>
     length (e_checkpoints e) = length rs \<and> length (e_heartbeats e) = length rs \<and> length (e_topicDiscoveries e) = length rs"
  unfolding wired_def by (metis length_map)

lemma wired_store: "wired rs e \<Longrightarrow> map_of (e_syncStores e) k = Some addr \<Longrightarrow> addr < length (e_stores e) \<and> last_flow rs k = Some addr"
  by (auto simp: wired_def last_flow_Some)

lemma engine_inv_store:
  assumes "engine_inv cfg e" "i < length (e_stores e)" "store_reach st" "ss_readToEnd st \<longrightarrow> (\<exists>r. served (flows cfg) i r)"
  shows "engine_inv cfg (e\<lparr>e_stores := (e_stores e)[i := st]\<rparr>)"
  using assms by (auto simp: engine_inv_def wired_def nth_list_update dest!: set_update_subset_insert [THEN subsetD])

lemma engine_inv_source:
  assumes "engine_inv cfg e" "i < length (e_sources e)" "src_cfg s = src_cfg (e_sources e ! i)"
    "\<And>w. src_syncWriter s = Some w \<Longrightarrow> src_syncWriter (e_sources e ! i) = Some w \<or> (\<exists>r. served (flows cfg) i r \<and> writes_for w r)"
  shows "engine_inv cfg (e\<lparr>e_sources := (e_sources e)[i := s]\<rparr>)"
  using assms by (auto simp: engine_inv_def wired_def nth_list_update map_update_same)

text \<open>Changes that the invariant does not see: flags, readers, writers and queues of the engine.\<close>

lemma engine_inv_frame [simp]:
  "engine_inv cfg (e\<lparr>e_running := b\<rparr>) = engine_inv cfg e"
  "engine_inv cfg (e\<lparr>e_httpServer := b\<rparr>) = engine_inv cfg e"
  "engine_inv cfg (e\<lparr>e_syncReaders := rd\<rparr>) = engine_inv cfg e"
  "engine_inv cfg (e\<lparr>e_syncWriters := wr\<rparr>) = engine_inv cfg e"
  "engine_inv cfg (e\<lparr>e_dlqs := ds\<rparr>) = engine_inv cfg e"
  by (simp_all add: engine_inv_def wired_def)

definition engine_view :: "'re Engine \<Rightarrow> Config \<times> (ReplicationConfig \<times> SyncWriter option) list \<times> ReplicationConfig list \<times>
    ReplicationConfig list \<times> ReplicationConfig list \<times> SyncStore list \<times> (string \<times> nat) list \<times> (string \<times> nat) list" where
  "engine_view e = (e_cfg e, map (\<lambda>s. (src_cfg s, src_syncWriter s)) (e_sources e), map hbe_cfg (e_heartbeats e),
     map ckp_cfg (e_checkpoints e), map disc_cfg (e_topicDiscoveries e), e_stores e, e_syncStores e, e_sourcesByFlow e)"

lemma engine_inv_view:
  assumes "engine_view e' = engine_view e" and "engine_inv cfg e"
  shows "engine_inv cfg e'"
proof -
  let ?p = "\<lambda>e. map (\<lambda>s. (src_cfg s, src_syncWriter s)) (e_sources e)"
  have ps: "?p e' = ?p e" using assms(1) by (simp add: engine_view_def)
  have cfg: "map src_cfg (e_sources e') = map src_cfg (e_sources e)" "map src_syncWriter (e_sources e') = map src_syncWriter (e_sources e)"
    using arg_cong [OF ps, of "map fst"] arg_cong [OF ps, of "map snd"] by (simp_all add: comp_def)
  have len: "length (e_sources e') = length (e_sources e)" using cfg(1) map_eq_imp_length_eq by blast
  have "src_syncWriter (e_sources e' ! i) = src_syncWriter (e_sources e ! i)" if "i < length (e_sources e)" for i
    using arg_cong [OF cfg(2), of "\<lambda>xs. xs ! i"] that len by simp
  with assms cfg len show ?thesis by (simp add: engine_inv_def wired_def engine_view_def)
qed

lemma bootstrap_flow_inv:
  assumes "bootstrap_flow env newClient polls r e = Some (Ret (err, e'))"
    and "engine_inv cfg e" "r \<in> set (flows cfg)" "emits_syncs_cfg r"
  shows "engine_inv cfg e'"
proof -
  have srv: "served (flows cfg) i r" if "map_of (e_syncStores e) (flowKey r) = Some i \<or> map_of (e_sourcesByFlow e) (flowKey r) = Some i" for i
    using that assms(2-4) by (auto simp: served_def engine_inv_def wired_def)
  have put: "engine_inv cfg (e\<lparr>e_stores := (e_stores e)[addr := st]\<rparr>)"
    if "map_of (e_syncStores e) (flowKey r) = Some addr" "ReadToEnd (e_stores e ! addr) 0 polls = Some (Ret (x, st))" for addr x st
  proof -
    have "addr < length (e_stores e)" using wired_store that(1) assms(2) by (auto simp: engine_inv_def)
    then show ?thesis
      using ReadToEnd_result [OF that(2)] srv that(1) assms(2)
      by (intro engine_inv_store [OF assms(2)]) (auto simp: engine_inv_def)
  qed
  from assms(1) show ?thesis
  proof (cases rule: bootstrap_flow_cases)
    case (loaded addr st reader pol w)
    let ?e = "e\<lparr>e_stores := (e_stores e)[addr := st], e_syncReaders := e_syncReaders e @ [(reader, addr)],
              e_syncWriters := e_syncWriters e @ [w]\<rparr>"
    have "engine_inv cfg (e\<lparr>e_stores := (e_stores e)[addr := st]\<rparr>)" by (rule put) (use loaded in auto)
    then have inv: "engine_inv cfg ?e" by simp
    show ?thesis
    proof (cases "map_of (e_sourcesByFlow e) (flowKey r)")
      case None
      with inv loaded(6) show ?thesis by simp
    next
      case (Some i)
      have "i < length (e_sources ?e)"
        using Some assms(2) wired_length [of "flows cfg" e] by (simp add: engine_inv_def) (auto simp: wired_def last_flow_Some)
      moreover have "writes_for w r" using loaded(4,5) by (auto simp: writes_for_def)
      ultimately have "engine_inv cfg (?e\<lparr>e_sources := (e_sources ?e)[i := SetSyncWriter w (e_sources ?e ! i)]\<rparr>)"
        using srv Some by (intro engine_inv_source [OF inv]) (auto simp: SetSyncWriter_def)
      with loaded(6) Some show ?thesis by simp
    qed
  qed (use assms(2) put in auto)
qed

lemma bootstrap_flows_inv:
  "bootstrap_flows env newClient polls rs e = Some (Ret (err, e')) \<Longrightarrow> engine_inv cfg e \<Longrightarrow>
     set (filter r_Enabled rs) \<subseteq> set (flows cfg) \<Longrightarrow> engine_inv cfg e'"
proof (induction rs arbitrary: e)
  case (Cons r rs)
  show ?case
  proof (cases "r_Enabled r \<and> emits_syncs_cfg r")
    case True
    then obtain x e1 where b: "bootstrap_flow env newClient (polls r) r e = Some (Ret (x, e1))"
      using Cons.prems(1) by (auto split: option.splits outcome.splits prod.splits)
    have inv: "engine_inv cfg e1" using bootstrap_flow_inv [OF b Cons.prems(2)] Cons.prems(3) True by auto
    show ?thesis
    proof (cases x)
      case None
      with Cons.IH [OF _ inv] Cons.prems b True show ?thesis by auto
    qed (use Cons.prems b True inv in auto)
  qed (use Cons in \<open>auto split: if_splits\<close>)
qed simp

section \<open>Lemmas: starting and stopping\<close>

lemma Start_keeps [simp]:
  "src_cfg (snd (Start env newClient s)) = src_cfg s" "src_syncWriter (snd (Start env newClient s)) = src_syncWriter s"
  by (simp_all add: Start_def Let_def split: sum.split option.split)

lemma component_Start_keeps [simp]:
  "hbe_cfg (snd (Heartbeat_Start env newClient h)) = hbe_cfg h"
  "ckp_cfg (snd (Checkpoint_Start env newClient c)) = ckp_cfg c"
  "disc_cfg (snd (TopicDiscovery_Start d)) = disc_cfg d"
  by (simp_all add: Heartbeat_Start_def Checkpoint_Start_def TopicDiscovery_Start_def Let_def split: sum.split option.split)

lemma start_view:
  "start_sources env newClient e = (err, e') \<Longrightarrow> engine_view e' = engine_view e \<and> e_running e' = e_running e"
  "start_discoveries e = (err, e') \<Longrightarrow> engine_view e' = engine_view e \<and> e_running e' = e_running e"
  "start_heartbeats env newClient e = (err, e') \<Longrightarrow> engine_view e' = engine_view e \<and> e_running e' = e_running e"
  "start_checkpoints env newClient e = (err, e') \<Longrightarrow> engine_view e' = engine_view e \<and> e_running e' = e_running e"
  by (auto simp: start_sources_def start_discoveries_def start_heartbeats_def start_checkpoints_def engine_view_def
      split: prod.splits dest: start_all_map [where f = "\<lambda>s. (src_cfg s, src_syncWriter s)"] start_all_map [where f = disc_cfg]
        start_all_map [where f = hbe_cfg] start_all_map [where f = ckp_cfg])

lemma start_phases_view:
  "start_phases ps e = (err, e') \<Longrightarrow>
     (\<And>p e err e'. p \<in> set ps \<Longrightarrow> p e = (err, e') \<Longrightarrow> engine_view e' = engine_view e \<and> e_running e' = e_running e) \<Longrightarrow>
     engine_view e' = engine_view e \<and> e_running e' = e_running e"
proof (induction ps arbitrary: e)
  case (Cons p ps)
  obtain er e1 where p: "p e = (er, e1)" by force
  have v: "engine_view e1 = engine_view e \<and> e_running e1 = e_running e" using Cons.prems(2) [of p e er e1] p by simp
  show ?case
  proof (cases er)
    case None
    with Cons.prems(1) p have "start_phases ps e1 = (err, e')" by simp
    from Cons.IH [OF this] Cons.prems(2) v show ?thesis by auto
  qed (use Cons.prems(1) p v in auto)
qed simp

abbreviation phases :: "build_env \<Rightarrow> (kgo_opt list \<Rightarrow> go_error option) \<Rightarrow> ('re Engine \<Rightarrow> go_error option \<times> 're Engine) list" where
  "phases env newClient \<equiv> [start_sources env newClient, start_discoveries, start_heartbeats env newClient, start_checkpoints env newClient]"

lemma phases_view:
  "start_phases (phases env newClient) e = (err, e') \<Longrightarrow> engine_view e' = engine_view e \<and> e_running e' = e_running e"
  by (erule start_phases_view) (auto dest: start_view)

lemma Stop_keeps [simp]: "src_cfg (fst (Stop s)) = src_cfg s" "src_syncWriter (fst (Stop s)) = src_syncWriter s"
  "\<not> src_running (fst (Stop s))"
  by (simp_all add: Stop_def Let_def)

lemma component_Stop_keeps [simp]:
  "hbe_cfg (Heartbeat_Stop h) = hbe_cfg h" "ckp_cfg (Checkpoint_Stop c) = ckp_cfg c" "disc_cfg (TopicDiscovery_Stop d) = disc_cfg d"
  "\<not> hbe_running (Heartbeat_Stop h)" "\<not> ckp_running (Checkpoint_Stop c)" "\<not> disc_running (TopicDiscovery_Stop d)"
  by (simp_all add: Heartbeat_Stop_def Checkpoint_Stop_def TopicDiscovery_Stop_def)

lemma Shutdown_view: "engine_view (Shutdown e) = engine_view e"
  by (simp add: engine_view_def Shutdown_def comp_def)

text \<open>\<open>Run_start\<close>: the engine was idle, or the syncs failed to load, or the phases were started.\<close>

lemma Run_start_cases:
  assumes "Run_start env newClient polls cu e = Some (Ret (err, e', acts))"
  obtains (running) "e_running e" "e' = e" "err \<noteq> None" "acts = []"
  | (unloaded) b e1 where "\<not> e_running e" "err \<noteq> None" "acts = []"
      "bootstrapOffsetSyncs env newClient polls (e\<lparr>e_running := True, e_httpServer := b\<rparr>) = Some (Ret (Some e1, e'))"
  | (started) b e1 where "\<not> e_running e"
      "bootstrapOffsetSyncs env newClient polls (e\<lparr>e_running := True, e_httpServer := b\<rparr>) = Some (Ret (None, e1))"
      "start_phases (phases env newClient) e1 = (err, e')" "acts = catch_up env newClient cu (e_cfg e1)"
proof (cases "e_running e")
  case True
  then have "err = Some (Errorf ''engine already running'' []) \<and> e' = e \<and> acts = []"
    using assms [unfolded Run_start_def if_P [OF True]] by simp
  with True show ?thesis by (intro running) simp_all
next
  case False
  obtain b where b: "(if mc_Enabled (c_Metrics (e_cfg (e\<lparr>e_running := True\<rparr>))) then e\<lparr>e_running := True, e_httpServer := True\<rparr> else e\<lparr>e_running := True\<rparr>)
      = e\<lparr>e_running := True, e_httpServer := b\<rparr>"
    by (cases "mc_Enabled (c_Metrics (e_cfg e))") (auto intro: that [of True] that [of "e_httpServer e"])
  note r = assms [unfolded Run_start_def Let_def b if_not_P [OF False]]
  obtain x e1 where x: "bootstrapOffsetSyncs env newClient polls (e\<lparr>e_running := True, e_httpServer := b\<rparr>) = Some (Ret (x, e1))"
    using r by (auto split: option.splits outcome.splits)
  show ?thesis
  proof (cases x)
    case None
    obtain er e2 where s: "start_phases (phases env newClient) e1 = (er, e2)" by force
    from r [unfolded x None s option.case outcome.case prod.case]
    have "er = err" "e2 = e'" "acts = catch_up env newClient cu (e_cfg e1)" by simp_all
    with s show ?thesis by (intro started [OF False x [unfolded None]]) (simp_all del: start_phases.simps)
  next
    case (Some er)
    from r [unfolded x Some option.case outcome.case prod.case]
    have "err \<noteq> None" "acts = []" "e1 = e'" by auto
    with x Some show ?thesis by (intro unloaded [OF False]) simp_all
  qed
qed

lemma bootstrap_inv:
  "bootstrapOffsetSyncs env newClient polls e = Some (Ret (err, e')) \<Longrightarrow> engine_inv cfg e \<Longrightarrow> engine_inv cfg e'"
  unfolding bootstrapOffsetSyncs_def by (erule bootstrap_flows_inv) (auto simp: engine_inv_def flows_def)

lemma Run_start_inv:
  assumes "Run_start env newClient polls cu e = Some (Ret (err, e', acts))" and "engine_inv cfg e"
  shows "engine_inv cfg e'"
  using assms(1)
proof (cases rule: Run_start_cases)
  case (started b e1)
  have "engine_inv cfg e1" by (rule bootstrap_inv [OF started(2)]) (use assms(2) in simp)
  then show ?thesis using phases_view [OF started(3)] engine_inv_view by blast
next
  case (unloaded b e1)
  then show ?thesis by (intro bootstrap_inv [OF unloaded(4)]) (use assms(2) in simp)
qed (use assms(2) in simp)

section \<open>Reachable engines\<close>

text \<open>
  After its construction the engine is started and shut down, and in between the components change
  what they share: a source or a reader hands a sync to a store, the discovery subscribes a source,
  a produce callback counts an error. The environment may answer every call differently.
\<close>

inductive engine_reach :: "Config \<Rightarrow> 're Engine \<Rightarrow> bool" for cfg where
  engine_new: "NewEngine compile env newClient cfg = Inr e \<Longrightarrow> engine_reach cfg e"
| engine_run: "engine_reach cfg e \<Longrightarrow> Run_start env newClient polls cu e = Some (Ret (err, e', acts)) \<Longrightarrow> engine_reach cfg e'"
| engine_sync: "engine_reach cfg e \<Longrightarrow> i < length (e_stores e) \<Longrightarrow>
    engine_reach cfg (e\<lparr>e_stores := (e_stores e)[i := HandleSync (e_stores e ! i) x]\<rparr>)"
| engine_topics: "engine_reach cfg e \<Longrightarrow> i < length (e_sources e) \<Longrightarrow>
    engine_reach cfg (e\<lparr>e_sources := (e_sources e)[i := fst (UpdateTopics ts (e_sources e ! i))]\<rparr>)"
| engine_errors: "engine_reach cfg e \<Longrightarrow> i < length (e_sources e) \<Longrightarrow>
    engine_reach cfg (e\<lparr>e_sources := (e_sources e)[i := (e_sources e ! i)\<lparr>src_produceErrors := n\<rparr>]\<rparr>)"
| engine_shutdown: "engine_reach cfg e \<Longrightarrow> engine_reach cfg (Shutdown e)"

lemma UpdateTopics_keeps [simp]:
  "src_cfg (fst (UpdateTopics ts s)) = src_cfg s" "src_syncWriter (fst (UpdateTopics ts s)) = src_syncWriter s"
  by (simp_all add: UpdateTopics_def split: prod.split)

lemma fresh_inv: "wired (flows cfg) e \<Longrightarrow> fresh e \<Longrightarrow> e_cfg e = cfg \<Longrightarrow> engine_inv cfg e"
  by (auto simp: engine_inv_def fresh_def NewSyncStore_def intro: store_new [unfolded NewSyncStore_def] dest!: nth_mem)

lemma engine_reach_inv: "engine_reach cfg e \<Longrightarrow> engine_inv cfg e"
proof (induction rule: engine_reach.induct)
  case (engine_new compile env newClient e)
  then show ?case using NewEngine_wired fresh_inv by blast
next
  case (engine_sync e i x)
  then show ?case by (intro engine_inv_store) (auto simp: engine_inv_def intro: store_handle)
next
  case (engine_shutdown e)
  then show ?case using Shutdown_view engine_inv_view by blast
qed (auto intro: Run_start_inv engine_inv_source)

section \<open>Lemmas: what a successful bootstrap leaves\<close>

abbreviation flow_ready :: "'re Engine \<Rightarrow> nat \<Rightarrow> bool" where
  "flow_ready e i \<equiv> ss_readToEnd (e_stores e ! i)"

lemma bootstrap_flow_success:
  assumes "bootstrap_flow env newClient polls r e = Some (Ret (None, e'))" and "wired rs e"
  shows "e_syncStores e' = e_syncStores e \<and> (\<exists>i. last_flow rs (flowKey r) = Some i \<and> flow_ready e' i \<and> src_syncWriter (e_sources e' ! i) \<noteq> None) \<and>
    (\<forall>i. flow_ready e i \<longrightarrow> flow_ready e' i) \<and>
    (\<forall>i. src_syncWriter (e_sources e ! i) \<noteq> None \<longrightarrow> src_syncWriter (e_sources e' ! i) \<noteq> None) \<and> wired rs e'"
  using assms(1)
proof (cases rule: bootstrap_flow_cases)
  case (loaded addr st reader pol w)
  note len = wired_length [OF assms(2)]
  have addr: "addr < length rs" "last_flow rs (flowKey r) = Some addr" "map_of (e_sourcesByFlow e) (flowKey r) = Some addr"
    using wired_store [OF assms(2) loaded(2)] assms(2) len by (auto simp: wired_def)
  have cfg: "map src_cfg ((e_sources e)[addr := SetSyncWriter w (e_sources e ! addr)]) = map src_cfg (e_sources e)"
    by (rule map_update_same) (simp add: SetSyncWriter_def)
  have st: "ss_readToEnd st" using ReadToEnd_result [OF loaded(3)] by simp
  have "wired rs e'" using assms(2) addr(3) cfg by (simp add: loaded(6) wired_def)
  moreover have "flow_ready e i \<longrightarrow> flow_ready e' i" for i
    using st by (simp add: loaded(6) nth_list_update split: if_splits) (metis list_update_beyond nth_list_update not_le)
  moreover have "src_syncWriter (e_sources e ! i) \<noteq> None \<longrightarrow> src_syncWriter (e_sources e' ! i) \<noteq> None" for i
    by (cases "i = addr") (use addr(3) addr(1) len in \<open>simp_all add: loaded(6) SetSyncWriter_def\<close>)
  ultimately show ?thesis using st addr len by (simp add: loaded(6) SetSyncWriter_def)
qed simp_all

lemma bootstrap_flows_success:
  "bootstrap_flows env newClient polls qs e = Some (Ret (None, e')) \<Longrightarrow> wired rs e \<Longrightarrow>
    (\<forall>r \<in> set qs. r_Enabled r \<and> emits_syncs_cfg r \<longrightarrow>
       (\<exists>i. last_flow rs (flowKey r) = Some i \<and> flow_ready e' i \<and> src_syncWriter (e_sources e' ! i) \<noteq> None)) \<and>
    (\<forall>i. flow_ready e i \<longrightarrow> flow_ready e' i) \<and>
    (\<forall>i. src_syncWriter (e_sources e ! i) \<noteq> None \<longrightarrow> src_syncWriter (e_sources e' ! i) \<noteq> None) \<and>
    e_syncStores e' = e_syncStores e"
proof (induction qs arbitrary: e)
  case (Cons r qs)
  show ?case
  proof (cases "r_Enabled r \<and> emits_syncs_cfg r")
    case True
    then obtain e1 where b: "bootstrap_flow env newClient (polls r) r e = Some (Ret (None, e1))"
      and rest: "bootstrap_flows env newClient polls qs e1 = Some (Ret (None, e'))"
      using Cons.prems(1) by (auto split: option.splits outcome.splits prod.splits)
    note s = bootstrap_flow_success [OF b Cons.prems(2)]
    from Cons.IH [OF rest] s show ?thesis by (metis set_ConsD)
  next
    case False
    then have "bootstrap_flows env newClient polls qs e = Some (Ret (None, e'))" using Cons.prems(1) by (auto split: if_splits)
    from Cons.IH [OF this Cons.prems(2)] False show ?thesis by auto
  qed
qed simp

lemma Run_start_success:
  assumes "Run_start env newClient polls cu e = Some (Ret (None, e', acts))" and "engine_inv cfg e"
  shows "\<forall>r \<in> set (flows cfg). emits_syncs_cfg r \<longrightarrow>
      (\<exists>i. last_flow (flows cfg) (flowKey r) = Some i \<and> flow_ready e' i \<and> src_syncWriter (e_sources e' ! i) \<noteq> None)"
  using assms(1)
proof (cases rule: Run_start_cases)
  case (started b e1)
  let ?e = "e\<lparr>e_running := True, e_httpServer := b\<rparr>"
  have inv: "engine_inv cfg ?e" using assms(2) by simp
  have "bootstrap_flows env newClient polls (c_Replications cfg) ?e = Some (Ret (None, e1))"
    using started(2) assms(2) by (simp add: bootstrapOffsetSyncs_def engine_inv_def)
  note s = bootstrap_flows_success [OF this, of "flows cfg"]
  have inv1: "engine_inv cfg e1" by (rule bootstrap_inv [OF started(2) inv])
  have v: "engine_view e' = engine_view e1" using phases_view [OF started(3)] by simp
  then have st: "e_stores e' = e_stores e1" by (simp add: engine_view_def)
  have "map (snd \<circ> (\<lambda>s. (src_cfg s, src_syncWriter s))) (e_sources e') = map (snd \<circ> (\<lambda>s. (src_cfg s, src_syncWriter s))) (e_sources e1)"
    using v by (simp add: engine_view_def flip: map_map)
  then have w: "map src_syncWriter (e_sources e') = map src_syncWriter (e_sources e1)" by (simp add: comp_def)
  have len: "length (e_sources e') = length (flows cfg)" "length (e_sources e1) = length (flows cfg)"
    using map_eq_imp_length_eq [OF w] wired_length [of "flows cfg" e1] inv1 by (simp_all add: engine_inv_def)
  show ?thesis
  proof (intro ballI impI)
    fix r assume r: "r \<in> set (flows cfg)" "emits_syncs_cfg r"
    then obtain i where i: "last_flow (flows cfg) (flowKey r) = Some i" "flow_ready e1 i" "src_syncWriter (e_sources e1 ! i) \<noteq> None"
      using s inv by (auto simp: engine_inv_def flows_def)
    have "i < length (flows cfg)" using i(1) by (simp add: last_flow_Some)
    then have "src_syncWriter (e_sources e' ! i) = src_syncWriter (e_sources e1 ! i)"
      using arg_cong [OF w, of "\<lambda>xs. xs ! i"] len by simp
    with i st show "\<exists>i. last_flow (flows cfg) (flowKey r) = Some i \<and> flow_ready e' i \<and> src_syncWriter (e_sources e' ! i) \<noteq> None"
      by auto
  qed
qed simp_all

lemma readyz_iff:
  assumes "engine_inv cfg e"
  shows "readyz e = (200, ''ok'') \<longleftrightarrow> (\<forall>i \<in> ran (last_flow (flows cfg)). flow_ready e i)"
    and "readyz e \<noteq> (200, ''ok'') \<Longrightarrow> readyz e = (503, ''not ready'')"
proof -
  have "snd ` set (e_syncStores e) = ran (last_flow (flows cfg))"
    using ran_distinct [of "e_syncStores e"] assms by (auto simp: engine_inv_def wired_def)
  moreover have "list_all (\<lambda>(_, addr). IsReady (e_stores e ! addr)) (e_syncStores e) \<longleftrightarrow>
      (\<forall>i \<in> snd ` set (e_syncStores e). flow_ready e i)"
    by (auto simp: list_all_iff IsReady_def)
  ultimately show "readyz e = (200, ''ok'') \<longleftrightarrow> (\<forall>i \<in> ran (last_flow (flows cfg)). flow_ready e i)"
    by (simp add: readyz_def)
qed (simp add: readyz_def split: if_splits)

lemma unserved:
  assumes "engine_inv cfg e" "i < length (flows cfg)" "\<And>r. \<not> served (flows cfg) i r"
  shows "\<not> flow_ready e i" "src_syncWriter (e_sources e ! i) = None"
  using assms wired_length [of "flows cfg" e] by (auto simp: engine_inv_def intro: ccontr)

section \<open>Starting succeeds\<close>

text \<open>Polls that end without a panic: at the read deadline, or with an empty poll without errors.\<close>

fun quiet :: "Poll list \<Rightarrow> bool" where
  "quiet [] = False"
| "quiet (p # ps) = (case poll_ctx p of
      Some c \<Rightarrow> c = DeadlineExceeded
    | None \<Rightarrow> (\<forall>r \<in> set (poll_records p). no_panic r) \<and> (poll_records p = [] \<and> poll_errors p = [] \<or> quiet ps))"

lemma quiet_ReadToEnd: "quiet ps \<Longrightarrow> \<exists>st. ReadToEnd s n ps = Some (Ret (None, st))"
  by (induction ps arbitrary: s n) (auto simp: absorb_records_eq split: option.splits)

text \<open>The clients of a flow can be created.\<close>

definition reachable_clusters :: "build_env \<Rightarrow> Config \<Rightarrow> ReplicationConfig \<Rightarrow> bool" where
  "reachable_clusters env cfg r \<longleftrightarrow> (\<exists>o1. BuildClientOpts env (cluster cfg (r_Source r)) = Inr o1) \<and>
     (\<exists>o2. BuildClientOpts env (cluster cfg (r_Target r)) = Inr o2)"

lemma bootstrap_flow_ok:
  assumes "wired rs e" "r \<in> set rs" "known_policy (r_ReplicationPolicy r)" "reachable_clusters env (e_cfg e) r" "quiet ps"
  shows "\<exists>e'. bootstrap_flow env (\<lambda>_. None) ps r e = Some (Ret (None, e'))"
proof -
  obtain pol where pol: "NewPolicy (r_ReplicationPolicy r) (r_Separator r) = Inr pol" using assms(3) NewPolicy_ok by blast
  obtain opts where opts: "BuildClientOpts env (cluster (e_cfg e) (r_Source r)) = Inr opts"
    using assms(4) by (auto simp: reachable_clusters_def)
  obtain addr where addr: "map_of (e_syncStores e) (flowKey r) = Some addr"
    using assms(1,2) last_flow_None [of rs "flowKey r"] by (fastforce simp: wired_def)
  obtain st where "ReadToEnd (e_stores e ! addr) 0 ps = Some (Ret (None, st))" using quiet_ReadToEnd [OF assms(5)] by blast
  then show ?thesis
    by (simp add: bootstrap_flow_def pol opts addr NewClient_def NewSyncReader_def NewSyncWriter_def Let_def)
qed

text \<open>A bootstrap keeps the engine startable: it changes no source but for its writer.\<close>

lemma startable_source:
  "startable e \<Longrightarrow> startable (e\<lparr>e_sources := (e_sources e)[i := SetSyncWriter w (e_sources e ! i)]\<rparr>)"
  by (cases "i < length (e_sources e)")
    (auto simp: startable_def Let_def SetSyncWriter_def list_update_beyond dest!: set_update_subset_insert [THEN subsetD])

lemma startable_frame [simp]:
  "startable (e\<lparr>e_stores := a\<rparr>) = startable e" "startable (e\<lparr>e_syncReaders := b\<rparr>) = startable e"
  "startable (e\<lparr>e_syncWriters := c\<rparr>) = startable e" "startable (e\<lparr>e_running := d\<rparr>) = startable e"
  "startable (e\<lparr>e_httpServer := d\<rparr>) = startable e"
  by (simp_all add: startable_def)

lemma bootstrap_flow_startable:
  assumes "bootstrap_flow env newClient ps r e = Some (Ret (None, e'))" and "startable e"
  shows "startable e' \<and> e_cfg e' = e_cfg e \<and> e_running e' = e_running e"
  using assms(1)
proof (cases rule: bootstrap_flow_cases)
  case (loaded addr st reader pol w)
  let ?e = "e\<lparr>e_stores := (e_stores e)[addr := st], e_syncReaders := e_syncReaders e @ [(reader, addr)],
              e_syncWriters := e_syncWriters e @ [w]\<rparr>"
  have s: "startable ?e" using assms(2) by simp
  show ?thesis
  proof (cases "map_of (e_sourcesByFlow e) (flowKey r)")
    case None
    with s loaded(6) show ?thesis by simp
  next
    case (Some i)
    with startable_source [OF s, of i w] loaded(6) show ?thesis by simp
  qed
qed simp_all

lemma bootstrap_flows_ok:
  "wired rs e \<Longrightarrow> startable e \<Longrightarrow> set (filter r_Enabled qs) \<subseteq> set rs \<Longrightarrow>
   (\<And>r. r \<in> set rs \<Longrightarrow> known_policy (r_ReplicationPolicy r) \<and> reachable_clusters env (e_cfg e) r \<and> quiet (polls r)) \<Longrightarrow>
   \<exists>e'. bootstrap_flows env (\<lambda>_. None) polls qs e = Some (Ret (None, e')) \<and> startable e' \<and> e_cfg e' = e_cfg e \<and>
     e_running e' = e_running e"
proof (induction qs arbitrary: e)
  case (Cons r qs)
  show ?case
  proof (cases "r_Enabled r \<and> emits_syncs_cfg r")
    case True
    then have r: "r \<in> set rs" using Cons.prems(3) by simp
    then obtain e1 where b: "bootstrap_flow env (\<lambda>_. None) (polls r) r e = Some (Ret (None, e1))"
      using bootstrap_flow_ok [OF Cons.prems(1) r] Cons.prems(4) [OF r] by blast
    note s = bootstrap_flow_startable [OF b Cons.prems(2)] and w = bootstrap_flow_success [OF b Cons.prems(1)]
    have "\<exists>e'. bootstrap_flows env (\<lambda>_. None) polls qs e1 = Some (Ret (None, e')) \<and> startable e' \<and> e_cfg e' = e_cfg e1 \<and>
        e_running e' = e_running e1"
      by (rule Cons.IH) (use w s Cons.prems(3,4) in \<open>auto split: if_splits\<close>)
    with b True s show ?thesis by auto
  next
    case False
    with Cons.IH [OF Cons.prems(1,2) _ Cons.prems(4)] Cons.prems(3) show ?thesis by (auto split: if_splits)
  qed
qed simp

text \<open>If the phases end without an error, every component runs that its configuration asks for.\<close>

definition all_running :: "'re Engine \<Rightarrow> bool" where
  "all_running e \<longleftrightarrow> (\<forall>s \<in> set (e_sources e). src_running s) \<and> (\<forall>d \<in> set (e_topicDiscoveries e). disc_running d) \<and>
    (\<forall>h \<in> set (e_heartbeats e). hbe_running h = BoolDefault (r_EmitHeartbeats (hbe_cfg h)) True) \<and>
    (\<forall>c \<in> set (e_checkpoints e). ckp_running c = BoolDefault (r_EmitCheckpoints (ckp_cfg c)) True)"

lemma phases_run:
  assumes "start_phases (phases env newClient) e = (None, e')"
  shows "all_running e'"
proof -
  obtain xs ds hs cs where starts: "start_all (Start env newClient) (e_sources e) = (None, xs)"
    "start_all TopicDiscovery_Start (e_topicDiscoveries e) = (None, ds)"
    "start_all (Heartbeat_Start env newClient) (e_heartbeats e) = (None, hs)"
    "start_all (Checkpoint_Start env newClient) (e_checkpoints e) = (None, cs)"
    and e': "e' = e\<lparr>e_sources := xs, e_topicDiscoveries := ds, e_heartbeats := hs, e_checkpoints := cs\<rparr>"
    using assms
    by (auto simp: start_sources_def start_discoveries_def start_heartbeats_def start_checkpoints_def
        split: prod.splits option.splits)
  show ?thesis
    using source.start_all_runs [OF starts(1)] discovery.start_all_runs [OF starts(2)]
      heartbeat.start_all_runs [OF starts(3)] checkpoint.start_all_runs [OF starts(4)]
    by (simp add: all_running_def e')
qed

lemma component_starts:
  "\<not> src_running s \<Longrightarrow> BuildClientOpts env (src_srcCfg s) = Inr o1 \<Longrightarrow> BuildClientOpts env (src_tgtCfg s) = Inr o2 \<Longrightarrow>
     fst (Start env (\<lambda>_. None) s) = None"
  "\<not> hbe_running h \<Longrightarrow> BuildClientOpts env (hbe_tgtCfg h) = Inr o2 \<Longrightarrow> fst (Heartbeat_Start env (\<lambda>_. None) h) = None"
  "\<not> ckp_running c \<Longrightarrow> BuildClientOpts env (ckp_srcCfg c) = Inr o1 \<Longrightarrow> BuildClientOpts env (ckp_tgtCfg c) = Inr o2 \<Longrightarrow>
     fst (Checkpoint_Start env (\<lambda>_. None) c) = None"
  "\<not> disc_running d \<Longrightarrow> fst (TopicDiscovery_Start d) = None"
  by (simp_all add: Start_def Heartbeat_Start_def Checkpoint_Start_def TopicDiscovery_Start_def Let_def)

text \<open>The phases on a startable engine whose clusters are reachable.\<close>

lemma phases_ok:
  assumes "startable e" "engine_inv cfg e" "\<And>r. r \<in> set (flows cfg) \<Longrightarrow> reachable_clusters env cfg r"
  shows "\<exists>e'. start_phases (phases env (\<lambda>_. None)) e = (None, e')"
proof -
  have flow: "src_cfg s \<in> set (flows cfg)" if "s \<in> set (e_sources e)" for s
    using that assms(2) by (auto simp: engine_inv_def wired_def dest!: arg_cong [of _ _ set])
  have flow_h: "hbe_cfg h \<in> set (flows cfg)" if "h \<in> set (e_heartbeats e)" for h
    using that assms(2) by (auto simp: engine_inv_def wired_def dest!: arg_cong [of "map hbe_cfg _" _ set])
  have flow_c: "ckp_cfg c \<in> set (flows cfg)" if "c \<in> set (e_checkpoints e)" for c
    using that assms(2) by (auto simp: engine_inv_def wired_def dest!: arg_cong [of "map ckp_cfg _" _ set])
  have cfg: "e_cfg e = cfg" using assms(2) by (simp add: engine_inv_def)
  have "fst (Start env (\<lambda>_. None) s) = None" if "s \<in> set (e_sources e)" for s
    using component_starts(1) [of s env] assms(3) [OF flow [OF that]] assms(1) that cfg
    by (fastforce simp: startable_def Let_def reachable_clusters_def)
  moreover have "fst (Heartbeat_Start env (\<lambda>_. None) h) = None" if "h \<in> set (e_heartbeats e)" for h
    using component_starts(2) [of h env] assms(3) [OF flow_h [OF that]] assms(1) that cfg
    by (fastforce simp: startable_def Let_def reachable_clusters_def)
  moreover have "fst (Checkpoint_Start env (\<lambda>_. None) c) = None" if "c \<in> set (e_checkpoints e)" for c
    using component_starts(3) [of c env] assms(3) [OF flow_c [OF that]] assms(1) that cfg
    by (fastforce simp: startable_def Let_def reachable_clusters_def)
  moreover have "fst (TopicDiscovery_Start d) = None" if "d \<in> set (e_topicDiscoveries e)" for d
    using component_starts(4) [of d] assms(1) that by (simp add: startable_def Let_def)
  ultimately show ?thesis
    by (simp add: start_sources_def start_discoveries_def start_heartbeats_def start_checkpoints_def start_all_ok)
qed

lemma engine_starts_aux:
  assumes "NewEngine compile env newClient cfg = Inr e"
    and "\<forall>r \<in> set (flows cfg). reachable_clusters env' cfg r" and "\<forall>r \<in> set (flows cfg). quiet (polls r)"
  shows "\<exists>e' acts. Run_start env' (\<lambda>_. None) polls cu e = Some (Ret (None, e', acts)) \<and> e_running e' \<and> all_running e'"
proof -
  note new = NewEngine_wired [OF assms(1)] NewEngine_startable [OF assms(1)]
  let ?e = "let e = e\<lparr>e_running := True\<rparr> in if mc_Enabled (c_Metrics (e_cfg e)) then e\<lparr>e_httpServer := True\<rparr> else e"
  have e: "engine_inv cfg ?e" "startable ?e" "e_running ?e" "e_cfg ?e = cfg"
    using new fresh_inv [of cfg e] by (simp_all add: Let_def)
  have pol: "known_policy (r_ReplicationPolicy r)" if "r \<in> set (flows cfg)" for r
    using add_flows_policy [OF assms(1) [unfolded NewEngine_def]] that by (auto simp: flows_def)
  have "\<exists>e'. bootstrap_flows env' (\<lambda>_. None) polls (c_Replications cfg) ?e = Some (Ret (None, e')) \<and> startable e' \<and>
      e_cfg e' = e_cfg ?e \<and> e_running e' = e_running ?e"
    by (rule bootstrap_flows_ok [of "flows cfg"])
      (use e pol assms(2,3) in \<open>auto simp: engine_inv_def flows_def simp del: Let_def\<close>)
  then obtain e1 where e1: "bootstrapOffsetSyncs env' (\<lambda>_. None) polls ?e = Some (Ret (None, e1))" "startable e1" "e_running e1"
    using e(3,4) by (auto simp: bootstrapOffsetSyncs_def)
  obtain e' where e': "start_phases (phases env' (\<lambda>_. None)) e1 = (None, e')"
    using phases_ok [OF e1(2) bootstrap_inv [OF e1(1) e(1)], of env'] assms(2) by blast
  have "Run_start env' (\<lambda>_. None) polls cu e = Some (Ret (None, e', catch_up env' (\<lambda>_. None) cu (e_cfg e1)))"
    using new(1) e1(1) e' by (simp add: Run_start_def fresh_def Let_def del: start_phases.simps)
  moreover have "e_running e'" using phases_view [OF e'] e1(3) by simp
  ultimately show ?thesis using phases_run [OF e'] by blast
qed

lemma bootstrap_running:
  "bootstrap_flows env newClient polls rs e = Some (Ret (err, e')) \<Longrightarrow> e_running e' = e_running e"
proof (induction rs arbitrary: e)
  case (Cons r rs)
  have one: "e_running e1 = e_running e" if "bootstrap_flow env newClient (polls r) r e = Some (Ret (x, e1))" for x e1
    using that by (cases rule: bootstrap_flow_cases) auto
  show ?case
  proof (cases "r_Enabled r \<and> emits_syncs_cfg r")
    case True
    then obtain x e1 where b: "bootstrap_flow env newClient (polls r) r e = Some (Ret (x, e1))"
      using Cons.prems by (auto split: option.splits outcome.splits prod.splits)
    with Cons True one [OF b] show ?thesis by (cases x) auto
  qed (use Cons in \<open>auto split: if_splits\<close>)
qed simp

section \<open>The catch-up\<close>

lemma sint_sub64:
  assumes "- (2 ^ 63) \<le> sint a - sint b" and "sint a - sint b < 2 ^ 63"
  shows "sint (a - b :: int64) = sint a - sint b"
proof -
  have "a - b = word_of_int (sint a - sint b)" by simp
  then show ?thesis using sint_of_int64 [OF assms] by simp
qed

lemma high_lag_Some:
  assumes "high_lag committed hwm = Some (a, b)" and "0 \<le> sint hwm"
  shows "0 \<le> sint a \<and> b = hwm \<and> 100000 < sint b - sint a \<and> (if sint committed \<le> 0 then a = 0 else a = committed)"
proof (cases "sint committed \<le> 0")
  case True
  with assms show ?thesis
    by (auto simp: high_lag_def parallelThreshold_def word_sle_eq word_sless_alt Let_def split: if_splits)
next
  case False
  then have "sint (hwm - committed) = sint hwm - sint committed"
    using assms(2) sint_range64 [of hwm] sint_range64 [of committed] by (intro sint_sub64) simp_all
  with False assms show ?thesis
    by (auto simp: high_lag_def parallelThreshold_def word_sle_eq word_sless_alt Let_def split: if_splits)
qed

lemma catch_up_topic_action:
  assumes "RunCatchUp t lags err plan \<in> set (catch_up_topic env newClient cu r srcCfg tgtCfg tgtAdmin pol workers topic)"
  shows "t = topic \<and> \<not> skipped_topic topic \<and>
    (\<exists>parts ps ps'. lags = List.map_filter (partition_lag env newClient cu srcCfg topic) (remdups parts) \<and>
      NewParallelSource env newClient r srcCfg tgtCfg workers = Inr ps \<and> CatchUpMultiPartition env newClient lags topic ps = (err, ps', plan))"
proof -
  define parts where "parts = (case ListTopicPartitions (cu_partitions cu topic) topic of Inl _ \<Rightarrow> [0] | Inr ps \<Rightarrow> ps)"
  define L where "L = List.map_filter (partition_lag env newClient cu srcCfg topic) (remdups parts)"
  define created where "created = (case pol of
       Some p \<Rightarrow>
         if tgtAdmin
         then let targetTopic = FormatRemoteTopic p (r_Source r) topic
              in [RunCreateTopic targetTopic (of_nat (length parts)) (r_ReplicationFactor r)
                    (CreateTopic (cu_create cu targetTopic) targetTopic)]
         else []
     | None \<Rightarrow> [])"
  define caught where "caught = (if L \<noteq> [] then
       (case NewParallelSource env newClient r srcCfg tgtCfg workers of
          Inl _ \<Rightarrow> []
        | Inr ps \<Rightarrow> (case CatchUpMultiPartition env newClient L topic ps of (err, _, plan) \<Rightarrow> [RunCatchUp topic L err plan])) else [])"
  have act: "catch_up_topic env newClient cu r srcCfg tgtCfg tgtAdmin pol workers topic =
      (if skipped_topic topic then [] else if NewClient env newClient srcCfg \<noteq> None then [] else created @ caught)"
    by (simp only: catch_up_topic_def Let_def created_def caught_def L_def parts_def)
  have skip: "\<not> skipped_topic topic" using assms unfolding act by (cases "skipped_topic topic") simp_all
  have "RunCatchUp t lags err plan \<notin> set created" by (cases pol) (simp_all add: created_def Let_def)
  then have c: "RunCatchUp t lags err plan \<in> set caught"
    using assms unfolding act by (cases "NewClient env newClient srcCfg") (simp_all add: skip)
  have "caught = []" if "NewParallelSource env newClient r srcCfg tgtCfg workers = Inl er" for er
    by (simp add: caught_def that)
  with c obtain ps where ps: "NewParallelSource env newClient r srcCfg tgtCfg workers = Inr ps"
    by (metis empty_iff empty_set sum.exhaust)
  obtain er ps' pl where cu: "CatchUpMultiPartition env newClient L topic ps = (er, ps', pl)" by (metis prod.exhaust)
  have "RunCatchUp t lags err plan = RunCatchUp topic L er pl" using c by (cases "L = []") (simp_all add: caught_def ps cu)
  then show ?thesis using skip ps cu unfolding L_def by blast
qed

lemma catch_up_flow_action:
  assumes "RunCatchUp t lags err plan \<in> set (catch_up_flow env newClient cu cfg r)"
  shows "\<exists>listing adm pol workers. cu_topics cu = Inr listing \<and> (\<exists>topic \<in> fst ` set listing. RunCatchUp t lags err plan \<in>
    set (catch_up_topic env newClient cu r (cluster cfg (r_Source r)) (cluster cfg (r_Target r)) adm pol workers topic))"
proof (cases "cu_topics cu")
  case (Inr listing)
  let ?pol = "case NewPolicy (r_ReplicationPolicy r) (r_Separator r) of Inl _ \<Rightarrow> None | Inr p \<Rightarrow> Some p"
  let ?w = "if r_WorkersPerPartition r < 2 then 2 else r_WorkersPerPartition r"
  have "RunCatchUp t lags err plan \<in> set (concat (map (catch_up_topic env newClient cu r (cluster cfg (r_Source r)) (cluster cfg (r_Target r))
      (NewClient env newClient (cluster cfg (r_Target r)) = None) ?pol ?w) (sort (map fst listing))))"
    using assms unfolding catch_up_flow_def Let_def ListTopics_def Inr sum.case by (simp split: if_splits)
  then have "\<exists>topic \<in> fst ` set listing. RunCatchUp t lags err plan \<in> set (catch_up_topic env newClient cu r (cluster cfg (r_Source r))
      (cluster cfg (r_Target r)) (NewClient env newClient (cluster cfg (r_Target r)) = None) ?pol ?w topic)" by simp
  with Inr show ?thesis by blast
qed (use assms in \<open>simp add: catch_up_flow_def ListTopics_def Let_def split: if_splits\<close>)

lemma partition_lag_part: "partition_lag env newClient cu srcCfg topic p = Some x \<Longrightarrow> fst x = p"
  by (auto simp: partition_lag_def split: sum.splits)

lemma map_filter_keys:
  "(\<And>p x. f p = Some x \<Longrightarrow> fst x = p) \<Longrightarrow> distinct ps \<Longrightarrow>
     distinct (map fst (List.map_filter f ps)) \<and> fst ` set (List.map_filter f ps) \<subseteq> set ps"
proof (induction ps)
  case (Cons p ps)
  then show ?case by (cases "f p") (auto simp: List.map_filter_simps)
qed (simp add: List.map_filter_simps)

lemma partition_lag_Some:
  assumes "partition_lag env newClient cu srcCfg topic p = Some (part, a, b)"
    and "\<And>ends tp v. cu_ends cu topic p = Inr ends \<Longrightarrow> (tp, v) \<in> set ends \<Longrightarrow> 0 \<le> sint v"
  shows "part = p \<and> 0 \<le> a \<and> 100000 < b - a"
proof -
  obtain c h where ch: "GetPartitionLag env newClient srcCfg (cu_committed cu topic p) (cu_ends cu topic p) topic p = Inr (c, h)"
    "map_option (\<lambda>(from, to). (p, sint from, sint to)) (high_lag c h) = Some (part, a, b)"
    using assms(1) by (auto simp: partition_lag_def split: sum.splits)
  then obtain ends where ends: "cu_ends cu topic p = Inr ends" "h = last_match topic p ends"
    by (auto simp: GetPartitionLag_def split: sum.splits option.splits)
  have "last_match topic p xs = 0 \<or> (\<exists>tp. (tp, last_match topic p xs) \<in> set xs)" for xs
    unfolding last_match_def by (induction xs rule: rev_induct) (auto split: prod.splits)
  then have "0 \<le> sint h" using assms(2) ends by (metis order_refl signed_0)
  with ch(2) high_lag_Some show ?thesis by auto
qed

section \<open>Properties\<close>

text \<open>
  C9. The wiring of the engine. In every reachable engine, flow \<open>i\<close>'s source, heartbeat emitter,
  checkpoint emitter and topic discovery all belong to the \<open>i\<close>-th enabled replication; there is
  one sync store per flow, and each is a store that syncs alone can build, so the guarantees of the
  sync store hold for it; the engine's maps lead from a flow key to the last flow with that key.
\<close>

theorem engine_invariant:
  assumes "engine_reach cfg e"
  shows "map src_cfg (e_sources e) = flows cfg \<and> map hbe_cfg (e_heartbeats e) = flows cfg \<and>
    map ckp_cfg (e_checkpoints e) = flows cfg \<and> map disc_cfg (e_topicDiscoveries e) = flows cfg \<and>
    length (e_stores e) = length (flows cfg) \<and> (\<forall>st \<in> set (e_stores e). store_reach st) \<and>
    map_of (e_syncStores e) = last_flow (flows cfg) \<and> map_of (e_sourcesByFlow e) = last_flow (flows cfg)"
  using engine_reach_inv [OF assms] by (simp add: engine_inv_def wired_def)

lemma readyz_after_start_aux:
  assumes "engine_reach cfg e" and "Run_start env newClient polls cu e = Some (Ret (None, e', acts))"
  shows "if \<forall>r \<in> set (flows cfg). \<exists>r' \<in> set (flows cfg). flowKey r' = flowKey r \<and> emits_syncs_cfg r'
    then readyz e' = (200, ''ok'')
    else \<forall>e'' :: 're Engine. engine_reach cfg e'' \<longrightarrow> readyz e'' = (503, ''not ready'')"
  (is "if ?all then _ else _")
proof (cases ?all)
  case True
  have inv: "engine_inv cfg e" "engine_inv cfg e'"
    using engine_reach_inv assms engine_run by blast+
  have "flow_ready e' i" if "i \<in> ran (last_flow (flows cfg))" for i
  proof -
    from that obtain k where k: "last_flow (flows cfg) k = Some i" by (auto simp: ran_def)
    then obtain r where r: "r \<in> set (flows cfg)" "last_flow (flows cfg) (flowKey r) = Some i"
      using nth_mem by (fastforce simp: last_flow_Some)
    with True obtain r' where "r' \<in> set (flows cfg)" "flowKey r' = flowKey r" "emits_syncs_cfg r'" by blast
    with Run_start_success [OF assms(2) inv(1)] r(2) show ?thesis by fastforce
  qed
  with True readyz_iff [OF inv(2)] show ?thesis by simp
next
  case False
  then obtain r where r: "r \<in> set (flows cfg)" "\<And>r'. r' \<in> set (flows cfg) \<Longrightarrow> flowKey r' = flowKey r \<Longrightarrow> \<not> emits_syncs_cfg r'"
    by blast
  have "readyz e'' = (503, ''not ready'')" if "engine_reach cfg e''" for e'' :: "'re Engine"
  proof -
    have inv: "engine_inv cfg e''" by (rule engine_reach_inv [OF that])
    obtain i where i: "last_flow (flows cfg) (flowKey r) = Some i"
      using r(1) last_flow_None [of "flows cfg" "flowKey r"] by fastforce
    have "\<not> served (flows cfg) i r'" for r'
      using r(2) [of r'] i by (auto simp: served_def last_flow_Some)
    then have "\<not> flow_ready e'' i" using unserved(1) [OF inv, of i] i by (auto simp: last_flow_Some)
    then show ?thesis using readyz_iff [OF inv] i by (metis ranI)
  qed
  with False show ?thesis by auto
qed

text \<open>
  C17. Readiness. After a start without error, \<open>/readyz\<close> answers 200 exactly when each flow key has a
  flow that emits offset syncs; if one has not, no reachable engine of that configuration, however
  long it runs, ever answers anything but 503.
\<close>

theorem readyz_after_start:
  assumes "engine_reach cfg e" and "Run_start env newClient polls cu e = Some (Ret (None, e', acts))"
  shows "if \<forall>r \<in> set (flows cfg). \<exists>r' \<in> set (flows cfg). flowKey r' = flowKey r \<and> emits_syncs_cfg r'
    then readyz e' = (200, ''ok'')
    else \<forall>e'' :: 're Engine. engine_reach cfg e'' \<longrightarrow> readyz e'' = (503, ''not ready'')"
  by (rule readyz_after_start_aux [OF assms])

text \<open>
  Each flow persists its own syncs. When the flow keys are distinct and a new engine started
  without error, the source of every flow that emits offset syncs has a writer, and it writes to that
  flow's own offset-syncs topic; the source of a flow that does not emit them has none.
\<close>

lemma writers_wired_to_own_flow:
  assumes "NewEngine compile env newClient cfg = Inr e" and "distinct (map flowKey (flows cfg))"
    and "Run_start env' newClient' polls cu e = Some (Ret (None, e', acts))" and "i < length (flows cfg)"
  shows "if emits_syncs_cfg (flows cfg ! i)
    then \<exists>w pol. src_syncWriter (e_sources e' ! i) = Some w \<and>
      NewPolicy (r_ReplicationPolicy (flows cfg ! i)) (r_Separator (flows cfg ! i)) = Inr pol \<and>
      sw_topic w = OffsetSyncsTopic pol (r_Source (flows cfg ! i))
    else src_syncWriter (e_sources e' ! i) = None"
proof -
  have inv: "engine_inv cfg e" "engine_inv cfg e'"
    using engine_reach_inv engine_run [OF engine_new [OF assms(1)] assms(3)] engine_new [OF assms(1)] by blast+
  have own: "r = flows cfg ! i" if "served (flows cfg) i r" for r
    using that assms(2) by (auto simp: served_def last_flow_Some distinct_map inj_on_def)
  have len: "i < length (e_sources e')" using wired_length [of "flows cfg" e'] inv(2) assms(4) by (simp add: engine_inv_def)
  show ?thesis
  proof (cases "emits_syncs_cfg (flows cfg ! i)")
    case True
    have "src_syncWriter (e_sources e' ! i) \<noteq> None"
      using Run_start_success [OF assms(3) inv(1)] last_flow_distinct [OF assms(2,4)] True assms(4) by (metis nth_mem option.inject)
    then obtain w where w: "src_syncWriter (e_sources e' ! i) = Some w" by blast
    then obtain r where "served (flows cfg) i r" "writes_for w r" using inv(2) len unfolding engine_inv_def by blast
    with own w True show ?thesis by (auto simp: writes_for_def)
  next
    case False
    then have "\<not> served (flows cfg) i r" for r using own [of r] by (auto simp: served_def)
    with unserved(2) [OF inv(2) assms(4)] False show ?thesis by simp
  qed
qed

text \<open>
  A flow that nobody serves. If a later flow has the same key, or no flow with its key emits
  offset syncs, then in every reachable engine the flow's source has no sync writer and its store is
  not ready, and its checkpoint emitter emits nothing, without an error.
\<close>

lemma unserved_flow_starves:
  assumes "engine_reach cfg e" and "i < length (flows cfg)"
    and "(\<exists>j < length (flows cfg). i < j \<and> flowKey (flows cfg ! j) = flowKey (flows cfg ! i)) \<or>
      (\<forall>r \<in> set (flows cfg). flowKey r = flowKey (flows cfg ! i) \<longrightarrow> \<not> emits_syncs_cfg r)"
  shows "src_syncWriter (e_sources e ! i) = None \<and> \<not> IsReady (e_stores e ! i) \<and>
    emitCheckpoints match (e_checkpoints e ! i) (e_stores e ! i) groups offsets = (None, [])"
proof -
  have "\<not> served (flows cfg) i r" for r
    using assms(3) by (auto simp: served_def last_flow_Some)
  from unserved [OF engine_reach_inv [OF assms(1)] assms(2) this] show ?thesis
    by (simp add: IsReady_def emitCheckpoints_def)
qed


text \<open>The example configuration builds, and its engine starts when every client can be created.\<close>

definition demo_engine :: "string Engine" where
  "demo_engine = projr (NewEngine literal_compile offline_env (\<lambda>_. None) demo_config)"

lemma demo_flows: "flows demo_config = [demo_flow]"
  by (simp add: flows_def demo_config_def demo_flow_def)

lemma demo_new: "NewEngine literal_compile offline_env (\<lambda>_. None) demo_config = Inr demo_engine"
proof -
  have "\<exists>e. NewEngine literal_compile offline_env (\<lambda>_. None) demo_config = Inr e"
    unfolding NewEngine_def
    by (subst add_flows_ok) (simp_all add: empty_engine_def demo_config_def demo_flow_def zero_replication_def flow_ok_def
      flow_builds_def valid_compressions_def literal_compile_def known_policy_def NewDLQ_def)
  then show ?thesis unfolding demo_engine_def by auto
qed

abbreviation empty_poll :: Poll where
  "empty_poll \<equiv> \<lparr>poll_ctx = None, poll_errors = [], poll_records = []\<rparr>"

definition idle_catchup :: catchup_env where
  "idle_catchup = \<lparr>cu_topics = Inr [], cu_partitions = (\<lambda>_. Inr []), cu_create = (\<lambda>_. Inr []), cu_committed = (\<lambda>_ _. Inr []),
     cu_ends = (\<lambda>_ _. Inr [])\<rparr>"

lemma demo_reachable: "\<forall>r \<in> set (flows demo_config). reachable_clusters offline_env demo_config r"
  by (simp add: demo_flows reachable_clusters_def cluster_def demo_config_def demo_flow_def zero_replication_def
    BuildClientOpts_def BuildTLSConfig_def BuildSASLOpt_def)

lemma demo_starts:
  "\<exists>e' acts. Run_start offline_env (\<lambda>_. None) (\<lambda>_. [empty_poll]) cu demo_engine = Some (Ret (None, e', acts))"
  using engine_starts_aux [OF demo_new demo_reachable, of "\<lambda>_. [empty_poll]" cu] by auto

theorem engine_invariant_witness:
  "map src_cfg (e_sources (Shutdown demo_engine)) = flows demo_config \<and>
   map_of (e_syncStores (Shutdown demo_engine)) ''east->west'' = Some 0"
  using engine_invariant [OF engine_shutdown [OF engine_new [OF demo_new]]]
  by (simp add: demo_flows last_flow_def flowKey_def) (simp add: demo_flow_def)

theorem readyz_after_start_witness:
  "\<exists>e' acts. Run_start offline_env (\<lambda>_. None) (\<lambda>_. [empty_poll]) (\<lambda>_. idle_catchup) demo_engine = Some (Ret (None, e', acts)) \<and>
     readyz e' = (200, ''ok'')"
proof -
  obtain e' acts where e': "Run_start offline_env (\<lambda>_. None) (\<lambda>_. [empty_poll]) (\<lambda>_. idle_catchup) demo_engine = Some (Ret (None, e', acts))"
    using demo_starts by blast
  from readyz_after_start [OF engine_new [OF demo_new] e'] e' show ?thesis
    by (simp add: demo_flows BoolDefault_def demo_flow_def zero_replication_def)
qed

lemma writers_wired_to_own_flow_example:
  "\<exists>e' acts w. Run_start offline_env (\<lambda>_. None) (\<lambda>_. [empty_poll]) (\<lambda>_. idle_catchup) demo_engine = Some (Ret (None, e', acts)) \<and>
     src_syncWriter (e_sources e' ! 0) = Some w \<and> sw_topic w = ''mm2-offset-syncs.east.internal''"
proof -
  obtain e' acts where e': "Run_start offline_env (\<lambda>_. None) (\<lambda>_. [empty_poll]) (\<lambda>_. idle_catchup) demo_engine = Some (Ret (None, e', acts))"
    using demo_starts by blast
  from writers_wired_to_own_flow [OF demo_new _ e', of 0] e' show ?thesis
    by (auto simp: demo_flows BoolDefault_def demo_flow_def zero_replication_def NewPolicy_def NewDefaultPolicy_def)
qed


text \<open>Two replications with the same clusters: \<open>Validate\<close> has no objection.\<close>

definition twin_config :: Config where
  "twin_config = demo_config\<lparr>c_Replications := [demo_flow, demo_flow]\<rparr>"

lemma twin_new: "\<exists>e. NewEngine literal_compile offline_env (\<lambda>_. None) twin_config = Inr e"
  unfolding NewEngine_def
  by (subst add_flows_ok) (simp_all add: empty_engine_def twin_config_def demo_config_def demo_flow_def zero_replication_def flow_ok_def
    flow_builds_def valid_compressions_def literal_compile_def known_policy_def NewDLQ_def)

lemma unserved_flow_starves_example:
  "\<exists>e. NewEngine literal_compile offline_env (\<lambda>_. None) twin_config = Inr e \<and> src_syncWriter (e_sources e ! 0) = None \<and>
     emitCheckpoints literal_match (e_checkpoints e ! 0) (e_stores e ! 0) (Inr [''g'']) (\<lambda>_. Inr []) = (None, [])"
proof -
  obtain e where e: "NewEngine literal_compile offline_env (\<lambda>_. None) twin_config = Inr e" using twin_new by blast
  have fl: "flows twin_config = [demo_flow, demo_flow]" by (simp add: flows_def twin_config_def) (simp add: demo_flow_def)
  have "\<exists>j < length (flows twin_config). 0 < j \<and> flowKey (flows twin_config ! j) = flowKey (flows twin_config ! 0)"
    by (rule exI [of _ 1]) (simp add: fl)
  with unserved_flow_starves [OF engine_new [OF e], of 0 literal_match "Inr [''g'']" "\<lambda>_. Inr []"] e show ?thesis
    by (simp add: fl)
qed

text \<open>
  C33. Which valid configurations build. For a configuration that \<open>Validate\<close> accepts, \<open>NewEngine\<close>
  succeeds exactly when, for each enabled replication, the group patterns compile, the policy name is
  known and the dead letter queue can be created: three things that \<open>Validate\<close> does not look at.
\<close>

theorem new_engine_accepts_iff:
  assumes "Validate compile cfg = None"
  shows "(\<exists>e. NewEngine compile env newClient cfg = Inr e) \<longleftrightarrow>
    (\<forall>r \<in> set (flows cfg).
       (\<forall>p \<in> set (gfc_Whitelist (r_GroupFilter r)) \<union> set (gfc_Blacklist (r_GroupFilter r)). \<exists>re. compile p = Inr re) \<and>
       r_ReplicationPolicy r \<in> {''default'', [], ''identity''} \<and>
       (\<exists>d. NewDLQ env newClient r (cluster cfg (r_Target r)) = Inr d))"
proof -
  have "check_replications compile (c_Clusters cfg) 0 (c_Replications cfg) = None"
    using assms by (auto simp: Validate_def or_else_def split: if_splits option.splits)
  then have ok: "\<forall>r \<in> set (c_Replications cfg). r_Enabled r \<longrightarrow> flow_ok compile (c_Clusters cfg) r"
    by (simp add: check_replications_None)
  show ?thesis
    using add_flows_ok [of "c_Replications cfg" compile "empty_engine cfg" env newClient] ok
    by (auto simp: NewEngine_def empty_engine_def flows_def flow_builds_def known_policy_def)
qed

theorem new_engine_accepts_iff_witness:
  "(\<exists>e. NewEngine literal_compile offline_env (\<lambda>_. None) demo_config = Inr e) \<and>
   \<not> (\<exists>e. NewEngine literal_compile offline_env (\<lambda>_. None)
        (demo_config\<lparr>c_Replications := [demo_flow\<lparr>r_ReplicationPolicy := ''mirror''\<rparr>]\<rparr>) = Inr e)"
proof -
  let ?c = "demo_config\<lparr>c_Replications := [demo_flow\<lparr>r_ReplicationPolicy := ''mirror''\<rparr>]\<rparr>"
  have v: "Validate literal_compile demo_config = None" "Validate literal_compile ?c = None"
    by (simp_all add: Validate_def or_else_def check_replication_def demo_config_def demo_flow_def zero_replication_def valid_compressions_def
      literal_compile_def)
  have "flows ?c = [demo_flow\<lparr>r_ReplicationPolicy := ''mirror''\<rparr>]" by (simp add: flows_def) (simp add: demo_flow_def)
  then show ?thesis
    unfolding new_engine_accepts_iff [OF v(1)] new_engine_accepts_iff [OF v(2)]
    by (simp add: demo_flows) (simp add: demo_flow_def zero_replication_def NewDLQ_def)
qed

text \<open>
  A failed start is not undone. When \<open>Run\<close> returns an error before it waits for a signal, the
  engine stays marked as running, whatever its components do, and every later \<open>Run\<close> is refused until
  \<open>Shutdown\<close> is called.
\<close>

lemma failed_start_stays_running:
  assumes "Run_start env newClient polls cu e = Some (Ret (Some err, e', acts))"
  shows "e_running e' \<and> Run_start env' newClient' polls' cu' e' = Some (Ret (Some (Errorf ''engine already running'' []), e', []))"
proof -
  have run: "e_running e'"
    using assms
  proof (cases rule: Run_start_cases)
    case (unloaded b e1)
    from bootstrap_running [OF this(4) [unfolded bootstrapOffsetSyncs_def]] show ?thesis by simp
  next
    case (started b e1)
    from bootstrap_running [OF this(2) [unfolded bootstrapOffsetSyncs_def]] phases_view [OF started(3)] show ?thesis by simp
  qed simp
  then show ?thesis by (simp add: Run_start_def)
qed

lemma failed_start_stays_running_example:
  "\<exists>err e'. Run_start offline_env (\<lambda>_. Some (Errorf ''no brokers'' [])) (\<lambda>_. []) (\<lambda>_. idle_catchup) demo_engine = Some (Ret (Some err, e', [])) \<and>
     e_running e' \<and> \<not> e_running (Shutdown e')"
proof -
  have cfg: "e_cfg demo_engine = demo_config" "\<not> e_running demo_engine" using NewEngine_wired [OF demo_new] by (simp_all add: fresh_def)
  have "\<exists>err e'. Run_start offline_env (\<lambda>_. Some (Errorf ''no brokers'' [])) (\<lambda>_. []) (\<lambda>_. idle_catchup) demo_engine = Some (Ret (Some err, e', []))"
    using cfg by (simp add: Run_start_def bootstrapOffsetSyncs_def demo_config_def demo_flow_def zero_replication_def BoolDefault_def
      bootstrap_flow_def NewPolicy_def NewClient_def cluster_def BuildClientOpts_def BuildTLSConfig_def BuildSASLOpt_def Let_def)
  then obtain err e' where e': "Run_start offline_env (\<lambda>_. Some (Errorf ''no brokers'' [])) (\<lambda>_. []) (\<lambda>_. idle_catchup) demo_engine = Some (Ret (Some err, e', []))"
    by blast
  from failed_start_stays_running [OF e'] e' show ?thesis by (auto simp: Shutdown_def)
qed

text \<open>
  \<open>Shutdown\<close> stops everything: no component runs afterwards, every writer and dead letter queue of
  the engine is closed, and a second call changes nothing.
\<close>

lemma shutdown_stops_all:
  "(\<forall>s \<in> set (e_sources (Shutdown e)). \<not> src_running s) \<and> (\<forall>h \<in> set (e_heartbeats (Shutdown e)). \<not> hbe_running h) \<and>
   (\<forall>c \<in> set (e_checkpoints (Shutdown e)). \<not> ckp_running c) \<and> (\<forall>d \<in> set (e_topicDiscoveries (Shutdown e)). \<not> disc_running d) \<and>
   (\<forall>w \<in> set (e_syncWriters (Shutdown e)). sw_closed w) \<and> (\<forall>d \<in> set (e_dlqs (Shutdown e)). dlq_closed d) \<and>
   \<not> e_running (Shutdown e) \<and> Shutdown (Shutdown e) = Shutdown e"
proof -
  have "SyncWriter_Close (SyncWriter_Close w) = SyncWriter_Close w \<and> sw_closed (SyncWriter_Close w)" for w
    by (simp add: SyncWriter_Close_def)
  moreover have "DLQ_Close (DLQ_Close d) = DLQ_Close d \<and> dlq_closed (DLQ_Close d)" for d by (simp add: DLQ_Close_def)
  ultimately show ?thesis by (simp add: Shutdown_def comp_def)
qed

text \<open>
  What \<open>Run\<close> leaves. If it returns without an error, it has shut down what the start and the
  components left, so nothing runs and a later \<open>Run\<close> is not refused; if it returns an error, the
  engine is the one the start left, which is still marked as running.
\<close>

lemma run_returns_stopped:
  assumes "Run env newClient polls cu work e = Some (Ret (err, e', acts))"
  shows "if err = None then \<exists>e1. Run_start env newClient polls cu e = Some (Ret (None, e1, acts)) \<and> e' = Shutdown (work e1) \<and> \<not> e_running e'
    else Run_start env newClient polls cu e = Some (Ret (err, e', acts)) \<and> e_running e'"
proof -
  have "\<not> e_running (Shutdown e1)" for e1 :: "'a Engine" by (simp add: Shutdown_def)
  moreover have "e_running e'" if "Run_start env newClient polls cu e = Some (Ret (Some x, e', acts))" for x
    using failed_start_stays_running that by blast
  ultimately show ?thesis using assms by (auto simp: Run_def split: option.splits outcome.splits prod.splits)
qed

text \<open>
  C20. What the catch-up copies. Each catch-up of the phase is of a topic the source listed, whose name
  does not begin with an underscore or a dot, and has at most one range per partition. If the end
  offsets the source reports are not negative, every range begins at a valid offset and holds more
  than 100000 offsets; and when the catch-up started without an error the segments of its fetchers
  hold every offset of the range exactly once, in order.
\<close>

theorem catch_up_ranges:
  assumes "RunCatchUp topic lags err plan \<in> set (catch_up_flow env newClient cu cfg r)" and "(part, a, b) \<in> set lags"
    and "\<forall>ends tp v. cu_ends cu topic part = Inr ends \<and> (tp, v) \<in> set ends \<longrightarrow> 0 \<le> sint v"
  shows "(\<exists>listing. cu_topics cu = Inr listing \<and> topic \<in> fst ` set listing) \<and> \<not> skipped_topic topic \<and> distinct (map fst lags) \<and>
    0 \<le> a \<and> 100000 < b - a \<and>
    (err = None \<longrightarrow> (\<exists>pl \<in> set plan. pl_partition pl = part \<and> concat (map (\<lambda>(i, s, e). [s..e - 1]) (pl_segments pl)) = [a..b - 1]))"
proof -
  let ?sc = "cluster cfg (r_Source r)" and ?tc = "cluster cfg (r_Target r)"
  obtain listing adm pol workers t where l: "cu_topics cu = Inr listing" "t \<in> fst ` set listing"
    "RunCatchUp topic lags err plan \<in> set (catch_up_topic env newClient cu r ?sc ?tc adm pol workers t)"
    using catch_up_flow_action [OF assms(1)] by blast
  obtain parts ps ps' where t: "topic = t" "\<not> skipped_topic topic"
    and lags: "lags = List.map_filter (partition_lag env newClient cu ?sc topic) (remdups parts)"
    and ps: "NewParallelSource env newClient r ?sc ?tc workers = Inr ps" "CatchUpMultiPartition env newClient lags topic ps = (err, ps', plan)"
    using catch_up_topic_action [OF l(3)] by blast
  obtain p where p: "partition_lag env newClient cu ?sc topic p = Some (part, a, b)"
    using assms(2) by (auto simp: lags map_filter_set)
  have part: "part = p" using partition_lag_part [OF p] by simp
  have range: "0 \<le> a \<and> 100000 < b - a" using partition_lag_Some [OF p] assms(3) part by blast
  have dist: "distinct (map fst lags)"
    using map_filter_keys [of "partition_lag env newClient cu ?sc topic" "remdups parts"] partition_lag_part unfolding lags by blast
  have "\<exists>pl \<in> set plan. pl_partition pl = part \<and> concat (map (\<lambda>(i, s, e). [s..e - 1]) (pl_segments pl)) = [a..b - 1]" if "err = None"
  proof -
    obtain pl where pl: "catchUpPartitionPipelined ps topic part a b = Some pl" "pl_partition pl = part"
      "pl_segments pl = plan_segments (ps_workers ps) a b"
      using range by (simp add: catchUpPartitionPipelined_def)
    have "plan = List.map_filter (\<lambda>(part, from, to). catchUpPartitionPipelined ps topic part from to) lags"
      using ps(2) that assms(2) by (auto simp: CatchUpMultiPartition_def split: if_splits sum.splits option.splits)
    then have "pl \<in> set plan" using assms(2) pl(1) by (auto simp: map_filter_set intro!: bexI [of _ "(part, a, b)"])
    moreover have "0 < ps_workers ps" using ps(1) by (auto simp: NewParallelSource_def split: sum.splits)
    ultimately show ?thesis using pl(2,3) plan_segments_cover by auto
  qed
  with l(1,2) t dist range show ?thesis by blast
qed

definition lagging :: catchup_env where
  "lagging = \<lparr>cu_topics = Inr [(''orders'', \<lparr>td_Topic = ''orders'', td_Partitions = [0]\<rparr>)],
     cu_partitions = (\<lambda>_. Inr [(''orders'', \<lparr>td_Topic = ''orders'', td_Partitions = [0]\<rparr>)]), cu_create = (\<lambda>_. Inr []),
     cu_committed = (\<lambda>_ _. Inr []), cu_ends = (\<lambda>t p. Inr [(\<lparr>tp_topic = t, tp_partition = p\<rparr>, 250000)])\<rparr>"

lemma lagging_catch_up:
  "\<exists>pl. pl_segments pl = plan_segments 2 0 250000 \<and> RunCatchUp ''orders'' [(0, 0, 250000)] None [pl]
     \<in> set (catch_up_flow offline_env (\<lambda>_. None) lagging demo_config demo_flow)"
proof -
  have ok: "\<exists>o1. BuildClientOpts offline_env (cluster demo_config (r_Source demo_flow)) = Inr o1"
    "\<exists>o2. BuildClientOpts offline_env (cluster demo_config (r_Target demo_flow)) = Inr o2"
    using demo_reachable by (simp_all add: demo_flows reachable_clusters_def)
  then obtain o1 o2 where o: "BuildClientOpts offline_env (cluster demo_config (r_Source demo_flow)) = Inr o1"
    "BuildClientOpts offline_env (cluster demo_config (r_Target demo_flow)) = Inr o2" by blast
  have fl: "r_ReplicationPolicy demo_flow = []" "r_WorkersPerPartition demo_flow = 0"
    by (simp_all add: demo_flow_def zero_replication_def)
  have lag: "high_lag 0 250000 = Some (0, 250000)"
    by (simp add: high_lag_def parallelThreshold_def word_sle_eq word_sless_alt)
  have part: "partition_lag offline_env (\<lambda>_. None) lagging (cluster demo_config (r_Source demo_flow)) ''orders'' 0 = Some (0, 0, 250000)"
    by (simp add: partition_lag_def GetPartitionLag_def o lagging_def last_match_def lag)
  obtain ps where ps: "NewParallelSource offline_env (\<lambda>_. None) demo_flow (cluster demo_config (r_Source demo_flow))
      (cluster demo_config (r_Target demo_flow)) 2 = Inr ps" "ps_workers ps = 2" "ps_tgtCfg ps = cluster demo_config (r_Target demo_flow)"
    by (simp add: NewParallelSource_def fl NewPolicy_def)
  obtain pl where pl: "catchUpPartitionPipelined ps ''orders'' 0 0 250000 = Some pl" "pl_segments pl = plan_segments 2 0 250000"
    by (simp add: catchUpPartitionPipelined_def ps(2))
  have run: "CatchUpMultiPartition offline_env (\<lambda>_. None) [(0, 0, 250000)] ''orders'' ps =
      (None, ps\<lparr>ps_totalBytes := 0, ps_totalRecords := 0\<rparr>, [pl])"
    by (simp add: CatchUpMultiPartition_def ps o List.map_filter_simps pl)
  have ls: "ListTopics (cu_topics lagging) = Inr [''orders'']" "ListTopicPartitions (cu_partitions lagging ''orders'') ''orders'' = Inr [0]"
    by (simp_all add: lagging_def ListTopics_def ListTopicPartitions_def)
  have clients: "NewClient offline_env (\<lambda>_. None) (cluster demo_config (r_Source demo_flow)) = None"
    "NewClient offline_env (\<lambda>_. None) (cluster demo_config (r_Target demo_flow)) = None"
    by (simp_all add: NewClient_def o)
  have "RunCatchUp ''orders'' [(0, 0, 250000)] None [pl]
      \<in> set (catch_up_topic offline_env (\<lambda>_. None) lagging demo_flow (cluster demo_config (r_Source demo_flow))
            (cluster demo_config (r_Target demo_flow)) adm pol 2 ''orders'')" for adm pol
    by (simp add: catch_up_topic_def clients skipped_topic_def ls List.map_filter_simps part ps(1) run)
  then show ?thesis by (intro exI [of _ pl]) (simp add: catch_up_flow_def clients ls fl pl(2))
qed

theorem catch_up_ranges_witness:
  "\<exists>pl. RunCatchUp ''orders'' [(0, 0, 250000)] None [pl] \<in> set (catch_up_flow offline_env (\<lambda>_. None) lagging demo_config demo_flow) \<and>
     concat (map (\<lambda>(i, s, e). [s..e - 1]) (pl_segments pl)) = [0..250000 - 1] \<and> \<not> skipped_topic ''orders''"
proof -
  obtain pl where pl: "RunCatchUp ''orders'' [(0, 0, 250000)] None [pl] \<in> set (catch_up_flow offline_env (\<lambda>_. None) lagging demo_config demo_flow)"
    using lagging_catch_up by blast
  have "\<forall>ends tp v. cu_ends lagging ''orders'' 0 = Inr ends \<and> (tp, v) \<in> set ends \<longrightarrow> 0 \<le> sint v"
    by (auto simp: lagging_def)
  from catch_up_ranges [OF pl _ this, of 0 250000] pl show ?thesis by auto
qed

text \<open>The requests of the catch-up do not depend on the topic filter of the flow.\<close>

lemma catch_up_flow_filter:
  "catch_up_flow env newClient cu cfg (r\<lparr>r_TopicFilter := f\<rparr>) = catch_up_flow env newClient cu cfg r"
proof -
  let ?r = "r\<lparr>r_TopicFilter := f\<rparr>"
  have dlq: "flow_dlq env newClient ?r tc = flow_dlq env newClient r tc" for tc
    by (simp add: flow_dlq_def NewDLQ_def split: sum.split option.split)
  have ret: "flow_retry_config ?r = flow_retry_config r" by (simp add: flow_retry_config_def)
  have new: "NewParallelSource env newClient ?r sc tc w = map_sum id (\<lambda>ps. ps\<lparr>ps_cfg := ?r\<rparr>) (NewParallelSource env newClient r sc tc w)"
    for sc tc w
    by (simp add: NewParallelSource_def dlq ret split: sum.split)
  have catch: "(case CatchUpMultiPartition env newClient lags topic (ps\<lparr>ps_cfg := ?r\<rparr>) of (err, _, plan) \<Rightarrow> [RunCatchUp topic lags err plan]) =
      (case CatchUpMultiPartition env newClient lags topic ps of (err, _, plan) \<Rightarrow> [RunCatchUp topic lags err plan])"
    if "ps_cfg ps = r" for lags ps topic
  proof -
    have "catchUpPartitionPipelined (ps\<lparr>ps_cfg := ?r\<rparr>) topic = catchUpPartitionPipelined ps topic"
      by (intro ext) (simp add: catchUpPartitionPipelined_def that)
    then show ?thesis by (simp add: CatchUpMultiPartition_def split: sum.split option.split)
  qed
  have own: "ps_cfg ps = r" if "NewParallelSource env newClient r sc tc w = Inr ps" for sc tc w ps
    using that by (auto simp: NewParallelSource_def split: sum.splits)
  have "catch_up_topic env newClient cu ?r sc tc adm pol w topic = catch_up_topic env newClient cu r sc tc adm pol w topic"
    for sc tc adm pol w topic
    by (cases "NewParallelSource env newClient r sc tc w"; cases pol) (simp_all add: catch_up_topic_def new catch own Let_def)
  then have "catch_up_topic env newClient cu ?r sc tc adm pol w = catch_up_topic env newClient cu r sc tc adm pol w" for sc tc adm pol w
    by (rule ext)
  then show ?thesis by (cases "ListTopics (cu_topics cu)") (simp_all add: catch_up_flow_def Let_def)
qed

text \<open>
  The catch-up does not know the topic filter. If the two clusters can be reached, every topic of the
  source whose name does not start with an underscore or a dot is created on the target, whatever the
  whitelist and the blacklist of the flow say and whatever its lag is: also one that discovery refuses.
\<close>

lemma catch_up_ignores_topic_filter:
  assumes "NewClient env newClient (cluster cfg (r_Source r)) = None" and "NewClient env newClient (cluster cfg (r_Target r)) = None"
    and "NewPolicy (r_ReplicationPolicy r) (r_Separator r) = Inr p"
    and "cu_topics cu = Inr listing" and "topic \<in> fst ` set listing" and "\<not> skipped_topic topic"
  shows "\<exists>acts n err. (\<forall>f. catch_up_flow env newClient cu cfg (r\<lparr>r_TopicFilter := f\<rparr>) = acts) \<and>
    RunCreateTopic (FormatRemoteTopic p (r_Source r) topic) n (r_ReplicationFactor r) err \<in> set acts"
proof -
  have created: "RunCreateTopic (FormatRemoteTopic p (r_Source r) topic) (of_nat (length parts)) (r_ReplicationFactor r)
      (CreateTopic (cu_create cu (FormatRemoteTopic p (r_Source r) topic)) (FormatRemoteTopic p (r_Source r) topic))
      \<in> set (catch_up_topic env newClient cu r (cluster cfg (r_Source r)) (cluster cfg (r_Target r)) True (Some p) w topic)"
    if "parts = (case ListTopicPartitions (cu_partitions cu topic) topic of Inl _ \<Rightarrow> [0] | Inr ps \<Rightarrow> ps)" for w parts
    unfolding catch_up_topic_def Let_def option.case that [symmetric]
    by (simp only: assms(1,6) if_False if_True simp_thms set_append list.set Un_iff insert_iff)
  moreover have "set (catch_up_flow env newClient cu cfg r) = (\<Union>t \<in> fst ` set listing.
      set (catch_up_topic env newClient cu r (cluster cfg (r_Source r)) (cluster cfg (r_Target r)) True (Some p)
        (if r_WorkersPerPartition r < 2 then 2 else r_WorkersPerPartition r) t))"
    using assms(1-4) by (simp add: catch_up_flow_def ListTopics_def Let_def)
  ultimately have "\<exists>n err. RunCreateTopic (FormatRemoteTopic p (r_Source r) topic) n (r_ReplicationFactor r) err
      \<in> set (catch_up_flow env newClient cu cfg r)"
    using assms(5) created [OF refl] by blast
  then show ?thesis using catch_up_flow_filter by blast
qed

lemma catch_up_ignores_topic_filter_example:
  "\<exists>n err. RunCreateTopic ''east.orders'' n (r_ReplicationFactor demo_flow) err
     \<in> set (catch_up_flow offline_env (\<lambda>_. None) lagging demo_config
         (demo_flow\<lparr>r_TopicFilter := \<lparr>tfc_Whitelist = [], tfc_Blacklist = [''orders'']\<rparr>\<rparr>))"
proof -
  have "\<exists>o'. BuildClientOpts offline_env (cluster demo_config (r_Source demo_flow)) = Inr o'"
    "\<exists>o'. BuildClientOpts offline_env (cluster demo_config (r_Target demo_flow)) = Inr o'"
    using demo_reachable by (simp_all add: demo_flows reachable_clusters_def)
  then have c: "NewClient offline_env (\<lambda>_. None) (cluster demo_config (r_Source demo_flow)) = None"
    "NewClient offline_env (\<lambda>_. None) (cluster demo_config (r_Target demo_flow)) = None"
    by (auto simp: NewClient_def)
  have p: "NewPolicy (r_ReplicationPolicy demo_flow) (r_Separator demo_flow) = Inr (DefaultPolicy ''.'')"
    by (simp add: demo_flow_def zero_replication_def NewPolicy_def NewDefaultPolicy_def)
  have l: "cu_topics lagging = Inr [(''orders'', \<lparr>td_Topic = ''orders'', td_Partitions = [0]\<rparr>)]" by (simp add: lagging_def)
  have "r_Source demo_flow = ''east''" by (simp add: demo_flow_def)
  with catch_up_ignores_topic_filter [OF c p l, of "''orders''"] obtain acts n err where
    "\<forall>f. catch_up_flow offline_env (\<lambda>_. None) lagging demo_config (demo_flow\<lparr>r_TopicFilter := f\<rparr>) = acts"
    "RunCreateTopic ''east.orders'' n (r_ReplicationFactor demo_flow) err \<in> set acts"
    by (simp add: skipped_topic_def) blast
  then show ?thesis by (intro exI [of _ n] exI [of _ err]) simp
qed

end
