(* ===== verification/Gomm2_Main.thy ===== *)
theory Gomm2_Main
  imports Engine_Run
begin

text \<open>
  \<open>cmd/gomm2/main.go\<close>: the command line. Reading the file, the environment, the YAML decoder, the
  regular expressions and the clusters are arguments; the result is the exit status with the text
  printed, or the engine that serves until a signal arrives.
\<close>

section \<open>Definitions\<close>

datatype 're process =
    Exit nat string
  | Crash string
  | Loading
  | Serving "'re Engine" "run_action list"

text \<open>The world of a process: what its libraries answer.\<close>

record 're world =
  w_readFile :: "string \<Rightarrow> go_error + string"
  w_getenv :: "string \<Rightarrow> string"
  w_unmarshal :: "string \<Rightarrow> go_error + Config"
  w_compile :: "string \<Rightarrow> go_error + 're"
  w_build :: build_env
  w_newClient :: "kgo_opt list \<Rightarrow> go_error option"
  w_polls :: "ReplicationConfig \<Rightarrow> Poll list"
  w_catchup :: "ReplicationConfig \<Rightarrow> catchup_env"

record Flags =
  fl_config :: string
  fl_version :: bool
  fl_args :: "string list"

abbreviation newline :: string where
  "newline \<equiv> [CHR 0x0A]"

definition runValidate :: "'re world \<Rightarrow> string \<Rightarrow> 're process" where
  "runValidate w configPath =
     (case Load (w_readFile w) (w_getenv w) (w_unmarshal w) configPath of
        Inl err \<Rightarrow> Exit 1 (''error: load config: '' @ err_text err @ newline)
      | Inr cfg \<Rightarrow>
          (case Validate (w_compile w) cfg of
             Some err \<Rightarrow> Exit 1 (''validation FAILED: '' @ err_text err @ newline)
           | None \<Rightarrow> Exit 0 (''configuration is valid'' @ newline)))"

definition main :: "string \<Rightarrow> 're world \<Rightarrow> Flags \<Rightarrow> 're process" where
  "main version w flags =
     (if fl_version flags then Exit 0 (''gomm2 version '' @ version @ newline)
      else if fl_args flags \<noteq> [] \<and> hd (fl_args flags) = ''validate'' then runValidate w (fl_config flags)
      else case Load (w_readFile w) (w_getenv w) (w_unmarshal w) (fl_config flags) of
        Inl err \<Rightarrow> Exit 1 (''error: load config: '' @ err_text err @ newline)
      | Inr cfg \<Rightarrow>
     (case Validate (w_compile w) cfg of
        Some err \<Rightarrow> Exit 1 (''error: invalid config: '' @ err_text err @ newline)
      | None \<Rightarrow>
     (case NewEngine (w_compile w) (w_build w) (w_newClient w) cfg of
        Inl err \<Rightarrow> Exit 1 (''error: create engine: '' @ err_text err @ newline)
      | Inr engine \<Rightarrow>
     (case Run_start (w_build w) (w_newClient w) (w_polls w) (w_catchup w) engine of
        None \<Rightarrow> Loading
      | Some (Panic m) \<Rightarrow> Crash m
      | Some (Fail err) \<Rightarrow> Exit 1 (''error: engine run: '' @ err_text err @ newline)
      | Some (Ret (Some err, _, _)) \<Rightarrow> Exit 1 (''error: engine run: '' @ err_text err @ newline)
      | Some (Ret (None, e, acts)) \<Rightarrow> Serving e acts))))"

section \<open>Properties\<close>

lemma Load_defaults: "Load rf ge um path = Inr cfg \<Longrightarrow> \<exists>raw. cfg = setDefaults raw"
  by (auto simp: Load_def Parse_def split: sum.splits)


definition demo_world :: "string world" where
  "demo_world = \<lparr>w_readFile = (\<lambda>_. Inr []), w_getenv = (\<lambda>_. []), w_unmarshal = (\<lambda>_. Inr demo_config), w_compile = literal_compile,
     w_build = offline_env, w_newClient = (\<lambda>_. None), w_polls = (\<lambda>_. [empty_poll]), w_catchup = (\<lambda>_. idle_catchup)\<rparr>"

lemma demo_loaded:
  "Load (w_readFile demo_world) (w_getenv demo_world) (w_unmarshal demo_world) path = Inr (setDefaults demo_config)"
  by (simp add: demo_world_def Load_def Parse_def)

lemma demo_default_config:
  "c_Clusters (setDefaults demo_config) = c_Clusters demo_config"
  "c_Replications (setDefaults demo_config) = [set_replication_defaults demo_flow]"
  by (simp_all add: setDefaults_def demo_config_def)

lemma demo_default_flow:
  "r_Enabled (set_replication_defaults demo_flow)" "r_Source (set_replication_defaults demo_flow) = ''east''"
  "r_Target (set_replication_defaults demo_flow) = ''west''" "\<not> r_ExactlyOnce (set_replication_defaults demo_flow)"
  "r_Compression (set_replication_defaults demo_flow) = ''lz4''" "r_ReplicationPolicy (set_replication_defaults demo_flow) = ''default''"
  "r_TopicFilter (set_replication_defaults demo_flow) = \<lparr>tfc_Whitelist = [''orders''], tfc_Blacklist = []\<rparr>"
  "r_GroupFilter (set_replication_defaults demo_flow) = \<lparr>gfc_Whitelist = [], gfc_Blacklist = []\<rparr>"
  "\<not> r_DLQEnabled (set_replication_defaults demo_flow)"
  by (simp_all add: set_replication_defaults_def demo_flow_def zero_replication_def dflt_str_def)

lemma demo_default_ok: "flow_ok literal_compile (c_Clusters demo_config) (set_replication_defaults demo_flow)"
  by (simp add: flow_ok_def demo_default_flow literal_compile_def valid_compressions_def) (simp add: demo_config_def)

lemma demo_serves: "\<exists>e acts. main ''dev'' demo_world \<lparr>fl_config = ''c.yaml'', fl_version = False, fl_args = []\<rparr> = Serving e acts"
proof -
  let ?c = "setDefaults demo_config"
  have fl: "flows ?c = [set_replication_defaults demo_flow]" by (simp add: flows_def demo_default_config demo_flow_def)
  have "check_replications literal_compile (c_Clusters demo_config) 0 [set_replication_defaults demo_flow] = None"
    unfolding check_replications_None using demo_default_ok by simp
  then have v: "Validate literal_compile ?c = None"
    by (simp add: Validate_def demo_default_config check_clusters_None or_else_def del: check_replications.simps)
      (simp add: demo_config_def)
  have "\<exists>e. NewEngine literal_compile offline_env (\<lambda>_. None) ?c = Inr e"
    unfolding NewEngine_def
    by (subst add_flows_ok) (simp_all add: demo_default_config empty_engine_def demo_default_ok [simplified] flow_builds_def demo_default_flow
      known_policy_def NewDLQ_def)
  then obtain e where e: "NewEngine literal_compile offline_env (\<lambda>_. None) ?c = Inr e" by blast
  have "\<forall>r \<in> set (flows ?c). reachable_clusters offline_env ?c r"
    using demo_reachable by (simp add: fl demo_flows reachable_clusters_def cluster_def demo_default_config demo_default_flow)
      (simp add: demo_flow_def)
  from engine_starts_aux [OF e this, of "\<lambda>_. [empty_poll]" "\<lambda>_. idle_catchup"] obtain e' acts where
    "Run_start offline_env (\<lambda>_. None) (\<lambda>_. [empty_poll]) (\<lambda>_. idle_catchup) e = Some (Ret (None, e', acts))" by auto
  then show ?thesis using v e by (simp add: main_def demo_loaded) (simp add: demo_world_def)
qed


end
