(* ===== verification/Flow_Translation.thy ===== *)
theory Flow_Translation
  imports Checkpoint_Emitter
begin

text \<open>
  The components of one flow together: the replicator tells the sync store where its records went, the
  sync writer persists some of the syncs, the follower of \<open>engine.go\<close> feeds them back into the same store,
  and the checkpoint emitter translates with it. The theory shows that no checkpoint of a flow, and no
  translation after a restart, skips a record that was delivered in order, and that a retry, which
  delivers out of order, can make one skip.
\<close>

section \<open>The flow as a step relation\<close>

text \<open>
  A flow takes the steps of its replicator; besides, its follower may read any record of the syncs topic at
  any time (\<open>Follow\<close> starts where the reader stopped, but a topic of another run may hold more).
\<close>

definition set_store :: "SyncStore \<Rightarrow> 're loop \<Rightarrow> 're loop" where
  "set_store st lp = lp\<lparr>lp_src := (lp_src lp)\<lparr>src_syncStore := Some st\<rparr>\<rparr>"

inductive flow_reach :: "'re Source \<Rightarrow> 're loop \<Rightarrow> bool" for s where
  flow_start: "flow_reach s (start_loop now mv s)"
| flow_loop: "flow_reach s lp \<Longrightarrow> loop_step lp lp' \<Longrightarrow> flow_reach s lp'"
| flow_follow: "flow_reach s lp \<Longrightarrow> src_syncStore (lp_src lp) = Some st \<Longrightarrow>
    set (poll_records p) \<subseteq> set (lp_persisted lp) \<Longrightarrow> Follow st [p] = Ret (stopped, st') \<Longrightarrow> flow_reach s (set_store st' lp)"

section \<open>The syncs of a flow are those of its deliveries\<close>

abbreviation tp_of :: "Record \<Rightarrow> TopicPartition" where
  "tp_of r \<equiv> \<lparr>tp_topic = rec_topic r, tp_partition = rec_partition r\<rparr>"

definition syncs_of :: "(Record \<times> int64) list \<Rightarrow> OffsetSync set" where
  "syncs_of ds = (\<lambda>(r, off). sync_of r off) ` set ds"

lemma syncs_of_append [simp]: "syncs_of (ds @ es) = syncs_of ds \<union> syncs_of es"
  by (auto simp: syncs_of_def)

text \<open>What a store retains; \<open>None\<close> is a flow without a store.\<close>

definition retained :: "SyncStore option \<Rightarrow> OffsetSync set" where
  "retained so = (case so of None \<Rightarrow> {} | Some st \<Rightarrow> (\<Union>tp. set (slots_of st tp)))"

definition store_fine :: "SyncStore option \<Rightarrow> bool" where
  "store_fine so \<longleftrightarrow> (case so of None \<Rightarrow> True | Some st \<Rightarrow> store_reach st)"

text \<open>The records that some writer makes of the syncs of a set.\<close>

definition sync_records :: "OffsetSync set \<Rightarrow> Record set" where
  "sync_records X = (\<Union>w. sync_record w ` X)"

lemma sync_records_mono: "X \<subseteq> Y \<Longrightarrow> sync_records X \<subseteq> sync_records Y"
  by (auto simp: sync_records_def)

definition flow_inv :: "'re Source \<Rightarrow> 're loop \<Rightarrow> bool" where
  "flow_inv s lp \<longleftrightarrow>
     src_syncWriter (lp_src lp) = src_syncWriter s \<and> store_fine (src_syncStore (lp_src lp)) \<and>
     retained (src_syncStore (lp_src lp)) \<subseteq> retained (src_syncStore s) \<union> syncs_of (lp_delivered lp) \<and>
     set (lp_writes lp) \<subseteq> syncs_of (lp_delivered lp) \<and>
     set (lp_persisted lp) \<subseteq> sync_records (syncs_of (lp_delivered lp))"

lemma handle_all_retained:
  assumes "store_reach st"
  shows "retained (Some (handle_all st xs)) \<subseteq> retained (Some st) \<union> set xs"
  using store.retained_history [OF store_reach_ok [OF assms], of xs]
  by (fastforce simp: retained_def handle_all_def)

lemma store_after_fine: "store_fine (src_syncStore s) \<Longrightarrow> store_fine (store_after s ds)"
  by (auto simp: store_after_def store_fine_def handle_all_reach split: option.splits)

lemma store_after_retained:
  assumes "store_fine (src_syncStore s)"
  shows "retained (store_after s ds) \<subseteq> retained (src_syncStore s) \<union> syncs_of ds"
proof (cases "src_syncStore s")
  case (Some st)
  then have "store_reach st" using assms by (simp add: store_fine_def)
  from handle_all_retained [OF this, of "map (\<lambda>(r, off). sync_of r off) ds"] show ?thesis
    using Some by (auto simp: store_after_def syncs_of_def)
qed (simp add: store_after_def retained_def)

text \<open>Steps that touch neither the store, nor the writer, nor the deliveries, nor the writes.\<close>

lemma flow_inv_frame:
  assumes "flow_inv s lp" "src_syncWriter (lp_src lp') = src_syncWriter (lp_src lp)"
    "src_syncStore (lp_src lp') = src_syncStore (lp_src lp)" "lp_delivered lp' = lp_delivered lp"
    "lp_writes lp' = lp_writes lp" "lp_persisted lp' = lp_persisted lp"
  shows "flow_inv s lp'"
  using assms by (simp add: flow_inv_def)

lemma flow_inv_settled:
  assumes "flow_inv s lp" "settled record lp lp'"
  shows "flow_inv s lp'"
proof -
  from assms(2) obtain mv rt wr rss pe df ff dl where
    lp': "lp' = lp\<lparr>lp_metrics := mv, lp_retried := rt, lp_writes := wr, lp_recordsSinceSync := rss,
                 lp_inflight := remove1 record (lp_inflight lp),
                 lp_src := (lp_src lp)\<lparr>src_syncStore := store_after (lp_src lp) df, src_produceErrors := pe\<rparr>,
                 lp_delivered := lp_delivered lp @ df, lp_failed := lp_failed lp @ ff, lp_deadLetters := lp_deadLetters lp @ dl\<rparr>"
    and wr: "wr = lp_writes lp \<or> (\<exists>off. df = [(record, off)] \<and> wr = lp_writes lp @ [sync_of record off])"
    unfolding settled_def by blast
  have fine: "store_fine (src_syncStore (lp_src lp))" using assms(1) by (simp add: flow_inv_def)
  have "set wr \<subseteq> syncs_of (lp_delivered lp @ df)" using wr assms(1) by (auto simp: flow_inv_def syncs_of_def)
  moreover have "sync_records (syncs_of (lp_delivered lp)) \<subseteq> sync_records (syncs_of (lp_delivered lp @ df))"
    by (intro sync_records_mono) simp
  ultimately show ?thesis
    using assms(1) store_after_fine [OF fine, of df] store_after_retained [OF fine, of df] by (auto simp: flow_inv_def lp')
qed

lemma flow_inv_loop:
  assumes "flow_inv s lp" "loop_step lp lp'"
  shows "flow_inv s lp'"
  using assms(2)
proof cases
  case (step_poll errs records)
  define lp1 where "lp1 = lp\<lparr>lp_metrics := foldl (\<lambda>mv _. inc (m_ConsumeErrors all_metrics) (flow_labels (lp_src lp)) mv) (lp_metrics lp) errs\<rparr>"
  from foldl_produce_async [of lp1 records] obtain rc bc where
    "foldl produce_async lp1 records = lp1\<lparr>lp_recCounts := rc, lp_byteCounts := bc, lp_inflight := lp_inflight lp1 @ records,
        lp_produced := lp_produced lp1 @ map (target_record (lp_src lp1)) records, lp_polled := lp_polled lp1 @ records\<rparr>" by blast
  then show ?thesis using step_poll
    by (intro flow_inv_frame [OF assms(1)]) (simp_all add: poll_batch_def lp1_def [symmetric] Let_def, simp_all add: lp1_def)
next
  case step_exit
  then show ?thesis by (intro flow_inv_frame [OF assms(1)]) (simp_all add: exit_loop_def split: outcome.splits)
next
  case (step_flush n now)
  then show ?thesis by (intro flow_inv_frame [OF assms(1)]) (simp_all add: flush_step_def split: outcome.splits)
next
  case (step_commit n now commitErr)
  then show ?thesis using commit_step_frame [OF step_commit(2)] by (auto intro: flow_inv_frame [OF assms(1)])
next
  case (step_callback "record" env res)
  then show ?thesis using flow_inv_settled [OF assms(1) produce_callback_settled] by blast
next
  case (step_callback_panic "record" env res m)
  then show ?thesis by (intro flow_inv_frame [OF assms(1)]) simp_all
next
  case (step_write os w produce err records kept)
  have "set records \<subseteq> {sync_record w os}"
    using step_write(5) by (auto simp: Write_def Let_def split: if_splits option.splits)
  moreover have "set (remove1 os (lp_writes lp)) \<subseteq> set (lp_writes lp)" by (rule set_remove1_subset)
  moreover have "sync_record w os \<in> sync_records (syncs_of (lp_delivered lp))"
    using assms(1) step_write(3) by (auto simp: flow_inv_def sync_records_def)
  ultimately show ?thesis using assms(1) step_write(1) by (auto simp: flow_inv_def)
qed

text \<open>The follower can only feed back what the writer persisted.\<close>

lemma decoded_persisted:
  assumes "set rs \<subseteq> sync_records X" and "\<forall>x \<in> X. length (tp_topic (os_tp x)) < 65534"
  shows "set (decoded rs) \<subseteq> X"
  using assms
proof (induction rs)
  case (Cons r rs)
  then obtain w x where "x \<in> X" "r = sync_record w x" by (auto simp: sync_records_def)
  with Cons show ?case by (simp add: Deserialize_sync_record)
qed simp

definition short_topics :: "(Record \<times> int64) list \<Rightarrow> bool" where
  "short_topics ds \<longleftrightarrow> (\<forall>(r, off) \<in> set ds. length (rec_topic r) < 65534)"

lemma short_syncs: "short_topics ds \<Longrightarrow> x \<in> syncs_of ds \<Longrightarrow> length (tp_topic (os_tp x)) < 65534"
  by (auto simp: short_topics_def syncs_of_def sync_of_def)

lemma flow_inv_follow:
  assumes "flow_inv s lp" "src_syncStore (lp_src lp) = Some st" "set (poll_records p) \<subseteq> set (lp_persisted lp)"
    "Follow st [p] = Ret (stopped, st')" "short_topics (lp_delivered lp)"
  shows "flow_inv s (set_store st' lp)"
proof -
  have st: "store_reach st" using assms(1,2) by (simp add: flow_inv_def store_fine_def)
  have "st' = st \<or> st' = handle_all st (decoded (poll_records p))"
    using assms(4) absorb_records_Ret by (auto split: if_splits outcome.splits)
  moreover have "set (decoded (poll_records p)) \<subseteq> syncs_of (lp_delivered lp)"
    using assms(1,3) short_syncs [OF assms(5)] by (intro decoded_persisted) (auto simp: flow_inv_def)
  ultimately have "store_reach st'" "retained (Some st') \<subseteq> retained (Some st) \<union> syncs_of (lp_delivered lp)"
    using st handle_all_retained [OF st, of "decoded (poll_records p)"] handle_all_reach [OF st] by auto
  then show ?thesis using assms(1,2) by (auto simp: flow_inv_def set_store_def store_fine_def)
qed

lemma loop_step_delivered:
  assumes "loop_step lp lp'"
  shows "set (lp_delivered lp) \<subseteq> set (lp_delivered lp')"
  using assms
proof cases
  case (step_poll errs records)
  define lp1 where "lp1 = lp\<lparr>lp_metrics := foldl (\<lambda>mv _. inc (m_ConsumeErrors all_metrics) (flow_labels (lp_src lp)) mv) (lp_metrics lp) errs\<rparr>"
  from foldl_produce_async [of lp1 records] step_poll show ?thesis
    by (auto simp: poll_batch_def lp1_def [symmetric] Let_def) (auto simp: lp1_def)
next
  case (step_callback "record" env res)
  then have "settled record lp lp'" by (intro produce_callback_settled)
  then show ?thesis by (auto simp: settled_def)
qed (auto simp: exit_loop_def flush_step_def split: outcome.splits dest!: commit_step_frame)

lemma flow_inv_reach: "flow_reach s lp \<Longrightarrow> store_fine (src_syncStore s) \<Longrightarrow> short_topics (lp_delivered lp) \<Longrightarrow> flow_inv s lp"
proof (induction rule: flow_reach.induct)
  case (flow_start now mv)
  then show ?case by (simp add: flow_inv_def start_loop_def)
next
  case (flow_loop lp lp')
  then have "short_topics (lp_delivered lp)" using loop_step_delivered by (fastforce simp: short_topics_def)
  with flow_loop show ?case using flow_inv_loop by blast
next
  case (flow_follow lp st p stopped st')
  then have "short_topics (lp_delivered lp)" by (simp add: set_store_def)
  with flow_follow show ?case using flow_inv_follow by blast
qed

section \<open>Deliveries in order\<close>

text \<open>
  The deliveries of a partition are in order: each source offset is at one target offset, and a later one
  at a later one. Kafka gives this to an idempotent producer as long as no record is produced again.
\<close>

definition delivered_in_order :: "TopicPartition \<Rightarrow> (Record \<times> int64) list \<Rightarrow> bool" where
  "delivered_in_order tp ds \<longleftrightarrow>
     (\<forall>(r, o1) \<in> set ds. tp_of r = tp \<longrightarrow> 0 \<le> sint o1 \<and> sint o1 < 2 ^ 63 - 1 \<and>
        (\<forall>(q, o2) \<in> set ds. tp_of q = tp \<longrightarrow>
           (sint (rec_offset r) < sint (rec_offset q) \<longrightarrow> sint o1 < sint o2) \<and>
           (sint (rec_offset r) = sint (rec_offset q) \<longrightarrow> o1 = o2)))"

lemma in_orderD:
  assumes "delivered_in_order tp ds" "(r, o1) \<in> set ds" "tp_of r = tp"
  shows "0 \<le> sint o1" "sint o1 < 2 ^ 63 - 1"
    "(q, o2) \<in> set ds \<Longrightarrow> tp_of q = tp \<Longrightarrow> sint (rec_offset r) < sint (rec_offset q) \<Longrightarrow> sint o1 < sint o2"
    "(q, o2) \<in> set ds \<Longrightarrow> tp_of q = tp \<Longrightarrow> sint (rec_offset r) = sint (rec_offset q) \<Longrightarrow> o1 = o2"
  using bspec [OF assms(1) [unfolded delivered_in_order_def] assms(2)] assms(3) by (auto simp del: TopicPartition.ext_inject)

lemma in_order_placed:
  assumes "delivered_in_order tp ds"
  shows "\<exists>R f. placed {x \<in> syncs_of ds. os_tp x = tp} R f \<and>
    (\<forall>(r, off) \<in> set ds. tp_of r = tp \<longrightarrow> sint (rec_offset r) \<in> R \<and> f (sint (rec_offset r)) = sint off)"
proof -
  define at where "at k d \<longleftrightarrow> (\<exists>r off. (r, off) \<in> set ds \<and> tp_of r = tp \<and> k = sint (rec_offset r) \<and> d = sint off)" for k d
  define R where "R = {k. \<exists>d. at k d}"
  define f where "f k = (SOME d. at k d)" for k
  have unique: "d = d'" if "at k d" "at k d'" for k d d' using that in_orderD(4) [OF assms] unfolding at_def by metis
  have f: "f k = d" if "at k d" for k d unfolding f_def using that unique by blast
  have mono: "d < d'" if "at k d" "at k' d'" "k < k'" for k k' d d' using that in_orderD(3) [OF assms] unfolding at_def by metis
  have range: "0 \<le> d \<and> d < 2 ^ 63 - 1" if "at k d" for k d using that in_orderD(1,2) [OF assms] unfolding at_def by metis
  have at: "at (sint (rec_offset r)) (sint off)" if "(r, off) \<in> set ds" "tp_of r = tp" for r off
    using that by (auto simp: at_def)
  have sync: "at (up x) (down x)" if "x \<in> syncs_of ds" "os_tp x = tp" for x
  proof -
    from that(1) obtain r off where x: "(r, off) \<in> set ds" "x = sync_of r off" by (auto simp: syncs_of_def)
    with that(2) at [OF x(1)] show ?thesis by (simp add: sync_of_def)
  qed
  have "strict_mono_on R f" using f mono by (fastforce simp: strict_mono_on_def R_def)
  moreover have "\<forall>k \<in> R. 0 \<le> f k \<and> f k < 2 ^ 63 - 1" using f range by (auto simp: R_def)
  moreover have "up x \<in> R \<and> down x = f (up x)" if "x \<in> syncs_of ds" "os_tp x = tp" for x
    using sync [OF that] f by (auto simp: R_def)
  ultimately have "placed {x \<in> syncs_of ds. os_tp x = tp} R f" by (simp add: placed_def)
  moreover have "\<forall>(r, off) \<in> set ds. tp_of r = tp \<longrightarrow> sint (rec_offset r) \<in> R \<and> f (sint (rec_offset r)) = sint off"
    using at f by (auto simp: R_def)
  ultimately show ?thesis by blast
qed

lemma placed_subset: "placed S R f \<Longrightarrow> S' \<subseteq> S \<Longrightarrow> placed S' R f"
  by (auto simp: placed_def)

lemma slots_tp: "store_reach st \<Longrightarrow> x \<in> set (slots_of st tp) \<Longrightarrow> os_tp x = tp"
  using store_okD(2) [OF store_reach_ok, of st tp] by (cases "ss_syncs st tp") (auto simp: slots_of_def)

text \<open>A store whose syncs are deliveries translates to a point before every later delivery.\<close>

lemma truthful_translation:
  assumes "store_reach st" and "retained (Some st) \<subseteq> syncs_of ds" and "delivered_in_order tp ds"
    and "TranslateDownstream st tp off = (d, True)" and "(r, o') \<in> set ds" and "tp_of r = tp" and "sint off \<le> sint (rec_offset r)"
  shows "sint d \<le> sint o'"
proof -
  obtain R f where f: "placed {x \<in> syncs_of ds. os_tp x = tp} R f" "sint (rec_offset r) \<in> R" "f (sint (rec_offset r)) = sint o'"
    using in_order_placed [OF assms(3)] assms(5,6) by blast
  have "set (slots_of st tp) \<subseteq> {x \<in> syncs_of ds. os_tp x = tp}"
    using assms(2) slots_tp [OF assms(1)] by (auto simp: retained_def)
  from store.translate_skips_nothing [OF store_reach_ok [OF assms(1)] assms(4) placed_subset [OF f(1) this] f(2) assms(7)]
  show ?thesis by (simp add: f(3))
qed

section \<open>Properties\<close>

text \<open>
  C2. No checkpoint of a flow skips a record. Run a flow that starts with an empty store through any interleaving
  of its replicator, its sync writers and its follower, and emit checkpoints with the store it has then. If
  the records of a partition were delivered in order, every checkpoint of that partition points at or before
  the target offset of every delivered record that the group has not read.
\<close>

theorem flow_checkpoints_never_skip:
  assumes "flow_reach s lp" and "src_syncStore s = Some st0" and "store_reach st0" and "retained (Some st0) = {}"
    and "short_topics (lp_delivered lp)" and "src_syncStore (lp_src lp) = Some st"
    and "emitCheckpoints match c st (Inr groups) fetchOffsets = (err, records)" and "x \<in> set records"
  shows "\<exists>cp. x = checkpoint_record c cp \<and> 0 \<le> sint (cp_downstream cp) \<and>
    (delivered_in_order (cp_tp cp) (lp_delivered lp) \<longrightarrow>
       (\<forall>(r, off) \<in> set (lp_delivered lp). tp_of r = cp_tp cp \<and> sint (cp_upstream cp) \<le> sint (rec_offset r) \<longrightarrow>
          sint (cp_downstream cp) \<le> sint off))"
  using assms(7,8)
proof (cases rule: emitted_checkpoint)
  case (1 cp offsets o')
  have "flow_inv s lp" using flow_inv_reach [OF assms(1)] assms(2,3,5) by (simp add: store_fine_def)
  then have st: "store_reach st" "retained (Some st) \<subseteq> syncs_of (lp_delivered lp)"
    using assms(2,4,6) by (simp_all add: flow_inv_def store_fine_def)
  from truthful_translation [OF st _ 1(10)] 1(1,9) show ?thesis by blast
qed


text \<open>
  C39. A retry can make translation skip a record. Take any running flow with a ready, empty store that is polled
  two records of a partition, the first of which fails and is retried while the second is delivered: the first
  then lands behind the second, its sync is older than the newest and wipes the store down to itself, and a
  consumer that has not read the second record is sent past it.
\<close>

theorem retry_makes_translation_skip:
  assumes "src_syncStore s = Some st0" and "ss_readToEnd st0" and "ss_syncs st0 (tp_of r1) = None"
    and "BoolDefault (r_EmitOffsetSyncs (src_cfg s)) True" and "0 \<le> rc_MaxRetries (src_retryCfg s)"
    and "src_syncWriter s = None \<or> r_OffsetSyncInterval (src_cfg s) \<noteq> 0"
    and "tp_of r2 = tp_of r1" and "sint (rec_offset r1) < sint (rec_offset r2)" and "0 \<le> sint d" and "sint d < 2 ^ 62"
  shows "\<exists>lp st e. loop_reach s lp \<and> lp_delivered lp = [(r2, d), (r1, d + 1)] \<and> src_syncStore (lp_src lp) = Some st \<and>
    TranslateDownstream st (tp_of r1) (rec_offset r2) = (e, True) \<and> sint d < sint e"
proof -
  let ?l0 = "start_loop 0 (\<lambda>_. 0) s"
  define l1 where "l1 = poll_batch [] [r1, r2] ?l0"
  have l1: "loop_reach s l1" unfolding l1_def
    by (rule reach_step [OF reach_start [of s 0 "\<lambda>_. 0"]], rule step_poll) (simp add: start_loop_def)
  have v1: "lp_src l1 = s" "lp_inflight l1 = [r1, r2]" "lp_delivered l1 = []" "lp_pc l1 = AtFlush 2"
    by (simp_all add: l1_def poll_batch_def produce_async_def start_loop_def Let_def)
  obtain l2 where cb: "produce_callback undefined (Inr d) r2 l1 = Ret l2"
    and v2: "lp_src l2 = s\<lparr>src_syncStore := store_after s [(r2, d)]\<rparr>" "lp_inflight l2 = remove1 r2 [r1, r2]"
      "lp_delivered l2 = [(r2, d)]" "lp_pc l2 = AtFlush 2"
    using callback_delivers [of l1 undefined d r2] assms(6) v1 by auto
  have "r1 \<noteq> r2" using assms(8) by auto
  then have in2: "r1 \<in> set (lp_inflight l2)" by (simp add: v2)
  have l2: "loop_reach s l2" using v1 by (intro reach_step [OF l1 step_callback [OF _ _ cb]]) simp_all
  obtain env l3 where cb3: "produce_callback env (Inl Canceled) r1 l2 = Ret l3"
    and v3: "lp_src l3 = (lp_src l2)\<lparr>src_syncStore := store_after (lp_src l2) [(r1, d + 1)]\<rparr>"
      "lp_delivered l3 = [(r2, d), (r1, d + 1)]"
    using callback_retries [of l2 Canceled r1 "d + 1"] assms(5) v2 by auto
  have l3: "loop_reach s l3" using v2(4) in2 by (intro reach_step [OF l2 step_callback [OF _ _ cb3]]) simp_all
  let ?st = "HandleSync (HandleSync st0 (sync_of r2 d)) (sync_of r1 (d + 1))"
  have st: "src_syncStore (lp_src l3) = Some ?st"
    using assms(1,4) by (simp add: v3 v2 store_after_def emits_syncs_def)
  have "ss_syncs (HandleSync st0 (sync_of r2 d)) (tp_of r1) = Some (fill_slots (sync_of r2 d))"
    using assms(3,7) by (simp add: HandleSync_def sync_of_def Let_def)
  then have slots: "ss_syncs ?st (tp_of r1) = Some (fill_slots (sync_of r1 (d + 1)))"
    using assms(8) HandleSync_rewind [of "HandleSync st0 (sync_of r2 d)" "sync_of r1 (d + 1)" "fill_slots (sync_of r2 d)"]
    by (simp add: sync_of_def fill_slots_def)
  have ready: "ss_readToEnd ?st" using assms(2) by simp
  have "TranslateDownstream ?st (tp_of r1) (rec_offset r2) = (d + 1 + 1, True)"
    using assms(8) slots ready
    by (simp add: TranslateDownstream_True fill_slots_def numeral_eq_Suc sync_of_def word_sle_eq word_sless_alt)
  moreover have "sint (d + 1 + 1) = sint d + 2" using assms(9,10) by (simp add: sint_add64)
  ultimately show ?thesis using l3 v3(2) st by (intro exI [of _ l3] exI [of _ ?st] exI [of _ "d + 1 + 1"]) simp
qed

section \<open>An example run\<close>

text \<open>One record is polled, delivered at offset 7, and its sync written and acknowledged.\<close>

definition demo_writer :: SyncWriter where
  "demo_writer = \<lparr>sw_topic = ''syncs'', sw_closed = False\<rparr>"

definition demo_flow_source :: "string Source" where
  "demo_flow_source = demo_source\<lparr>src_cfg := demo_flow\<lparr>r_OffsetSyncInterval := 1\<rparr>,
     src_syncStore := Some (MarkReadToEnd NewSyncStore), src_syncWriter := Some demo_writer\<rparr>"

definition demo_sync :: OffsetSync where
  "demo_sync = sync_of (demo_record 5) 7"

lemma demo_flow_run:
  "\<exists>lp. flow_reach demo_flow_source lp \<and> lp_delivered lp = [(demo_record 5, 7)] \<and> lp_persisted lp = [sync_record demo_writer demo_sync] \<and>
    src_syncStore (lp_src lp) = Some (HandleSync (MarkReadToEnd NewSyncStore) demo_sync)"
proof -
  let ?s = demo_flow_source
  define l1 where "l1 = poll_batch [] [demo_record 5] (start_loop 0 (\<lambda>_. 0) ?s)"
  have l1: "flow_reach ?s l1" unfolding l1_def
    by (rule flow_loop [OF flow_start [of ?s 0 "\<lambda>_. 0"]], rule step_poll) (simp add: start_loop_def)
  have v1: "lp_src l1 = ?s" "lp_inflight l1 = [demo_record 5]" "lp_delivered l1 = []" "lp_pc l1 = AtFlush 1" "lp_writes l1 = []"
    "lp_persisted l1 = []" "lp_recordsSinceSync l1 = 0"
    by (simp_all add: l1_def poll_batch_def produce_async_def start_loop_def Let_def)
  define l2 where "l2 = l1\<lparr>lp_inflight := [], lp_delivered := [(demo_record 5, 7)], lp_recordsSinceSync := 1, lp_writes := [demo_sync],
    lp_src := ?s\<lparr>src_syncStore := Some (HandleSync (MarkReadToEnd NewSyncStore) demo_sync)\<rparr>\<rparr>"
  have cb: "produce_callback undefined (Inr 7) (demo_record 5) l1 = Ret l2"
    by (simp add: produce_callback_def on_delivered_def emits_syncs_def store_sync_def v1 l2_def demo_flow_source_def demo_source_def
      demo_flow_def zero_replication_def BoolDefault_def demo_sync_def Let_def go_rem_def)
  have l2: "flow_reach ?s l2" by (rule flow_loop [OF l1 step_callback [OF _ _ cb]]) (simp_all add: v1)
  have w: "Write (\<lambda>_. None) demo_writer demo_sync = (None, [sync_record demo_writer demo_sync])"
    by (simp add: Write_def demo_writer_def)
  have "flow_reach ?s (l2\<lparr>lp_writes := remove1 demo_sync (lp_writes l2),
      lp_persisted := lp_persisted l2 @ (if True then [sync_record demo_writer demo_sync] else [])\<rparr>)" (is "flow_reach _ ?l3")
    by (rule flow_loop [OF l2 step_write [OF _ _ _ w]]) (simp_all add: l2_def v1 demo_flow_source_def)
  then show ?thesis by (rule exI [of _ ?l3, OF conjI]) (simp add: l2_def v1)
qed

lemma demo_flow_facts:
  "src_syncStore demo_flow_source = Some (MarkReadToEnd NewSyncStore)" "store_reach (MarkReadToEnd NewSyncStore)"
  "retained (Some (MarkReadToEnd NewSyncStore)) = {}" "short_topics [(demo_record 5, 7)]"
  "tp_of (demo_record 5) = \<lparr>tp_topic = ''orders'', tp_partition = 0\<rparr>" "rec_offset (demo_record 5) = 5"
  "delivered_in_order tp [(demo_record 5, 7)]"
  by (simp_all add: demo_flow_source_def retained_def slots_of_def NewSyncStore_def short_topics_def demo_record_def zero_record_def
    delivered_in_order_def store_new [unfolded NewSyncStore_def] store_mark)

lemma demo_sync_slots: "ss_syncs (HandleSync (MarkReadToEnd NewSyncStore) demo_sync) \<lparr>tp_topic = ''orders'', tp_partition = 0\<rparr> = Some (fill_slots demo_sync)"
  by (simp add: HandleSync_def NewSyncStore_def demo_sync_def sync_of_def demo_record_def zero_record_def)

lemma demo_flow_emission:
  "emitCheckpoints (\<lambda>_ _. False) demo_emitter (HandleSync (MarkReadToEnd NewSyncStore) demo_sync) (Inr [''g''])
     (\<lambda>_. Inr [\<lparr>or_tp = \<lparr>tp_topic = ''orders'', tp_partition = 0\<rparr>, or_At = 5\<rparr>])
   = (None, [checkpoint_record demo_emitter \<lparr>cp_group = ''g'', cp_tp = \<lparr>tp_topic = ''orders'', tp_partition = 0\<rparr>,
        cp_upstream = 5, cp_downstream = 7, cp_metadata = []\<rparr>])"
proof -
  have "TranslateDownstream (HandleSync (MarkReadToEnd NewSyncStore) demo_sync) \<lparr>tp_topic = ''orders'', tp_partition = 0\<rparr> 5 = (7, True)"
    unfolding TranslateDownstream_True demo_sync_slots
    by (simp add: fill_slots_def numeral_eq_Suc demo_sync_def sync_of_def demo_record_def zero_record_def word_sle_eq word_sless_alt)
  then have "checkpoint_of (\<lambda>_ _. False) demo_emitter (HandleSync (MarkReadToEnd NewSyncStore) demo_sync) ''g''
      \<lparr>or_tp = \<lparr>tp_topic = ''orders'', tp_partition = 0\<rparr>, or_At = 5\<rparr>
     = Some \<lparr>cp_group = ''g'', cp_tp = \<lparr>tp_topic = ''orders'', tp_partition = 0\<rparr>, cp_upstream = 5, cp_downstream = 7, cp_metadata = []\<rparr>"
    by (simp add: checkpoint_of_Some demo_emitter_def TopicFilter_ShouldReplicate_def HasPrefix_def)
  then show ?thesis
    by (simp add: emitCheckpoints_def IsReady_def group_checkpoints_def List.map_filter_def demo_emitter_def GroupFilter_ShouldReplicate_def)
qed

theorem flow_checkpoints_never_skip_witness:
  "\<exists>cp. checkpoint_record demo_emitter \<lparr>cp_group = ''g'', cp_tp = \<lparr>tp_topic = ''orders'', tp_partition = 0\<rparr>,
        cp_upstream = 5, cp_downstream = 7, cp_metadata = []\<rparr> = checkpoint_record demo_emitter cp \<and> 0 \<le> sint (cp_downstream cp)"
proof -
  obtain lp where lp: "flow_reach demo_flow_source lp" "lp_delivered lp = [(demo_record 5, 7)]"
    "src_syncStore (lp_src lp) = Some (HandleSync (MarkReadToEnd NewSyncStore) demo_sync)" using demo_flow_run by blast
  from flow_checkpoints_never_skip [OF lp(1) demo_flow_facts(1-3) _ lp(3) demo_flow_emission] lp(2) demo_flow_facts(4)
  show ?thesis by auto
qed


theorem retry_makes_translation_skip_witness:
  "\<exists>lp st e. loop_reach demo_flow_source lp \<and> lp_delivered lp = [(demo_record 6, 7), (demo_record 5, 7 + 1)] \<and>
     src_syncStore (lp_src lp) = Some st \<and> TranslateDownstream st (tp_of (demo_record 5)) (rec_offset (demo_record 6)) = (e, True) \<and>
     sint (7 :: int64) < sint e"
  by (rule retry_makes_translation_skip [OF demo_flow_facts(1)])
    (simp_all add: NewSyncStore_def demo_flow_source_def demo_source_def demo_flow_def zero_replication_def BoolDefault_def
      demo_record_def zero_record_def demo_writer_def)

end
