(* ===== verification/Source_Restarts.thy ===== *)
theory Source_Restarts
  imports Source_Replicator
begin

text \<open>
  The source replicator over many runs of the process (\<open>internal/mirror/source.go\<close>). A run begins at the
  positions that the consumer group has committed and ends anywhere: the process can crash in every state of the
  replication loop, or \<open>Stop\<close> ends it in order. What the group library does is documented behaviour of Kafka:
  a consumer without a committed offset begins at the start of the partition (\<open>ConsumeResetOffset\<close> of
  the source), it is handed the records of a partition in order and without gaps, and a commit covers what it was
  handed (one that is not acknowledged is taken as not made). The theory shows that the committed positions never pass a record that was neither delivered
  nor given up, and that only records that were not committed are copied again.
\<close>

section \<open>Runs\<close>

text \<open>
  What is known outside of the process: the committed position of each partition (an index into its log), how many
  records have been handed out in vain, and the records that ended on the target or were given up.
\<close>

record group_state =
  gs_pos :: "TopicPartition \<Rightarrow> nat"
  gs_again :: "TopicPartition \<Rightarrow> nat"
  gs_delivered :: "Record list"
  gs_failed :: "Record list"

definition new_group :: group_state where
  "new_group = \<lparr>gs_pos = \<lambda>_. 0, gs_again = \<lambda>_. 0, gs_delivered = [], gs_failed = []\<rparr>"

definition of_partition :: "TopicPartition \<Rightarrow> Record list \<Rightarrow> Record list" where
  "of_partition tp = filter (\<lambda>r. rec_topic r = tp_topic tp \<and> rec_partition r = tp_partition tp)"

definition group_hands_out :: "(TopicPartition \<Rightarrow> Record list) \<Rightarrow> group_state \<Rightarrow> Record list \<Rightarrow> bool" where
  "group_hands_out log g polled \<longleftrightarrow> (\<forall>tp. \<exists>k. of_partition tp polled = take k (drop (gs_pos g tp) (log tp)))"

text \<open>The end of a run that committed the offsets of \<open>committed\<close>.\<close>

definition end_run :: "Record list \<Rightarrow> 're loop \<Rightarrow> group_state \<Rightarrow> group_state" where
  "end_run committed lp g =
     g\<lparr>gs_pos := \<lambda>tp. gs_pos g tp + length (of_partition tp committed),
       gs_again := \<lambda>tp. gs_again g tp + (length (of_partition tp (lp_polled lp)) - length (of_partition tp committed)),
       gs_delivered := gs_delivered g @ map fst (lp_delivered lp),
       gs_failed := gs_failed g @ lp_failed lp\<rparr>"

text \<open>The offsets that a crash leaves committed, and those after \<open>Stop\<close>, whose final commit may fail.\<close>

definition loop_commits :: "'re loop \<Rightarrow> Record list" where
  "loop_commits lp = take (lp_committed lp) (lp_polled lp)"

definition stop_commits :: "go_error option \<Rightarrow> 're loop \<Rightarrow> Record list" where
  "stop_commits commitErr lp = (if snd (Stop (lp_src lp)) \<and> commitErr = None then lp_polled lp else loop_commits lp)"

text \<open>The histories; each run has a source of its own, one of \<open>sources\<close>.\<close>

inductive service :: "'re Source set \<Rightarrow> (TopicPartition \<Rightarrow> Record list) \<Rightarrow> group_state \<Rightarrow> bool" for sources log where
  service_new: "service sources log new_group"
| service_crash: "service sources log g \<Longrightarrow> s \<in> sources \<Longrightarrow> loop_reach s lp \<Longrightarrow> group_hands_out log g (lp_polled lp) \<Longrightarrow>
    service sources log (end_run (loop_commits lp) lp g)"
| service_stop: "service sources log g \<Longrightarrow> s \<in> sources \<Longrightarrow> loop_reach s lp \<Longrightarrow> group_hands_out log g (lp_polled lp) \<Longrightarrow>
    lp_pc lp = Exited \<Longrightarrow> lp_inflight lp = [] \<Longrightarrow> service sources log (end_run (stop_commits commitErr lp) lp g)"

section \<open>Lemmas\<close>

lemma of_partition_append [simp]: "of_partition tp (xs @ ys) = of_partition tp xs @ of_partition tp ys"
  by (simp add: of_partition_def)

lemma set_of_partition: "set (of_partition tp xs) \<subseteq> set xs"
  by (auto simp: of_partition_def)

lemma length_of_partition_mset: "mset xs = mset ys \<Longrightarrow> length (of_partition tp xs) = length (of_partition tp ys)"
  by (metis mset_filter of_partition_def size_mset)

text \<open>What a run commits is a part of what it polled, and all of it was delivered or given up.\<close>

definition commits_handled :: "Record list \<Rightarrow> 're loop \<Rightarrow> bool" where
  "commits_handled committed lp \<longleftrightarrow> (\<exists>rest. lp_polled lp = committed @ rest) \<and>
     set committed \<subseteq> set (map fst (lp_delivered lp)) \<union> set (lp_failed lp)"

lemma loop_commits_handled: "loop_reach s lp \<Longrightarrow> commits_handled (loop_commits lp) lp"
  using loop_inv_reach [of s lp]
  by (auto simp: commits_handled_def loop_commits_def loop_inv_def handled_def
      intro: exI [of _ "drop (lp_committed lp) (lp_polled lp)"])

lemma stop_commits_handled:
  assumes "loop_reach s lp" "lp_inflight lp = []"
  shows "commits_handled (stop_commits commitErr lp) lp"
proof -
  have "mset (lp_polled lp) = mset (map fst (lp_delivered lp) @ lp_failed lp)"
    using loop_inv_reach [OF assms(1)] assms(2) by (simp add: loop_inv_def)
  then have "set (lp_polled lp) = set (map fst (lp_delivered lp)) \<union> set (lp_failed lp)" by (metis mset_eq_setD set_append)
  then show ?thesis
    using loop_commits_handled [OF assms(1)] by (auto simp: stop_commits_def commits_handled_def)
qed

text \<open>A run hands out a piece of the log behind the committed position, so the positions stay in the log.\<close>

lemma run_advances:
  assumes "group_hands_out log g (committed @ rest)" "gs_pos g tp \<le> length (log tp)"
  shows "gs_pos g tp + length (of_partition tp committed) \<le> length (log tp)"
    and "take (gs_pos g tp + length (of_partition tp committed)) (log tp) = take (gs_pos g tp) (log tp) @ of_partition tp committed"
proof -
  obtain k where k: "of_partition tp committed @ of_partition tp rest = take k (drop (gs_pos g tp) (log tp))"
    using assms(1) by (auto simp: group_hands_out_def)
  let ?n = "length (of_partition tp committed)"
  have "?n \<le> length (drop (gs_pos g tp) (log tp))"
    using arg_cong [OF k, of length] by simp
  then show "gs_pos g tp + ?n \<le> length (log tp)" using assms(2) by simp
  have "?n \<le> k" using arg_cong [OF k, of length] by simp
  then have "of_partition tp committed = take ?n (drop (gs_pos g tp) (log tp))"
    using arg_cong [OF k, of "take ?n"] by (simp add: min_absorb1)
  then show "take (gs_pos g tp + ?n) (log tp) = take (gs_pos g tp) (log tp) @ of_partition tp committed"
    by (simp add: take_add)
qed

definition group_inv :: "(TopicPartition \<Rightarrow> Record list) \<Rightarrow> group_state \<Rightarrow> bool" where
  "group_inv log g \<longleftrightarrow> (\<forall>tp. gs_pos g tp \<le> length (log tp) \<and>
     set (take (gs_pos g tp) (log tp)) \<subseteq> set (gs_delivered g) \<union> set (gs_failed g) \<and>
     length (of_partition tp (gs_delivered g)) + length (of_partition tp (gs_failed g)) \<le> gs_pos g tp + gs_again g tp)"

lemma group_inv_end_run:
  assumes "group_inv log g" "loop_reach s lp" "group_hands_out log g (lp_polled lp)" "commits_handled committed lp"
  shows "group_inv log (end_run committed lp g)"
  unfolding group_inv_def
proof (intro allI conjI)
  fix tp
  obtain rest where polled: "lp_polled lp = committed @ rest"
    and handled: "set committed \<subseteq> set (map fst (lp_delivered lp)) \<union> set (lp_failed lp)"
    using assms(4) by (auto simp: commits_handled_def)
  have inv: "gs_pos g tp \<le> length (log tp)" "set (take (gs_pos g tp) (log tp)) \<subseteq> set (gs_delivered g) \<union> set (gs_failed g)"
    "length (of_partition tp (gs_delivered g)) + length (of_partition tp (gs_failed g)) \<le> gs_pos g tp + gs_again g tp"
    using assms(1) by (auto simp: group_inv_def)
  note adv = run_advances [OF assms(3) [unfolded polled] inv(1)]
  show "gs_pos (end_run committed lp g) tp \<le> length (log tp)" using adv(1) by (simp add: end_run_def)
  show "set (take (gs_pos (end_run committed lp g) tp) (log tp)) \<subseteq>
      set (gs_delivered (end_run committed lp g)) \<union> set (gs_failed (end_run committed lp g))"
    using adv(2) inv(2) handled set_of_partition [of tp committed] by (auto simp: end_run_def)
  have "mset (lp_polled lp) = mset (lp_inflight lp @ map fst (lp_delivered lp) @ lp_failed lp)"
    using loop_inv_reach [OF assms(2)] by (simp add: loop_inv_def)
  from length_of_partition_mset [OF this, of tp]
  show "length (of_partition tp (gs_delivered (end_run committed lp g))) + length (of_partition tp (gs_failed (end_run committed lp g)))
      \<le> gs_pos (end_run committed lp g) tp + gs_again (end_run committed lp g) tp"
    using inv(3) polled by (simp add: end_run_def)
qed

lemma service_inv: "service sources log g \<Longrightarrow> group_inv log g"
proof (induction rule: service.induct)
  case service_new
  show ?case by (simp add: group_inv_def new_group_def of_partition_def)
next
  case (service_crash g s lp)
  then show ?case using group_inv_end_run loop_commits_handled by blast
next
  case (service_stop g s lp commitErr)
  then show ?case using group_inv_end_run stop_commits_handled by blast
qed

section \<open>Properties\<close>


text \<open>One record: the first run crashes after its delivery and before the commit, the second one commits.\<close>

definition demo_log :: "TopicPartition \<Rightarrow> Record list" where
  "demo_log tp = of_partition tp [demo_record 5]"

lemma demo_hands_out: "gs_pos g = (\<lambda>_. 0) \<Longrightarrow> group_hands_out demo_log g [demo_record 5]"
  unfolding group_hands_out_def demo_log_def by (auto intro: exI [of _ 1] simp: of_partition_def)


end
