(* ===== verification/Catch_Up_Order.thy ===== *)
theory Catch_Up_Order
  imports Catch_Up_Pipeline
begin

text \<open>
  What the parallel catch-up of the theory \<open>Catch_Up_Pipeline\<close> does, under every interleaving: the records of
  a range that fits into the ring buffer are produced in order and completely, no fetcher of such a range
  is ever stuck, every record is accounted for, and a catch-up that copied anything crashes in the end.
\<close>

section \<open>Lemmas: a buffer that is fed from a log\<close>

text \<open>An offset that the buffer has seen: drained or pending.\<close>

definition seen :: "OrderedRingBuffer \<Rightarrow> int \<Rightarrow> bool" where
  "seen rb k \<longleftrightarrow> k < rb_drainOffset rb \<or> ring_pending rb k \<noteq> None"

text \<open>
  The state of a buffer that can hold the whole range \<open>[s, e)\<close>: it holds source records only, what was drained is
  the log from \<open>s\<close> to the drain position, all of it at offsets that the log has, and the offsets of \<open>W\<close>, those
  still to be put, are ahead of the drainer and not in the buffer.
\<close>

definition fed :: "(int \<Rightarrow> Record) \<Rightarrow> int set \<Rightarrow> int \<Rightarrow> int \<Rightarrow> int set \<Rightarrow> OrderedRingBuffer \<Rightarrow> Record list \<Rightarrow> bool" where
  "fed src L s e W rb drained \<longleftrightarrow> ring_ok rb \<and> ring.from_log src rb \<and> e - s \<le> rb_capacity rb \<and>
     s \<le> rb_drainOffset rb \<and> rb_drainOffset rb \<le> e \<and> drained = map src [s..rb_drainOffset rb - 1] \<and>
     (\<forall>k \<in> W. rb_drainOffset rb \<le> k \<and> k < e \<and> ring_pending rb k = None) \<and>
     (\<forall>k. s \<le> k \<and> seen rb k \<longrightarrow> k \<in> L \<and> k < e)"

lemma Put_free:
  assumes "ring_ok rb" "rb_drainOffset rb \<le> k" "k < rb_drainOffset rb + rb_capacity rb" "ring_pending rb k = None"
  shows "Put ctxErr k r rb = Ret (Some True, fill_slot k r rb)"
proof -
  note c = ring_ok_atD [OF assms(1) [unfolded ring_ok_def]]
  have "sl_state (slot_at rb k) = slotEmpty"
    using assms(2-4) c(4,5) [of k] by (auto simp: ring_pending_def pending_at_def split: if_splits)
  with c(1) show ?thesis by (simp add: Put_def)
qed

lemma fed_mono: "fed src L s e W rb drained \<Longrightarrow> W' \<subseteq> W \<Longrightarrow> fed src L s e W' rb drained"
  by (auto simp: fed_def)

lemma fed_put:
  assumes "fed src L s e W rb drained" "k \<in> W" "k \<in> L"
  shows "fed src L s e (W - {k}) (fill_slot k (src k) rb) drained" "seen (fill_slot k (src k) rb) n \<longleftrightarrow> seen rb n \<or> n = k"
proof -
  have k: "rb_drainOffset rb \<le> k" "k < rb_drainOffset rb + rb_capacity rb" "ring_pending rb k = None" "k < e"
    using assms by (auto simp: fed_def)
  have ok: "ring_ok rb" "ring.from_log src rb" using assms(1) by (simp_all add: fed_def)
  note law = ring.put_law [OF ok(1) k(1-3), of "src k"] and log = ring.put_from_log [OF ok k(1-3)]
  have seen: "seen (fill_slot k (src k) rb) n \<longleftrightarrow> seen rb n \<or> n = k" for n using law by (auto simp: seen_def)
  then show "seen (fill_slot k (src k) rb) n \<longleftrightarrow> seen rb n \<or> n = k" .
  from law log assms(1,3) k(4) show "fed src L s e (W - {k}) (fill_slot k (src k) rb) drained"
    by (auto simp: fed_def seen)
qed

lemma fed_drain:
  assumes fed: "fed src L s e W rb drained" and take: "take_batch n rb = (rs, rb')"
  shows "fed src L s e W rb' (drained @ rs)" "seen rb' = seen rb"
proof -
  have ok: "ring_ok rb" "ring.from_log src rb" using fed by (simp_all add: fed_def)
  note law = ring.take_law [OF ok(1) take] and log = ring.take_from_log [OF ok take]
  let ?d = "rb_drainOffset rb" and ?d' = "rb_drainOffset rb'"
  have pos: "?d' = ?d + int (length rs)" and cap: "rb_capacity rb' = rb_capacity rb"
    and pend: "ring_pending rb' = (\<lambda>off. if off < ?d' then None else ring_pending rb off)" using law by blast+
  have taken: "ring_pending rb k \<noteq> None" if "?d \<le> k" "k < ?d'" for k
  proof -
    have i: "nat (k - ?d) < length rs" "?d + int (nat (k - ?d)) = k" using that pos by auto
    have "\<forall>i < length rs. ring_pending rb (?d + int i) = Some (rs ! i)" using law by blast
    then have "ring_pending rb (?d + int (nat (k - ?d))) = Some (rs ! nat (k - ?d))" using i(1) by blast
    then show ?thesis unfolding i(2) by simp
  qed
  have "seen rb' k = seen rb k" for k using taken [of k] pos by (cases "?d \<le> k"; cases "k < ?d'") (auto simp: seen_def pend)
  then show seen: "seen rb' = seen rb" by blast
  have "?d' \<le> e"
  proof (cases "rs = []")
    case False
    then have d: "?d \<le> ?d' - 1" using pos by (cases rs) simp_all
    with taken [of "?d' - 1"] have "seen rb (?d' - 1)" by (simp add: seen_def)
    moreover have "s \<le> ?d' - 1" using fed d by (simp add: fed_def)
    ultimately have "?d' - 1 < e" using fed unfolding fed_def by blast
    then show ?thesis by simp
  qed (use pos fed in \<open>simp add: fed_def\<close>)
  moreover have "drained @ rs = map src [s..?d' - 1]"
    using fed log upto_append [of s ?d "?d' - 1"] by (simp add: fed_def flip: map_append)
  moreover have "?d' \<le> k" if "k \<in> W" for k using fed taken [of k] that by (fastforce simp: fed_def)
  ultimately show "fed src L s e W rb' (drained @ rs)" using fed log cap by (auto simp: fed_def pend seen)
qed

lemma fed_close [simp]: "fed src L s e W (Close rb) drained = fed src L s e W rb drained" "seen (Close rb) = seen rb"
proof -
  have "rb_capacity (Close rb) = rb_capacity rb" by (simp add: Close_def)
  moreover show "seen (Close rb) = seen rb" by (simp add: seen_def fun_eq_iff)
  ultimately show "fed src L s e W (Close rb) drained = fed src L s e W rb drained" by (simp add: fed_def ring.from_log_def)
qed

lemma CloseWithError_Close: "CloseWithError = Close"
  by (simp add: CloseWithError_def Close_def fun_eq_iff)

section \<open>Lemmas: what a fetcher has left to do\<close>

definition left_of :: "fetcher \<Rightarrow> int set" where
  "left_of f = (case ft_pc f of
      FetchReturned _ \<Rightarrow> {}
    | FetchPut rs rest \<Rightarrow> {k. k < ft_to f \<and> (k \<in> off_of ` set rest \<or> ft_pos f \<le> k)}
    | _ \<Rightarrow> {k. ft_pos f \<le> k \<and> k < ft_to f})"

definition fetcher_ok :: "(int \<Rightarrow> Record) \<Rightarrow> int set \<Rightarrow> fetcher \<Rightarrow> bool" where
  "fetcher_ok src L f \<longleftrightarrow> (case ft_pc f of
      FetchPut rs rest \<Rightarrow> rs \<noteq> [] \<and> ft_pos f = off_of (last rs) + 1 \<and> sorted_wrt (<) (map off_of rest) \<and>
        (\<forall>r \<in> set rest. r = src (off_of r) \<and> off_of r \<in> L \<and> off_of r < ft_pos f)
    | _ \<Rightarrow> True)"

lemma sorted_last: "sorted_wrt (<) (map off_of rs) \<Longrightarrow> r \<in> set rs \<Longrightarrow> off_of r \<le> off_of (last rs)"
  by (induction rs) (auto simp: less_imp_le)

lemma after_connect_ok [simp]:
  "ft_pc f = FetchStart \<Longrightarrow> fetcher_ok src L (after_connect err f) \<and> left_of (after_connect err f) \<subseteq> left_of f \<and>
     (\<not> failed (after_connect err f) \<longrightarrow> left_of (after_connect err f) = left_of f)"
  by (auto simp: after_connect_def fetcher_ok_def left_of_def failed_def split: option.splits)

lemma after_poll_ok:
  assumes "ft_pc f = FetchPoll" "next_records src L (ft_pos f) (poll_records p)"
  shows "fetcher_ok src L (after_poll p f)" "left_of (after_poll p f) \<subseteq> left_of f"
    "\<not> failed (after_poll p f) \<Longrightarrow> poll_ctx p = None \<Longrightarrow> L \<inter> left_of f \<subseteq> left_of (after_poll p f)"
proof -
  have new: "rs = poll_records p" "rs \<noteq> []" if "fetch_poll (ft_id f) (ft_errs f) p = FetchRecords rs" for rs
    using fetch_poll_records [OF that] by blast+
  note n = assms(2) [unfolded next_records_def]
  have last: "off_of r \<le> off_of (last (poll_records p))" if "r \<in> set (poll_records p)" for r
    using n sorted_last that by blast
  have lp: "ft_pos f \<le> off_of (last (poll_records p))" if "poll_records p \<noteq> []" using n last_in_set [OF that] by blast
  show "fetcher_ok src L (after_poll p f)"
    using assms(1) n new last by (auto simp: after_poll_def fetcher_ok_def split: fetched.splits)
  show "left_of (after_poll p f) \<subseteq> left_of f"
    using assms(1) n new lp by (fastforce simp: after_poll_def left_of_def split: fetched.splits)
  have ret: "res \<noteq> None" if "fetch_poll (ft_id f) (ft_errs f) p = FetchReturn res" "poll_ctx p = None" for res
    using that by (auto simp: fetch_poll_def Let_def split: if_splits)
  show "L \<inter> left_of f \<subseteq> left_of (after_poll p f)" if ok: "\<not> failed (after_poll p f)" "poll_ctx p = None"
  proof (cases "fetch_poll (ft_id f) (ft_errs f) p")
    case (FetchReturn res)
    with ok ret [OF this] show ?thesis by (auto simp: after_poll_def failed_def)
  next
    case (FetchRecords rs)
    have "k \<in> off_of ` set rs \<or> off_of (last rs) + 1 \<le> k" if "k \<in> L" "ft_pos f \<le> k" for k
      using n new [OF FetchRecords] that by (cases "k \<le> off_of (last rs)") auto
    then show ?thesis using assms(1) FetchRecords by (auto simp: after_poll_def left_of_def)
  qed (use assms(1) in \<open>simp add: after_poll_def left_of_def\<close>)
qed

text \<open>The ways a put step ends: the fetcher is done or at the end of a batch, its record went in, or \<open>Put\<close> refused.\<close>

lemma fetch_put_cases:
  assumes "fetch_put ctxErr f rb = Some (Ret (f', rb'))" "fetcher_ok src L f"
  obtains (quiet) "rb' = rb" "fetcher_ok src L f'" "left_of f' = left_of f" "\<not> failed f'"
    | (stored) k where "k \<in> left_of f" "k \<in> L" "rb' = fill_slot k (src k) rb" "fetcher_ok src L f'" "left_of f' = left_of f - {k}" "\<not> failed f'"
    | (refused) "rb' = rb" "fetcher_ok src L f'" "left_of f' = {}" "\<not> failed f'" "rb_closed rb \<or> ctxErr \<noteq> None"
proof -
  from assms(1) obtain rs rest where pc: "ft_pc f = FetchPut rs rest" by (auto simp: fetch_put_def split: fetch_pc.splits)
  note ok = assms(2) [unfolded fetcher_ok_def pc fetch_pc.case]
  show thesis
  proof (cases rest)
    case Nil
    with assms(1) pc ok show ?thesis
      by (intro quiet; cases "segment_done (ft_to f) rs")
        (auto simp: fetch_put_def fetcher_ok_def left_of_def failed_def segment_done_def)
  next
    case (Cons r rest')
    have r: "r = src (off_of r)" "off_of r < ft_pos f" "\<forall>q \<in> set rest'. off_of r < off_of q" using ok Cons by auto
    show ?thesis
    proof (cases "off_of r \<ge> ft_to f")
      case True
      then have "f' = f\<lparr>ft_pc := FetchReturned None\<rparr>" "rb' = rb" using assms(1) pc Cons by (simp_all add: fetch_put_def)
      with True r pc Cons show ?thesis
        by (intro quiet) (auto simp: fetcher_ok_def left_of_def failed_def)
    next
      case False
      then obtain okp where put: "Put ctxErr (off_of r) r rb = Ret (Some okp, rb')"
        "f' = f\<lparr>ft_pc := (if okp then FetchPut rs rest' else FetchReturned None)\<rparr>"
        using assms(1) pc Cons by (auto simp: fetch_put_def split: outcome.splits option.splits)
      show ?thesis
      proof (cases okp)
        case True
        have "left_of f' = left_of f - {off_of r}" using put(2) pc Cons True r(2,3) by (force simp: left_of_def)
        moreover have "rb' = fill_slot (off_of r) (src (off_of r)) rb" using Put_cases [OF put(1)] True r(1) by simp
        ultimately show ?thesis
          using False pc Cons put(2) True ok by (intro stored [of "off_of r"]) (auto simp: left_of_def fetcher_ok_def failed_def)
      next
        case refuse: False
        then have "rb_closed rb \<or> ctxErr \<noteq> None" using put(1) by (auto simp: Put_def Put_slow_def split: if_splits)
        with refuse put Put_cases [OF put(1)] show ?thesis by (intro refused) (auto simp: fetcher_ok_def left_of_def failed_def)
      qed
    qed
  qed
qed

section \<open>Lemmas: the invariant of a partition\<close>

text \<open>The offsets that the fetchers have left, no two of them the same one.\<close>

definition todo :: "fetcher list \<Rightarrow> int set" where
  "todo fs = (\<Union>f \<in> set fs. left_of f)"

definition apart :: "fetcher list \<Rightarrow> bool" where
  "apart fs \<longleftrightarrow> (\<forall>i < length fs. \<forall>j < length fs. i \<noteq> j \<longrightarrow> left_of (fs ! i) \<inter> left_of (fs ! j) = {})"

lemma todo_update:
  assumes "apart fs" "j < length fs" "left_of f' \<subseteq> left_of (fs ! j)"
  shows "todo (fs[j := f']) = todo fs - (left_of (fs ! j) - left_of f')" "apart (fs[j := f'])" "left_of (fs ! j) \<subseteq> todo fs"
proof -
  show "left_of (fs ! j) \<subseteq> todo fs" using nth_mem [OF assms(2)] by (auto simp: todo_def)
  show "apart (fs[j := f'])" using assms by (fastforce simp: apart_def nth_list_update)
  have todo: "k \<in> todo fs \<longleftrightarrow> (\<exists>i < length fs. k \<in> left_of (fs ! i))" for k fs
    by (metis (no_types, lifting) UN_iff in_set_conv_nth todo_def)
  show "todo (fs[j := f']) = todo fs - (left_of (fs ! j) - left_of f')"
  proof (intro set_eqI)
    fix k
    have "k \<in> todo (fs[j := f']) \<longleftrightarrow> k \<in> left_of f' \<or> (\<exists>i < length fs. i \<noteq> j \<and> k \<in> left_of (fs ! i))"
      using assms(2) unfolding todo by (auto simp: nth_list_update)
    moreover have "k \<in> todo fs \<longleftrightarrow> k \<in> left_of (fs ! j) \<or> (\<exists>i < length fs. i \<noteq> j \<and> k \<in> left_of (fs ! i))"
      using assms(2) unfolding todo by auto
    moreover have "\<not> (k \<in> left_of (fs ! j) \<and> (\<exists>i < length fs. i \<noteq> j \<and> k \<in> left_of (fs ! i)))"
      using assms(1,2) by (auto simp: apart_def)
    ultimately show "k \<in> todo (fs[j := f']) \<longleftrightarrow> k \<in> todo fs - (left_of (fs ! j) - left_of f')" using assms(3) by blast
  qed
qed

lemma todo_returned: "list_all returned fs \<Longrightarrow> todo fs = {}"
  by (auto simp: todo_def list_all_iff returned_def left_of_def split: fetch_pc.splits)

text \<open>
  Order: while the range fits into the buffer, the buffer is fed from the log. Completeness: unless the context was
  cancelled or a fetcher failed, what the log has in the range was seen or is left to a fetcher, the buffer is
  closed only when all fetchers have returned, and the drainer leaves only at an offset that the log
  does not have.
\<close>

definition order_inv :: "(int \<Rightarrow> Record) \<Rightarrow> int set \<Rightarrow> partition_run \<Rightarrow> bool" where
  "order_inv src L pt \<longleftrightarrow>
     fed src L (pt_start pt) (pt_end pt) (todo (pt_fetchers pt)) (pt_ring pt) (pt_drained pt) \<and>
     list_all (fetcher_ok src L) (pt_fetchers pt) \<and> apart (pt_fetchers pt)"

definition complete_inv :: "int set \<Rightarrow> bool \<Rightarrow> partition_run \<Rightarrow> bool" where
  "complete_inv L cancelled pt \<longleftrightarrow> (\<not> cancelled \<and> \<not> pt_fetcherFailed pt \<longrightarrow>
     (\<forall>k \<in> L. pt_start pt \<le> k \<and> k < pt_end pt \<longrightarrow> seen (pt_ring pt) k \<or> k \<in> todo (pt_fetchers pt)) \<and>
     (rb_closed (pt_ring pt) \<longrightarrow> list_all returned (pt_fetchers pt)) \<and>
     (pt_drain_pc pt \<noteq> Draining \<longrightarrow> rb_drainOffset (pt_ring pt) \<notin> L \<or> rb_drainOffset (pt_ring pt) = pt_end pt))"

text \<open>A fetcher that moves without touching the buffer.\<close>

lemma order_inv_move:
  assumes "order_inv src L pt" "j < length (pt_fetchers pt)" "fetcher_ok src L f'" "left_of f' \<subseteq> left_of (pt_fetchers pt ! j)"
  shows "order_inv src L (set_fetcher j f' (pt_ring pt) pt)"
proof -
  let ?fs = "pt_fetchers pt"
  have inv: "fed src L (pt_start pt) (pt_end pt) (todo ?fs) (pt_ring pt) (pt_drained pt)" "list_all (fetcher_ok src L) ?fs" "apart ?fs"
    using assms(1) by (simp_all add: order_inv_def)
  note upd = todo_update [OF inv(3) assms(2,4)]
  have "list_all (fetcher_ok src L) (?fs[j := f'])" using inv(2) assms(3) set_update_subset_insert [of ?fs j f'] by (auto simp: list_all_iff)
  moreover have "todo (?fs[j := f']) \<subseteq> todo ?fs" using upd(1) by blast
  ultimately show ?thesis
    using fed_mono [OF inv(1)] upd(2) by (simp add: order_inv_def set_fetcher_def CloseWithError_Close)
qed

lemma complete_inv_move:
  assumes "complete_inv L cancelled pt" "apart (pt_fetchers pt)" "j < length (pt_fetchers pt)" "\<not> returned (pt_fetchers pt ! j)"
    "left_of f' \<subseteq> left_of (pt_fetchers pt ! j)"
    "\<not> failed f' \<Longrightarrow> \<not> cancelled \<Longrightarrow> \<not> rb_closed (pt_ring pt) \<Longrightarrow> L \<inter> left_of (pt_fetchers pt ! j) \<subseteq> left_of f'"
  shows "complete_inv L cancelled (set_fetcher j f' (pt_ring pt) pt)"
proof -
  have "rb_closed (pt_ring pt) \<Longrightarrow> \<not> cancelled \<Longrightarrow> \<not> pt_fetcherFailed pt \<Longrightarrow> False"
    using assms(1,3,4) by (auto simp: complete_inv_def list_all_length)
  with assms(1,6) todo_update [OF assms(2,3,5)] show ?thesis by (auto simp: complete_inv_def set_fetcher_def)
qed

lemma fetch_put_running: "fetch_put ctxErr f rb = Some x \<Longrightarrow> \<not> returned f"
  by (auto simp: fetch_put_def returned_def split: fetch_pc.splits)

lemma rb_closed_fill [simp]: "rb_closed (fill_slot k r rb) = rb_closed rb" "rb_drainOffset (fill_slot k r rb) = rb_drainOffset rb"
  by (simp_all add: fill_slot_def)

text \<open>A put step. Only the record that went in is taken off what is left.\<close>

lemma partition_put:
  assumes inv: "order_inv src L pt" "complete_inv L cancelled pt" and j: "j < length (pt_fetchers pt)"
    and put: "fetch_put (if cancelled then Some Canceled else None) (pt_fetchers pt ! j) (pt_ring pt) = Some (Ret (f', rb'))"
  shows "order_inv src L (set_fetcher j f' rb' pt) \<and> complete_inv L cancelled (set_fetcher j f' rb' pt)"
proof -
  let ?fs = "pt_fetchers pt"
  have o: "fed src L (pt_start pt) (pt_end pt) (todo ?fs) (pt_ring pt) (pt_drained pt)" "list_all (fetcher_ok src L) ?fs" "apart ?fs"
    using inv(1) by (simp_all add: order_inv_def)
  have ok: "fetcher_ok src L (?fs ! j)" using o(2) j by (simp add: list_all_length)
  note run = fetch_put_running [OF put]
  show ?thesis
  proof (cases rule: fetch_put_cases [OF put ok, case_names quiet stored refused])
    case quiet
    then show ?thesis
      using order_inv_move [OF inv(1) j] complete_inv_move [OF inv(2) o(3) j run] by simp
  next
    case (stored k)
    have sub: "left_of f' \<subseteq> left_of (?fs ! j)" using stored(5) by blast
    note upd = todo_update [OF o(3) j sub]
    have todo: "todo (?fs[j := f']) = todo ?fs - {k}" "k \<in> todo ?fs" using upd stored(1,5) by auto
    note fed = fed_put [OF o(1) todo(2) stored(2), folded stored(3)]
    have "list_all (fetcher_ok src L) (?fs[j := f'])" using o(2) stored(4) set_update_subset_insert [of ?fs j f'] by (auto simp: list_all_iff)
    then have "order_inv src L (set_fetcher j f' rb' pt)"
      using fed(1) upd(2) todo(1) by (simp add: order_inv_def set_fetcher_def CloseWithError_Close)
    moreover have "complete_inv L cancelled (set_fetcher j f' rb' pt)"
      using inv(2) fed(2) todo run j stored(3,6) by (auto simp: complete_inv_def set_fetcher_def list_all_length)
    ultimately show ?thesis ..
  next
    case refused
    then show ?thesis
      using order_inv_move [OF inv(1) j] complete_inv_move [OF inv(2) o(3) j run, of f'] by (auto split: if_splits)
  qed
qed

lemma partition_close:
  assumes "list_all returned (pt_fetchers pt)"
  shows "order_inv src L pt \<Longrightarrow> order_inv src L (close_buffer pt)"
    "complete_inv L cancelled pt \<Longrightarrow> complete_inv L cancelled (close_buffer pt)"
  using assms by (simp_all add: order_inv_def complete_inv_def close_buffer_def CloseWithError_Close)

text \<open>The drainer: a batch, or the end of the loop.\<close>

lemma drain_turn_cases:
  assumes "drain_turn ps cancelled now mv pt = Some (Ret (mv', pt'))"
  obtains (cancelled) "cancelled" "pt' = pt\<lparr>pt_drain_pc := DrainWait\<rparr>"
    | (over) batch alive rb where "\<not> cancelled" "DrainBatch None 512 (pt_ring pt) = Ret (Some (batch, alive), rb)" "\<not> alive \<or> batch = []"
        "pt' = pt\<lparr>pt_ring := rb, pt_drain_pc := DrainWait\<rparr>"
    | (batch) batch rb ds where "\<not> cancelled" "pt_drain_pc pt = Draining" "DrainBatch None 512 (pt_ring pt) = Ret (Some (batch, True), rb)"
        "drain_batch ps (pt_targetTopic pt) (pt_partition pt) batch now ((pt_drain pt)\<lparr>ds_metrics := mv\<rparr>) = Ret ds"
        "pt' = pt\<lparr>pt_ring := rb, pt_drain := ds, pt_drained := pt_drained pt @ map the batch, pt_inflight := pt_inflight pt @ map the batch\<rparr>"
proof (cases cancelled)
  case True
  with assms show thesis by (intro cancelled) (auto simp: drain_turn_def split: if_splits)
next
  case False
  have pc: "pt_drain_pc pt = Draining" using assms by (auto simp: drain_turn_def split: if_splits)
  obtain bs alive rb where d: "DrainBatch None 512 (pt_ring pt) = Ret (Some (bs, alive), rb)"
    using assms False pc by (auto simp: drain_turn_def split: outcome.splits option.splits prod.splits)
  show thesis
  proof (cases "\<not> alive \<or> bs = []")
    case True
    with assms False pc d show thesis by (intro over [OF False d]) (auto simp: drain_turn_def)
  next
    case go: False
    with assms False pc d obtain ds where
      "drain_batch ps (pt_targetTopic pt) (pt_partition pt) bs now ((pt_drain pt)\<lparr>ds_metrics := mv\<rparr>) = Ret ds"
      by (auto simp: drain_turn_def split: outcome.splits)
    with assms False pc d go show thesis by (intro batch [of bs rb ds]) (simp_all add: drain_turn_def)
  qed
qed

lemma take_batch_closed: "take_batch n rb = (rs, rb') \<Longrightarrow> rb_closed rb' = rb_closed rb"
proof -
  have "drain_loop n off rb = (batch, rb') \<Longrightarrow> rb_closed rb' = rb_closed rb" for off batch n rb rb'
    by (induction n off rb arbitrary: batch rule: drain_loop.induct) (auto simp: Let_def split: if_splits prod.splits)
  then show "take_batch n rb = (rs, rb') \<Longrightarrow> rb_closed rb' = rb_closed rb" by (auto simp: take_batch_def split: prod.splits)
qed

lemma drain_over:
  assumes "DrainBatch None 512 rb = Ret (Some (batch, alive), rb')" "\<not> alive \<or> batch = []" "ring_ok rb"
  shows "rb' = rb \<and> rb_closed rb \<and> ring_pending rb (rb_drainOffset rb) = None"
  using drain_batch_takes_maximal_run [OF assms(3), of _ 512] gap_ends_drain [OF assms(3), of 512] assms(1,2)
  by (cases "ring_pending rb (rb_drainOffset rb) = None") (auto split: if_splits)

lemma partition_drain:
  assumes inv: "order_inv src L pt" "complete_inv L cancelled pt"
    and drain: "drain_turn ps cancelled now mv pt = Some (Ret (mv', pt'))"
  shows "order_inv src L pt' \<and> complete_inv L cancelled pt'"
proof -
  have fed: "fed src L (pt_start pt) (pt_end pt) (todo (pt_fetchers pt)) (pt_ring pt) (pt_drained pt)"
    using inv(1) by (simp add: order_inv_def)
  then have ok: "ring_ok (pt_ring pt)" by (simp add: fed_def)
  from drain show ?thesis
  proof (cases rule: drain_turn_cases)
    case cancelled
    with inv show ?thesis by (simp add: order_inv_def complete_inv_def)
  next
    case (over batch alive rb)
    note o = drain_over [OF over(2,3) ok]
    have pos: "pt_start pt \<le> rb_drainOffset (pt_ring pt)" "rb_drainOffset (pt_ring pt) \<le> pt_end pt" using fed by (simp_all add: fed_def)
    have "\<not> seen (pt_ring pt) (rb_drainOffset (pt_ring pt))" using o by (simp add: seen_def)
    then have "complete_inv L cancelled pt'"
      using inv(2) o pos todo_returned unfolding complete_inv_def over(4) by (fastforce simp: order.order_iff_strict)
    with inv(1) o over(4) show ?thesis by (simp add: order_inv_def)
  next
    case (batch batch rb ds)
    then obtain rs where rs: "batch = map Some rs" "take_batch 512 (pt_ring pt) = (rs, rb)"
      using DrainBatch_cases [OF batch(3) ok] by auto
    note fd = fed_drain [OF fed rs(2)]
    have "order_inv src L pt'" using inv(1) fd(1) rs(1) batch(5) by (simp add: order_inv_def comp_def)
    moreover have "complete_inv L cancelled pt'"
      using inv(2) fd(2) batch(2,5) take_batch_closed [OF rs(2)] by (simp add: complete_inv_def)
    ultimately show ?thesis ..
  qed
qed

text \<open>
  Accounting, whatever the range: the produced records are those drained, in that order, each of them in flight,
  produced or given up, and the counters count them. A drainer that has finished had nothing to count.
\<close>

definition account_inv :: "partition_run \<Rightarrow> bool" where
  "account_inv pt \<longleftrightarrow>
     ds_produced (pt_drain pt) = map (drain_target_record (pt_targetTopic pt) (pt_partition pt)) (pt_drained pt) \<and>
     mset (pt_drained pt) = mset (pt_inflight pt) + mset (pt_acked pt) + mset (pt_lost pt) \<and>
     ds_periodRecs (pt_drain pt) = int (length (pt_drained pt)) \<and> ds_totalRecs (pt_drain pt) = int (length (pt_drained pt)) \<and>
     ds_produceErrors (pt_drain pt) = int (length (pt_lost pt)) \<and> (pt_drain_pc pt = DrainDone \<longrightarrow> pt_drained pt = [])"

lemma account_drain:
  assumes "account_inv pt" "drain_turn ps cancelled now mv pt = Some (Ret (mv', pt'))"
  shows "account_inv pt'"
  using assms(2)
proof (cases rule: drain_turn_cases)
  case (batch batch rb ds)
  have b: "ds = foldl (drain_one (pt_targetTopic pt) (pt_partition pt)) ((pt_drain pt)\<lparr>ds_metrics := mv\<rparr>) (map the batch)"
    using drain_batch_Ret [OF batch(4)] by blast
  note d = drain_one_foldl [of "pt_targetTopic pt" "pt_partition pt" "(pt_drain pt)\<lparr>ds_metrics := mv\<rparr>" "map the batch", folded b]
  have "ds_produceErrors (foldl (drain_one t p) s rs) = ds_produceErrors s" for t p s rs
    by (induction rs arbitrary: s) (simp_all add: drain_one_def Let_def)
  then have "ds_produceErrors ds = ds_produceErrors (pt_drain pt)" using b by simp
  with assms(1) d batch(2,5) show ?thesis by (simp add: account_inv_def)
qed (use assms(1) in \<open>simp_all add: account_inv_def\<close>)

lemma account_callback:
  assumes "account_inv pt" "r \<in> set (pt_inflight pt)" "callback_turn ps topic env err r mv pt = Ret (mv', pt')"
  shows "account_inv pt'"
proof -
  let ?ds = "(pt_drain pt)\<lparr>ds_metrics := mv\<rparr>"
  obtain ds where ds: "drain_callback ps env (pt_targetTopic pt) topic (pt_partition pt) err r ?ds = Ret ds"
    using assms(3) by (auto simp: callback_turn_def split: outcome.splits)
  note keep = drain_callback_keeps [OF ds]
  have "mset (pt_inflight pt) = add_mset r (mset (remove1 r (pt_inflight pt)))" using assms(2) by simp
  moreover define lost where "lost \<longleftrightarrow> produce_lost ps env err"
  then have "pt' = pt\<lparr>pt_drain := ds, pt_inflight := remove1 r (pt_inflight pt),
      pt_acked := pt_acked pt @ (if lost then [] else [r]), pt_lost := pt_lost pt @ (if lost then [r] else [])\<rparr>"
    using assms(3) ds by (auto simp: callback_turn_def Let_def)
  moreover have "ds_produceErrors ds = ds_produceErrors (pt_drain pt) + (if lost then 1 else 0)" using keep(4) by (simp add: lost_def)
  ultimately show ?thesis using assms(1) keep(1-3) by (simp add: account_inv_def)
qed

lemma account_finish:
  assumes "account_inv pt" "finish_turn ps mv pt = Some (Ret (ps', mv', pt'))"
  shows "account_inv pt'"
    and "pt_drain_pc pt = DrainWait" "pt' = pt\<lparr>pt_drain := pt_drain pt', pt_drain_pc := DrainDone\<rparr>"
proof -
  show "pt_drain_pc pt = DrainWait" using assms(2) by (auto simp: finish_turn_def split: if_splits)
  from assms(2) obtain ds where pt': "pt' = pt\<lparr>pt_drain := ds, pt_drain_pc := DrainDone\<rparr>"
    and ds: "drain_finish ps (pt_targetTopic pt) (pt_partition pt) ((pt_drain pt)\<lparr>ds_metrics := mv\<rparr>) = Ret (ps', ds)"
    by (auto simp: finish_turn_def split: if_splits outcome.splits prod.splits)
  from drain_finish_Ret [OF ds] assms(1) pt' show "account_inv pt'" by (simp add: account_inv_def)
  from pt' show "pt' = pt\<lparr>pt_drain := pt_drain pt', pt_drain_pc := DrainDone\<rparr>" by simp
qed

section \<open>Lemmas: the invariant of a catch-up\<close>

abbreviation part_id :: "partition_run \<Rightarrow> int32 \<times> int \<times> int \<times> string" where
  "part_id pt \<equiv> (pt_partition pt, pt_start pt, pt_end pt, pt_targetTopic pt)"

definition part_inv :: "int \<Rightarrow> (int32 \<Rightarrow> int \<Rightarrow> Record) \<Rightarrow> (int32 \<Rightarrow> int set) \<Rightarrow> bool \<Rightarrow> partition_run \<Rightarrow> bool" where
  "part_inv cap src L cancelled pt \<longleftrightarrow> account_inv pt \<and> (pt_end pt - pt_start pt \<le> cap \<longrightarrow>
     order_inv (src (pt_partition pt)) (L (pt_partition pt)) pt \<and> complete_inv (L (pt_partition pt)) cancelled pt)"

lemma set_fetcher_frame [simp]:
  "pt_partition (set_fetcher j f rb pt) = pt_partition pt" "pt_start (set_fetcher j f rb pt) = pt_start pt"
  "pt_end (set_fetcher j f rb pt) = pt_end pt" "pt_targetTopic (set_fetcher j f rb pt) = pt_targetTopic pt"
  "account_inv (set_fetcher j f rb pt) = account_inv pt"
  by (simp_all add: set_fetcher_def account_inv_def)

lemma close_buffer_frame [simp]:
  "pt_partition (close_buffer pt) = pt_partition pt" "pt_start (close_buffer pt) = pt_start pt"
  "pt_end (close_buffer pt) = pt_end pt" "pt_targetTopic (close_buffer pt) = pt_targetTopic pt"
  "account_inv (close_buffer pt) = account_inv pt"
  by (simp_all add: close_buffer_def account_inv_def)

lemma part_inv_move:
  assumes "part_inv cap src L cancelled pt" "j < length (pt_fetchers pt)" "\<not> returned (pt_fetchers pt ! j)"
    "left_of f' \<subseteq> left_of (pt_fetchers pt ! j)" "fetcher_ok (src (pt_partition pt)) (L (pt_partition pt)) f'"
    "\<not> failed f' \<Longrightarrow> \<not> cancelled \<Longrightarrow> L (pt_partition pt) \<inter> left_of (pt_fetchers pt ! j) \<subseteq> left_of f'"
  shows "part_inv cap src L cancelled (set_fetcher j f' (pt_ring pt) pt)"
proof -
  have "apart (pt_fetchers pt)" if "order_inv src L pt" for src L using that by (simp add: order_inv_def)
  with assms(1) order_inv_move [OF _ assms(2,5,4)] complete_inv_move [OF _ _ assms(2,3,4,6)] show ?thesis
    unfolding part_inv_def set_fetcher_frame by blast
qed

lemma part_inv_connect:
  assumes "part_inv cap src L cancelled pt" "j < length (pt_fetchers pt)" "ft_pc (pt_fetchers pt ! j) = FetchStart"
  shows "part_inv cap src L cancelled (set_fetcher j (after_connect err (pt_fetchers pt ! j)) (pt_ring pt) pt)"
  using after_connect_ok [OF assms(3), of "src (pt_partition pt)" "L (pt_partition pt)" err] assms(3)
  by (intro part_inv_move [OF assms(1,2)]) (auto simp: returned_def)

lemma part_inv_poll:
  assumes "part_inv cap src L cancelled pt" "j < length (pt_fetchers pt)" "ft_pc (pt_fetchers pt ! j) = FetchPoll"
    "poll_ctx p = (if cancelled then Some Canceled else None)"
    "next_records (src (pt_partition pt)) (L (pt_partition pt)) (ft_pos (pt_fetchers pt ! j)) (poll_records p)"
  shows "part_inv cap src L cancelled (set_fetcher j (after_poll p (pt_fetchers pt ! j)) (pt_ring pt) pt)"
  using after_poll_ok [OF assms(3,5)] assms(3,4)
  by (intro part_inv_move [OF assms(1,2)]) (auto simp: returned_def)

lemma part_inv_put:
  assumes "part_inv cap src L cancelled pt" "j < length (pt_fetchers pt)"
    "fetch_put (if cancelled then Some Canceled else None) (pt_fetchers pt ! j) (pt_ring pt) = Some (Ret (f', rb))"
  shows "part_inv cap src L cancelled (set_fetcher j f' rb pt)"
  using assms(1) partition_put [OF _ _ assms(2,3)] unfolding part_inv_def set_fetcher_frame by blast

lemma part_inv_close:
  "part_inv cap src L cancelled pt \<Longrightarrow> list_all returned (pt_fetchers pt) \<Longrightarrow> part_inv cap src L cancelled (close_buffer pt)"
  by (simp add: part_inv_def partition_close)

lemma drain_turn_frame: "drain_turn ps cancelled now mv pt = Some (Ret (mv', pt')) \<Longrightarrow> part_id pt' = part_id pt"
  by (erule drain_turn_cases) simp_all

lemma part_inv_drain:
  assumes "part_inv cap src L cancelled pt" "drain_turn ps cancelled now mv pt = Some (Ret (mv', pt'))"
  shows "part_inv cap src L cancelled pt'"
proof -
  have frame: "pt_partition pt' = pt_partition pt" "pt_start pt' = pt_start pt" "pt_end pt' = pt_end pt"
    using drain_turn_frame [OF assms(2)] by simp_all
  show ?thesis
    using assms(1) account_drain [OF _ assms(2)] partition_drain [OF _ _ assms(2)] unfolding part_inv_def frame by blast
qed

lemma callback_turn_frame:
  assumes "callback_turn ps topic env err r mv pt = Ret (mv', pt')"
  shows "part_id pt' = part_id pt \<and> order_inv src L pt' = order_inv src L pt \<and>
    complete_inv L cancelled pt' = complete_inv L cancelled pt"
  using assms by (auto simp: callback_turn_def order_inv_def complete_inv_def Let_def split: outcome.splits)

lemma part_inv_callback:
  assumes "part_inv cap src L cancelled pt" "r \<in> set (pt_inflight pt)" "callback_turn ps topic env err r mv pt = Ret (mv', pt')"
  shows "part_inv cap src L cancelled pt'"
  using assms(1) callback_turn_frame [OF assms(3)] account_callback [OF _ assms(2,3)] by (simp add: part_inv_def)

lemma finish_turn_frame: "finish_turn ps mv pt = Some (Ret (ps', mv', pt')) \<Longrightarrow> part_id pt' = part_id pt"
  by (auto simp: finish_turn_def split: if_splits outcome.splits prod.splits)

lemma part_inv_finish:
  assumes "part_inv cap src L cancelled pt" "finish_turn ps mv pt = Some (Ret (ps', mv', pt'))"
  shows "part_inv cap src L cancelled pt'"
proof -
  have acc: "account_inv pt" using assms(1) by (simp add: part_inv_def)
  note f = account_finish [OF acc assms(2)]
  have "order_inv src L pt' = order_inv src L pt" "complete_inv L cancelled pt' = complete_inv L cancelled pt" for src L cancelled
    using f(2) by (subst f(3), simp add: order_inv_def complete_inv_def)+
  with assms(1) f(1) finish_turn_frame [OF assms(2)] show ?thesis by (simp add: part_inv_def)
qed

lemma catchup_step_inv:
  assumes "catchup_step src L c c'" "list_all (part_inv cap src L (ct_cancelled c)) (ct_parts c)"
  shows "list_all (part_inv cap src L (ct_cancelled c')) (ct_parts c') \<and> map part_id (ct_parts c') = map part_id (ct_parts c)"
proof -
  let ?I = "part_inv cap src L (ct_cancelled c)"
  have nth: "?I (ct_parts c ! i)" if "i < length (ct_parts c)" for i using assms(2) that by (simp add: list_all_length)
  have upd: "list_all ?I ((ct_parts c)[i := pt']) \<and> map part_id ((ct_parts c)[i := pt']) = map part_id (ct_parts c)"
    if "i < length (ct_parts c)" "?I pt'" "part_id pt' = part_id (ct_parts c ! i)" for i pt'
    using assms(2) that by (auto simp: list_all_length nth_list_update map_update intro!: nth_equalityI)
  from assms(1) show ?thesis
  proof cases
    case (cu_connect i pt j f err env newClient)
    with nth [of i] upd [of i] part_inv_connect [of cap src L "ct_cancelled c" pt j err] show ?thesis by (simp add: set_part_def)
  next
    case (cu_poll i pt j f p)
    with nth [of i] upd [of i] part_inv_poll [of cap src L "ct_cancelled c" pt j p] show ?thesis by (simp add: set_part_def)
  next
    case (cu_put i pt j f f' rb)
    with nth [of i] upd [of i] part_inv_put [of cap src L "ct_cancelled c" pt j f' rb] show ?thesis by (simp add: set_part_def)
  next
    case (cu_close i pt)
    with nth [of i] upd [of i] part_inv_close [of cap src L "ct_cancelled c" pt] show ?thesis by (simp add: set_part_def)
  next
    case (cu_drain i pt now mv pt')
    with nth [of i] upd [of i] part_inv_drain [OF _ cu_drain(5)] drain_turn_frame [OF cu_drain(5)] show ?thesis by (simp add: set_part_def)
  next
    case (cu_callback i pt r env err mv pt')
    with nth [of i] upd [of i] part_inv_callback [OF _ cu_callback(5,6)] callback_turn_frame [OF cu_callback(6)]
    show ?thesis by (simp add: set_part_def)
  next
    case (cu_finish i pt ps mv pt')
    with nth [of i] upd [of i] part_inv_finish [OF _ cu_finish(5)] finish_turn_frame [OF cu_finish(5)] show ?thesis by (simp add: set_part_def)
  next
    case cu_cancel
    with assms(2) show ?thesis by (auto simp: list_all_iff part_inv_def complete_inv_def)
  qed (use assms(2) in simp_all)
qed

lemma catchup_reach_inv:
  assumes "catchup_reach src L c0 c" "list_all (part_inv cap src L (ct_cancelled c0)) (ct_parts c0)"
  shows "list_all (part_inv cap src L (ct_cancelled c)) (ct_parts c) \<and> map part_id (ct_parts c) = map part_id (ct_parts c0)"
  using assms by (induction rule: catchup_reach.induct) (use catchup_step_inv in \<open>fastforce+\<close>)

lemma distinct_concat_nth:
  "distinct (concat xss) \<Longrightarrow> i < length xss \<Longrightarrow> j < length xss \<Longrightarrow> i \<noteq> j \<Longrightarrow> set (xss ! i) \<inter> set (xss ! j) = {}"
proof (induction xss arbitrary: i j)
  case (Cons xs xss)
  then show ?case using nth_mem by (cases i; cases j) fastforce+
qed simp

lemma start_fetchers:
  assumes "0 < workers"
  shows "todo (map start_fetcher (plan_segments workers s e)) = {k. s \<le> k \<and> k < e}" "apart (map start_fetcher (plan_segments workers s e))"
proof -
  let ?segs = "plan_segments workers s e" and ?r = "\<lambda>(i, a, b). [a..b - 1]"
  have left: "left_of (start_fetcher seg) = set (?r seg)" for seg :: "nat \<times> int \<times> int"
    by (auto simp: start_fetcher_def left_of_def split: prod.splits)
  have cover: "concat (map ?r ?segs) = [s..e - 1]" using plan_segments_cover [OF assms] by blast
  have "todo (map start_fetcher ?segs) = set (concat (map ?r ?segs))" by (auto simp: todo_def left)
  also have "\<dots> = {k. s \<le> k \<and> k < e}" unfolding cover by auto
  finally show "todo (map start_fetcher ?segs) = {k. s \<le> k \<and> k < e}" .
  have "distinct (concat (map ?r ?segs))" unfolding cover by simp
  from distinct_concat_nth [OF this] show "apart (map start_fetcher ?segs)" by (auto simp: apart_def left simp del: set_upto)
qed

lemma ring_capacity_fits:
  assumes "0 < e - s" "e - s \<le> cap"
  shows "e - s \<le> ring_capacity cap (e - s)" "0 < ring_capacity cap (e - s)"
  using assms by (auto simp: ring_capacity_def)

lemma start_partition_inv:
  assumes "catchUpPartitionPipelined ps topic part s e = Some pl" "pl_ring pl = Ret rb" "0 < ps_workers ps"
  shows "part_inv (ps_ringBufferCapacity ps) src L False (start_partition now mv pl rb)"
proof -
  have pl: "0 < e - s" "pl_ring pl = NewOrderedRingBuffer (ring_capacity (ps_ringBufferCapacity ps) (e - s)) s"
    "pl_segments pl = plan_segments (ps_workers ps) s e" "pl_start pl = s" "pl_end pl = e" "pl_partition pl = part"
    using assms(1) by (auto simp: catchUpPartitionPipelined_def Let_def split: if_splits)
  let ?pt = "start_partition now mv pl rb"
  have acc: "account_inv ?pt" by (simp add: account_inv_def start_partition_def drain_start_def)
  have "order_inv src' L' ?pt \<and> complete_inv L' False ?pt" if "e - s \<le> ps_ringBufferCapacity ps" for src' L'
  proof -
    note cap = ring_capacity_fits [OF pl(1) that]
    note new = NewOrderedRingBuffer_ok [OF assms(2) [unfolded pl(2)] cap(2)]
    have open_ring: "\<not> rb_closed rb" using assms(2) pl(2) by (auto simp: NewOrderedRingBuffer_def split: if_splits)
    note fs = start_fetchers [OF assms(3), of s e, folded pl(3)]
    have "list_all (fetcher_ok src' L') (map start_fetcher (pl_segments pl))"
      by (auto simp: list_all_iff fetcher_ok_def start_fetcher_def split: prod.splits)
    moreover have "fed src' L' s e {k. s \<le> k \<and> k < e} rb []"
      using new cap(1) pl(1) by (auto simp: fed_def seen_def ring.from_log_def)
    ultimately have "order_inv src' L' ?pt" using fs pl(4,5) by (simp add: order_inv_def start_partition_def)
    moreover have "complete_inv L' False ?pt" using fs(1) open_ring pl(4,5) by (simp add: complete_inv_def start_partition_def)
    ultimately show ?thesis ..
  qed
  with acc pl(4-6) show ?thesis by (simp add: part_inv_def start_partition_def)
qed

lemma catch_up_plan:
  assumes "CatchUpMultiPartition env newClient lags topic ps = (None, ps', plan)" "pl \<in> set plan"
  obtains part s e where "(part, s, e) \<in> set lags" "catchUpPartitionPipelined ps topic part s e = Some pl"
  using assms by (auto simp: CatchUpMultiPartition_def List.map_filter_def split: if_splits sum.splits option.splits)

lemma catch_up_inv:
  assumes run: "CatchUpMultiPartition env newClient lags topic ps = (None, ps', plan)" "0 < ps_workers ps"
    and reach: "catchup_reach src L (start_catchup now mv topic ps' plan) c" and pt: "pt \<in> set (ct_parts c)"
  shows "part_inv (ps_ringBufferCapacity ps) src L (ct_cancelled c) pt" "(pt_partition pt, pt_start pt, pt_end pt) \<in> set lags"
    "pt_targetTopic pt = FormatRemoteTopic (ps_policy ps) (r_Source (ps_cfg ps)) topic"
proof -
  let ?c0 = "start_catchup now mv topic ps' plan"
  have start: "part_inv (ps_ringBufferCapacity ps) src L False p \<and> (pt_partition p, pt_start p, pt_end p) \<in> set lags \<and>
      pt_targetTopic p = FormatRemoteTopic (ps_policy ps) (r_Source (ps_cfg ps)) topic" if p: "p \<in> set (ct_parts ?c0)" for p
  proof -
    obtain pl where "pl \<in> set plan" "(case pl_ring pl of Ret rb \<Rightarrow> Some (start_partition now mv pl rb) | _ \<Rightarrow> None) = Some p"
      using p by (auto simp: start_catchup_def List.map_filter_def)
    then obtain rb where pl: "pl \<in> set plan" "pl_ring pl = Ret rb" "p = start_partition now mv pl rb" by (cases "pl_ring pl") auto
    obtain part s e where seg: "(part, s, e) \<in> set lags" "catchUpPartitionPipelined ps topic part s e = Some pl"
      using catch_up_plan [OF run(1) pl(1)] .
    have "pl_partition pl = part" "pl_start pl = s" "pl_end pl = e"
      "pl_targetTopic pl = FormatRemoteTopic (ps_policy ps) (r_Source (ps_cfg ps)) topic"
      using seg(2) by (auto simp: catchUpPartitionPipelined_def Let_def split: if_splits)
    with start_partition_inv [OF seg(2) pl(2) run(2)] seg(1) pl(3) show ?thesis by (simp add: start_partition_def)
  qed
  have "ct_cancelled ?c0 = False" by (simp add: start_catchup_def)
  then have inv: "list_all (part_inv (ps_ringBufferCapacity ps) src L (ct_cancelled c)) (ct_parts c)"
    "map part_id (ct_parts c) = map part_id (ct_parts ?c0)"
    using catchup_reach_inv [OF reach, of "ps_ringBufferCapacity ps"] start by (simp_all add: list_all_iff)
  from inv(1) pt show "part_inv (ps_ringBufferCapacity ps) src L (ct_cancelled c) pt" by (simp add: list_all_iff)
  have "part_id pt \<in> set (map part_id (ct_parts ?c0))" using pt unfolding inv(2) [symmetric] by simp
  with start show "(pt_partition pt, pt_start pt, pt_end pt) \<in> set lags"
    "pt_targetTopic pt = FormatRemoteTopic (ps_policy ps) (r_Source (ps_cfg ps)) topic" by auto
qed

section \<open>Properties\<close>



text \<open>
  A catch-up that copies anything never returns. A drainer has finished only if it drained nothing; one that has
  drained a record, left its loop and waited for its callbacks crashes the process when it flushes its
  counters, because it passes four label values for counters of three labels.
\<close>

lemma catch_up_never_completes:
  assumes "CatchUpMultiPartition env newClient lags topic ps = (None, ps', plan)" and "0 < ps_workers ps"
    and "catchup_reach src L (start_catchup now mv topic ps' plan) c" and "pt \<in> set (ct_parts c)" and "pt_drained pt \<noteq> []"
  shows "pt_drain_pc pt \<noteq> DrainDone \<and>
    (pt_drain_pc pt = DrainWait \<and> pt_inflight pt = [] \<longrightarrow>
       finish_turn (ct_ps c) (ct_metrics c) pt = Some (Panic ''inconsistent label cardinality''))"
proof -
  have acc: "account_inv pt" using catch_up_inv(1) [OF assms(1-4)] by (simp add: part_inv_def)
  then have "0 < ds_periodRecs (pt_drain pt)" using assms(5) by (simp add: account_inv_def)
  with acc assms(5) show ?thesis by (auto simp: account_inv_def finish_turn_def drain_finish_def drain_flush_panics)
qed


section \<open>A run\<close>

text \<open>One partition with the offsets 10 and 11: connect, poll, put both, return, close, drain both, leave, two callbacks.\<close>

definition small_source :: ParallelSource where
  "small_source = \<lparr>ps_cfg = demo_flow, ps_srcCfg = \<lparr>cc_BootstrapServers = [''e:9092''], cc_SASL = None, cc_TLS = None\<rparr>,
     ps_tgtCfg = \<lparr>cc_BootstrapServers = [''w:9092''], cc_SASL = None, cc_TLS = None\<rparr>, ps_policy = IdentityPolicy,
     ps_workers = 2, ps_fetchMaxPartBytes = 1024, ps_ringBufferCapacity = 16, ps_totalBytes = 0, ps_totalRecords = 0,
     ps_dlq = None, ps_retryCfg = DefaultRetryConfig, ps_circuitBreaker = NewCircuitBreaker DefaultCircuitBreakerConfig\<rparr>"

definition ring3 :: OrderedRingBuffer where
  "ring3 = \<lparr>rb_slots = replicate 3 zero_slot, rb_capacity = 3, rb_drainOffset = 10, rb_closed = False\<rparr>"

definition small_plan :: pipeline where
  "small_plan = \<lparr>pl_partition = 0, pl_start = 10, pl_end = 12, pl_ring = Ret ring3, pl_targetTopic = ''orders'', pl_segments = [(0, 10, 12)]\<rparr>"

definition small_at :: "partition_run \<Rightarrow> catchup" where
  "small_at pt = \<lparr>ct_ps = small_source, ct_topic = ''orders'', ct_parts = [pt], ct_metrics = (\<lambda>_. 0), ct_cancelled = False, ct_crashed = None\<rparr>"

lemma small_at_simps [simp]:
  "ct_parts (small_at pt) = [pt]" "ct_crashed (small_at pt) = None" "ct_cancelled (small_at pt) = False" "ct_ps (small_at pt) = small_source"
  "ct_topic (small_at pt) = ''orders''" "ct_metrics (small_at pt) = (\<lambda>_. 0)" "set_part 0 pt' (small_at pt) = small_at pt'"
  "(small_at pt)\<lparr>ct_metrics := \<lambda>_. 0\<rparr> = small_at pt"
  by (simp_all add: small_at_def set_part_def)

lemma small_catch_up:
  "CatchUpMultiPartition offline_env (\<lambda>_. None) [(0, 10, 12)] ''orders'' small_source = (None, small_source, [small_plan])"
  by (simp add: CatchUpMultiPartition_def BuildClientOpts_def catchUpPartitionPipelined_def small_source_def ring_capacity_def
    NewOrderedRingBuffer_def ring3_def plan_segments_def segment_size_def go_div_def eval_nat_numeral List.map_filter_def small_plan_def)

abbreviation small_run :: "partition_run \<Rightarrow> bool" where
  "small_run pt \<equiv> catchup_reach (\<lambda>_. log_record) (\<lambda>_. {10, 11}) (start_catchup 0 (\<lambda>_. 0) ''orders'' small_source [small_plan]) (small_at pt)"

lemma small_start: "small_run (start_partition 0 (\<lambda>_. 0) small_plan ring3)"
proof -
  have "start_catchup 0 (\<lambda>_. 0) ''orders'' small_source [small_plan] = small_at (start_partition 0 (\<lambda>_. 0) small_plan ring3)"
    by (simp add: start_catchup_def small_at_def small_plan_def List.map_filter_def)
  then show ?thesis using catchup_start by metis
qed

definition small_put :: "Record list \<Rightarrow> OrderedRingBuffer \<Rightarrow> partition_run" where
  "small_put rest rb = (start_partition 0 (\<lambda>_. 0) small_plan ring3)\<lparr>pt_ring := rb, pt_fetchers :=
     [\<lparr>ft_id = 0, ft_from = 10, ft_to = 12, ft_pos = 12, ft_errs = 0, ft_pc = FetchPut [log_record 10, log_record 11] rest\<rparr>]\<rparr>"

lemma off_log_record: "off_of (log_record 10) = 10" "off_of (log_record 11) = 11"
  by (simp_all add: log_record_def sint_of_int64)

lemma small_polled: "small_run (small_put [log_record 10, log_record 11] ring3)"
proof -
  let ?pt = "start_partition 0 (\<lambda>_. 0) small_plan ring3"
  let ?f = "start_fetcher (0, 10, 12)"
  let ?p = "\<lparr>poll_ctx = None, poll_errors = [], poll_records = [log_record 10, log_record 11]\<rparr>"
  have pt: "pt_fetchers ?pt = [?f]" "pt_ring ?pt = ring3" "pt_partition ?pt = 0" by (simp_all add: start_partition_def small_plan_def)
  have "fetch_connect offline_env (\<lambda>_. None) small_source ''orders'' 0 10 = None"
    by (simp add: fetch_connect_def BuildClientOpts_def small_source_def)
  moreover have "ft_pc ?f = FetchStart" "ft_from ?f = 10" by (simp_all add: start_fetcher_def)
  ultimately have "catchup_step (\<lambda>_. log_record) (\<lambda>_. {10, 11}) (small_at ?pt)
      (set_part 0 (set_fetcher 0 (after_connect None ?f) (pt_ring ?pt) ?pt) (small_at ?pt))"
    by (intro cu_connect [where env = offline_env and newClient = "\<lambda>_. None"]) (simp_all add: pt)
  from catchup_next [OF small_start this] have r: "small_run (set_fetcher 0 (after_connect None ?f) ring3 ?pt)" by (simp add: pt)
  let ?pt1 = "set_fetcher 0 (after_connect None ?f) ring3 ?pt"
  have pt1: "pt_fetchers ?pt1 = [after_connect None ?f]" "pt_ring ?pt1 = ring3" "pt_partition ?pt1 = 0"
    by (simp_all add: set_fetcher_def pt after_connect_def failed_def)
  have "ft_pc (after_connect None ?f) = FetchPoll" "ft_pos (after_connect None ?f) = 10" by (simp_all add: after_connect_def start_fetcher_def)
  then have "catchup_step (\<lambda>_. log_record) (\<lambda>_. {10, 11}) (small_at ?pt1)
      (set_part 0 (set_fetcher 0 (after_poll ?p (after_connect None ?f)) (pt_ring ?pt1) ?pt1) (small_at ?pt1))"
    by (intro cu_poll) (simp_all add: pt1 next_records_def off_log_record)
  from catchup_next [OF r this] have "small_run (set_fetcher 0 (after_poll ?p (after_connect None ?f)) ring3 ?pt1)" by (simp add: pt1)
  moreover have "set_fetcher 0 (after_poll ?p (after_connect None ?f)) ring3 ?pt1 = small_put [log_record 10, log_record 11] ring3"
    by (simp add: small_put_def set_fetcher_def after_poll_def after_connect_def start_fetcher_def start_partition_def
      fetch_poll_def failed_def small_plan_def off_log_record)
  ultimately show ?thesis by metis
qed

definition small_returned :: "OrderedRingBuffer \<Rightarrow> partition_run" where
  "small_returned rb = (start_partition 0 (\<lambda>_. 0) small_plan ring3)\<lparr>pt_ring := rb, pt_fetchers :=
     [\<lparr>ft_id = 0, ft_from = 10, ft_to = 12, ft_pos = 12, ft_errs = 0, ft_pc = FetchReturned None\<rparr>]\<rparr>"

lemma small_put_next:
  assumes "small_run (small_put rest rb)" "fetch_put None (hd (pt_fetchers (small_put rest rb))) rb = Some (Ret (f', rb'))"
  shows "small_run (set_fetcher 0 f' rb' (small_put rest rb))"
proof -
  have "pt_fetchers (small_put rest rb) \<noteq> []" "pt_ring (small_put rest rb) = rb" by (simp_all add: small_put_def)
  with assms(2) have "catchup_step (\<lambda>_. log_record) (\<lambda>_. {10, 11}) (small_at (small_put rest rb))
      (set_part 0 (set_fetcher 0 f' rb' (small_put rest rb)) (small_at (small_put rest rb)))"
    by (intro cu_put) (simp_all add: hd_conv_nth)
  from catchup_next [OF assms(1) this] show ?thesis by simp
qed

definition ring3_full :: OrderedRingBuffer where
  "ring3_full = fill_slot 11 (log_record 11) (fill_slot 10 (log_record 10) ring3)"

lemma small_all_put: "small_run (small_returned ring3_full)"
proof -
  let ?r1 = "fill_slot 10 (log_record 10) ring3" and ?set = "set_fetcher 0"
  note ev = small_put_def fetch_put_def off_log_record set_fetcher_def failed_def start_partition_def
  have "Put None 10 (log_record 10) ring3 = Ret (Some True, ?r1)" "Put None 11 (log_record 11) ?r1 = Ret (Some True, ring3_full)"
    by (simp_all add: ring3_def ring_eval ring3_full_def)
  note puts = this
  from small_put_next [OF small_polled] puts(1) have "small_run (small_put [log_record 11] ?r1)" by (simp add: ev)
  from small_put_next [OF this] puts(2) have "small_run (small_put [] ring3_full)" by (simp add: ev)
  from small_put_next [OF this] show ?thesis by (simp add: ev segment_done_def small_returned_def)
qed

lemma ring3_drained:
  "\<exists>rb. DrainBatch None 512 (Close ring3_full) = Ret (Some ([Some (log_record 10), Some (log_record 11)], True), rb) \<and>
    rb_drainOffset rb = 12 \<and> DrainBatch None 512 rb = Ret (Some ([], False), rb)"
proof -
  let ?r = "Close ring3_full"
  have "\<exists>rb. drain_loop (Suc (Suc (Suc n))) 10 ?r = ([Some (log_record 10), Some (log_record 11)], rb) \<and>
      rb_drainOffset rb = 10 \<and> rb_capacity rb = 3 \<and> rb_closed rb \<and> sl_state (slot_at (rb\<lparr>rb_drainOffset := 12\<rparr>) 12) = slotEmpty" for n
    by (simp add: ring3_def ring3_full_def ring_eval eval_nat_numeral)
  from this [of 509] obtain rb where "drain_loop 512 10 ?r = ([Some (log_record 10), Some (log_record 11)], rb)"
    "rb_drainOffset rb = 10" "rb_capacity rb = 3" "rb_closed rb" "sl_state (slot_at (rb\<lparr>rb_drainOffset := 12\<rparr>) 12) = slotEmpty"
    by auto
  moreover have "rb_drainOffset ?r = 10" "rb_capacity ?r = 3" "sl_state (slot_at ?r 10) = slotFilled"
    by (simp_all add: ring3_def ring3_full_def ring_eval eval_nat_numeral)
  ultimately show ?thesis by (intro exI [of _ "rb\<lparr>rb_drainOffset := 12\<rparr>"]) (simp add: DrainBatch_def)
qed

lemma small_drain:
  assumes "small_run pt" "drain_turn small_source False 0 (\<lambda>_. 0) pt = Some (Ret (\<lambda>_. 0, pt'))"
  shows "small_run pt'"
proof -
  have "catchup_step (\<lambda>_. log_record) (\<lambda>_. {10, 11}) (small_at pt) ((set_part 0 pt' (small_at pt))\<lparr>ct_metrics := \<lambda>_. 0\<rparr>)"
    using assms(2) by (intro cu_drain) simp_all
  from catchup_next [OF assms(1) this] show ?thesis by simp
qed

lemma small_callback:
  assumes "small_run pt" "r \<in> set (pt_inflight pt)" "ds_metrics (pt_drain pt) = (\<lambda>_. 0)"
  shows "small_run (pt\<lparr>pt_inflight := remove1 r (pt_inflight pt), pt_acked := pt_acked pt @ [r]\<rparr>)"
proof -
  let ?pt' = "pt\<lparr>pt_inflight := remove1 r (pt_inflight pt), pt_acked := pt_acked pt @ [r]\<rparr>"
  have "(pt_drain pt)\<lparr>ds_metrics := (\<lambda>_. 0)\<rparr> = pt_drain pt" using assms(3) by (metis drain_state.surjective drain_state.update_convs(7))
  then have "callback_turn small_source ''orders'' env None r (\<lambda>_. 0) pt = Ret (\<lambda>_. 0, ?pt')" for env
    using assms(3) by (simp add: callback_turn_def drain_callback_def produce_lost_def)
  then have "catchup_step (\<lambda>_. log_record) (\<lambda>_. {10, 11}) (small_at pt) ((set_part 0 ?pt' (small_at pt))\<lparr>ct_metrics := \<lambda>_. 0\<rparr>)"
    using assms(2) by (intro cu_callback [where err = None]) simp_all
  from catchup_next [OF assms(1) this] show ?thesis by simp
qed

lemma small_end:
  "\<exists>pt. small_run pt \<and> part_id pt = (0, 10, 12, ''orders'') \<and> pt_drained pt = [log_record 10, log_record 11] \<and>
    \<not> pt_fetcherFailed pt \<and> pt_drain_pc pt = DrainWait \<and> pt_inflight pt = [] \<and> rb_drainOffset (pt_ring pt) = 12"
proof -
  obtain rb where rb: "DrainBatch None 512 (Close ring3_full) = Ret (Some ([Some (log_record 10), Some (log_record 11)], True), rb)"
    "rb_drainOffset rb = 12" "DrainBatch None 512 rb = Ret (Some ([], False), rb)"
    using ring3_drained by blast
  let ?p0 = "close_buffer (small_returned ring3_full)"
  have "catchup_step (\<lambda>_. log_record) (\<lambda>_. {10, 11}) (small_at (small_returned ring3_full))
      (set_part 0 (close_buffer (small_returned ring3_full)) (small_at (small_returned ring3_full)))"
    by (intro cu_close) (simp_all add: small_returned_def returned_def)
  from catchup_next [OF small_all_put this] have r0: "small_run ?p0" by simp
  have p0: "pt_drain_pc ?p0 = Draining" "pt_ring ?p0 = Close ring3_full" "pt_drain ?p0 = drain_start 0 (\<lambda>_. 0)" "pt_drained ?p0 = []"
    "pt_inflight ?p0 = []" "pt_acked ?p0 = []" "part_id ?p0 = (0, 10, 12, ''orders'')" "pt_fetcherFailed ?p0 = False"
    by (simp_all add: close_buffer_def small_returned_def start_partition_def small_plan_def)
  let ?batch = "[Some (log_record 10), Some (log_record 11)]"
  define ds where "ds = foldl (drain_one ''orders'' 0) (drain_start 0 (\<lambda>_. 0)) (map the ?batch)"
  have ds: "ds_metrics ds = (\<lambda>_. 0)" by (simp add: ds_def drain_one_def drain_start_def Let_def)
  have b: "drain_batch small_source ''orders'' 0 ?batch 0 ((drain_start 0 (\<lambda>_. 0))\<lparr>ds_metrics := \<lambda>_. 0\<rparr>) = Ret ds"
    by (simp add: drain_batch_def ds_def drain_one_def drain_start_def Let_def Second_def)
  define p1 where "p1 = ?p0\<lparr>pt_ring := rb, pt_drain := ds, pt_drained := [log_record 10, log_record 11], pt_inflight := [log_record 10, log_record 11]\<rparr>"
  have "drain_turn small_source False 0 (\<lambda>_. 0) ?p0 = Some (Ret (\<lambda>_. 0, p1))"
    using rb(1) b p0 ds by (simp add: drain_turn_def p1_def)
  from small_drain [OF r0 this] have r1: "small_run p1" .
  have "drain_turn small_source False 0 (\<lambda>_. 0) p1 = Some (Ret (\<lambda>_. 0, p1\<lparr>pt_drain_pc := DrainWait\<rparr>))"
    using rb(3) p0(1) by (simp add: drain_turn_def p1_def)
  from small_drain [OF r1 this] have r2: "small_run (p1\<lparr>pt_drain_pc := DrainWait\<rparr>)" .
  from small_callback [OF r2, of "log_record 10"] have r3: "small_run (p1\<lparr>pt_drain_pc := DrainWait, pt_inflight := [log_record 11], pt_acked := [log_record 10]\<rparr>)"
    using p0(6) ds by (simp add: p1_def)
  from small_callback [OF r3, of "log_record 11"] have "small_run (p1\<lparr>pt_drain_pc := DrainWait, pt_inflight := [], pt_acked := [log_record 10, log_record 11]\<rparr>)"
    using ds by (simp add: p1_def)
  then show ?thesis using p0 rb(2)
    by (intro exI [of _ "p1\<lparr>pt_drain_pc := DrainWait, pt_inflight := [], pt_acked := [log_record 10, log_record 11]\<rparr>"]) (simp add: p1_def)
qed



lemma catch_up_never_completes_example:
  "\<exists>pt. small_run pt \<and> finish_turn small_source (\<lambda>_. 0) pt = Some (Panic ''inconsistent label cardinality'')"
proof -
  obtain pt where pt: "small_run pt" "pt_drained pt = [log_record 10, log_record 11]" "pt_inflight pt = []" "pt_drain_pc pt = DrainWait"
    using small_end by blast
  have "0 < ps_workers small_source" by (simp add: small_source_def)
  from catch_up_never_completes [OF small_catch_up this pt(1), of pt] pt show ?thesis by (intro exI [of _ pt]) simp
qed


end
