(* ===== verification/Ring_Concurrency.thy ===== *)
theory Ring_Concurrency
  imports Ring_Buffer
begin

text \<open>
  The ring buffer of \<open>internal/mirror/ring_buffer.go\<close> at the level of its atomic operations. In the theory
  \<open>Ring_Buffer\<close> each call is one function; here each load, store, compare-and-swap, lock and
  condition-variable operation of \<open>Put\<close>, \<open>DrainBatch\<close> and \<open>Close\<close> is a step of its own, and the goroutines
  interleave between any two of them. The theory shows that a call which is not disturbed does what
  the function of \<open>Ring_Buffer\<close> does, that the lock-free path keeps the order when the puts stay in one
  window, and that a wakeup can be lost.
\<close>

section \<open>The shared state\<close>

text \<open>
  The buffer, the mutex, the notify list of the condition variable (those who wait and were not notified, in the
  order they began to wait) and \<open>ctx.Err()\<close>. \<open>cond.Wait()\<close> joins the list while the mutex is still held,
  then unlocks, sleeps until it is off the list, and locks again; \<open>Signal\<close> takes the first off the list and \<open>Broadcast\<close> all.
\<close>

datatype tid = Drainer | Fetcher nat

record shared =
  sh_ring :: OrderedRingBuffer
  sh_lock :: "tid option"
  sh_notify :: "tid list"
  sh_ctxErr :: "go_error option"

definition set_slot :: "int \<Rightarrow> (ringSlot \<Rightarrow> ringSlot) \<Rightarrow> shared \<Rightarrow> shared" where
  "set_slot off f sh = sh\<lparr>sh_ring := (sh_ring sh)\<lparr>rb_slots :=
     (rb_slots (sh_ring sh))[slotIndex (sh_ring sh) off := f (slot_at (sh_ring sh) off)]\<rparr>\<rparr>"

definition state_of :: "shared \<Rightarrow> int \<Rightarrow> slotState" where
  "state_of sh off = sl_state (slot_at (sh_ring sh) off)"

definition cond_Signal :: "shared \<Rightarrow> shared" where
  "cond_Signal sh = sh\<lparr>sh_notify := tl (sh_notify sh)\<rparr>"

definition cond_Broadcast :: "shared \<Rightarrow> shared" where
  "cond_Broadcast sh = sh\<lparr>sh_notify := []\<rparr>"

section \<open>Put\<close>

text \<open>Where a call of \<open>Put\<close> is: before the operation that the name says.\<close>

datatype put_pc =
    PutLoad | PutRecord | PutOffset | PutCAS
  | PutLock | PutLoopState | PutLoopClosed | PutLoopCtx | PutWait | PutRelease | PutAsleep | PutUnlock
  | PutClosed | PutCtx | PutStoreRecord | PutStoreOffset | PutStore
  | PutSignal | PutReturn bool

text \<open>The next operation of a call. \<open>None\<close>: it is blocked on the mutex or asleep, or has returned.\<close>

fun put_act :: "tid \<Rightarrow> int \<Rightarrow> Record \<Rightarrow> put_pc \<Rightarrow> shared \<Rightarrow> (put_pc \<times> shared) option" where
  "put_act me off r PutLoad sh = Some (if state_of sh off = slotEmpty then PutRecord else PutLock, sh)"
| "put_act me off r PutRecord sh = Some (PutOffset, set_slot off (\<lambda>s. s\<lparr>sl_record := Some r\<rparr>) sh)"
| "put_act me off r PutOffset sh = Some (PutCAS, set_slot off (\<lambda>s. s\<lparr>sl_offset := off\<rparr>) sh)"
| "put_act me off r PutCAS sh =
     Some (if state_of sh off = slotEmpty then (PutSignal, set_slot off (\<lambda>s. s\<lparr>sl_state := slotFilled\<rparr>) sh) else (PutLock, sh))"
| "put_act me off r PutLock sh = (if sh_lock sh = None then Some (PutLoopState, sh\<lparr>sh_lock := Some me\<rparr>) else None)"
| "put_act me off r PutLoopState sh = Some (if state_of sh off \<noteq> slotEmpty then PutLoopClosed else PutUnlock, sh)"
| "put_act me off r PutLoopClosed sh = Some (if rb_closed (sh_ring sh) then PutUnlock else PutLoopCtx, sh)"
| "put_act me off r PutLoopCtx sh = Some (if sh_ctxErr sh \<noteq> None then PutUnlock else PutWait, sh)"
| "put_act me off r PutWait sh = Some (PutRelease, sh\<lparr>sh_notify := sh_notify sh @ [me]\<rparr>)"
| "put_act me off r PutRelease sh = Some (PutAsleep, sh\<lparr>sh_lock := None\<rparr>)"
| "put_act me off r PutAsleep sh =
     (if me \<in> set (sh_notify sh) \<or> sh_lock sh \<noteq> None then None else Some (PutLoopState, sh\<lparr>sh_lock := Some me\<rparr>))"
| "put_act me off r PutUnlock sh = Some (PutClosed, sh\<lparr>sh_lock := None\<rparr>)"
| "put_act me off r PutClosed sh = Some (if rb_closed (sh_ring sh) then PutReturn False else PutCtx, sh)"
| "put_act me off r PutCtx sh = Some (if sh_ctxErr sh \<noteq> None then PutReturn False else PutStoreRecord, sh)"
| "put_act me off r PutStoreRecord sh = Some (PutStoreOffset, set_slot off (\<lambda>s. s\<lparr>sl_record := Some r\<rparr>) sh)"
| "put_act me off r PutStoreOffset sh = Some (PutStore, set_slot off (\<lambda>s. s\<lparr>sl_offset := off\<rparr>) sh)"
| "put_act me off r PutStore sh = Some (PutSignal, set_slot off (\<lambda>s. s\<lparr>sl_state := slotFilled\<rparr>) sh)"
| "put_act me off r PutSignal sh = Some (PutReturn True, cond_Signal sh)"
| "put_act me off r (PutReturn ok) sh = None"

section \<open>DrainBatch\<close>

text \<open>The locals of the call: \<open>nextOffset\<close>, the batch so far, and the record just read.\<close>

datatype drain_call =
    DrainLoad | DrainLock int | DrainLoopState int | DrainLoopClosed int | DrainLoopCtx int | DrainJoin int | DrainRelease int
  | DrainAsleep int | DrainUnlock int | DrainClosed int | DrainClosedState int | DrainCtx int
  | DrainTest int "Record option list" | DrainRead int "Record option list"
  | DrainNil int "Record option list" "Record option" | DrainFree int "Record option list" "Record option"
  | DrainAdvance "Record option list" | DrainBroadcast "Record option list" | DrainReturn "Record option list" bool

fun drain_act :: "int \<Rightarrow> drain_call \<Rightarrow> shared \<Rightarrow> (drain_call \<times> shared) option" where
  "drain_act maxBatch DrainLoad sh = Some (DrainLock (rb_drainOffset (sh_ring sh)), sh)"
| "drain_act maxBatch (DrainLock n) sh = (if sh_lock sh = None then Some (DrainLoopState n, sh\<lparr>sh_lock := Some Drainer\<rparr>) else None)"
| "drain_act maxBatch (DrainLoopState n) sh = Some (if state_of sh n \<noteq> slotFilled then DrainLoopClosed n else DrainUnlock n, sh)"
| "drain_act maxBatch (DrainLoopClosed n) sh = Some (if rb_closed (sh_ring sh) then DrainUnlock n else DrainLoopCtx n, sh)"
| "drain_act maxBatch (DrainLoopCtx n) sh = Some (if sh_ctxErr sh \<noteq> None then DrainUnlock n else DrainJoin n, sh)"
| "drain_act maxBatch (DrainJoin n) sh = Some (DrainRelease n, sh\<lparr>sh_notify := sh_notify sh @ [Drainer]\<rparr>)"
| "drain_act maxBatch (DrainRelease n) sh = Some (DrainAsleep n, sh\<lparr>sh_lock := None\<rparr>)"
| "drain_act maxBatch (DrainAsleep n) sh =
     (if Drainer \<in> set (sh_notify sh) \<or> sh_lock sh \<noteq> None then None else Some (DrainLoopState n, sh\<lparr>sh_lock := Some Drainer\<rparr>))"
| "drain_act maxBatch (DrainUnlock n) sh = Some (DrainClosed n, sh\<lparr>sh_lock := None\<rparr>)"
| "drain_act maxBatch (DrainClosed n) sh = Some (if rb_closed (sh_ring sh) then DrainClosedState n else DrainCtx n, sh)"
| "drain_act maxBatch (DrainClosedState n) sh = Some (if state_of sh n \<noteq> slotFilled then DrainReturn [] False else DrainCtx n, sh)"
| "drain_act maxBatch (DrainCtx n) sh = Some (if sh_ctxErr sh \<noteq> None then DrainReturn [] False else DrainTest n [], sh)"
| "drain_act maxBatch (DrainTest n b) sh =
     Some (if int (length b) < (if maxBatch \<le> 0 then 256 else maxBatch) \<and> state_of sh (n + int (length b)) = slotFilled
           then DrainRead n b else DrainAdvance b, sh)"
| "drain_act maxBatch (DrainRead n b) sh = Some (DrainNil n b (sl_record (slot_at (sh_ring sh) (n + int (length b)))), sh)"
| "drain_act maxBatch (DrainNil n b rec) sh = Some (DrainFree n b rec, set_slot (n + int (length b)) (\<lambda>s. s\<lparr>sl_record := None\<rparr>) sh)"
| "drain_act maxBatch (DrainFree n b rec) sh =
     Some (DrainTest n (b @ [rec]), set_slot (n + int (length b)) (\<lambda>s. s\<lparr>sl_state := slotEmpty\<rparr>) sh)"
| "drain_act maxBatch (DrainAdvance b) sh =
     Some (DrainBroadcast b, sh\<lparr>sh_ring := (sh_ring sh)\<lparr>rb_drainOffset := rb_drainOffset (sh_ring sh) + int (length b)\<rparr>\<rparr>)"
| "drain_act maxBatch (DrainBroadcast b) sh = Some (DrainReturn b True, cond_Broadcast sh)"
| "drain_act maxBatch (DrainReturn b ok) sh = None"

section \<open>Close, and the goroutines of a partition\<close>

datatype close_pc = CloseStore | CloseBroadcast | CloseReturn

fun close_act :: "close_pc \<Rightarrow> shared \<Rightarrow> (close_pc \<times> shared) option" where
  "close_act CloseStore sh = Some (CloseBroadcast, sh\<lparr>sh_ring := (sh_ring sh)\<lparr>rb_closed := True\<rparr>\<rparr>)"
| "close_act CloseBroadcast sh = Some (CloseReturn, cond_Broadcast sh)"
| "close_act CloseReturn sh = None"

text \<open>
  A fetcher puts its offsets one after the other and stops when \<open>Put\<close> refuses; the first offset of its list is
  the one being put. The drainer calls \<open>DrainBatch\<close> until it gets nothing. When all fetchers are done the
  coordinator closes the buffer.
\<close>

record ring_sys =
  rg_shared :: shared
  rg_fetchers :: "(int list \<times> put_pc) list"
  rg_drainer :: drain_call
  rg_out :: "Record option list"
  rg_closer :: close_pc

datatype turn = TurnPut nat | TurnDrain | TurnClose | TurnCancel

definition fetcher_act :: "(int \<Rightarrow> Record) \<Rightarrow> nat \<Rightarrow> int list \<times> put_pc \<Rightarrow> shared \<Rightarrow> ((int list \<times> put_pc) \<times> shared) option" where
  "fetcher_act src j f sh =
     (case f of
        ([], _) \<Rightarrow> None
      | (off # rest, PutReturn ok) \<Rightarrow> Some ((if ok then rest else [], PutLoad), sh)
      | (off # rest, pc) \<Rightarrow> map_option (\<lambda>(pc', sh'). ((off # rest, pc'), sh')) (put_act (Fetcher j) off (src off) pc sh))"

definition drainer_act :: "drain_call \<Rightarrow> shared \<Rightarrow> Record option list \<Rightarrow> (drain_call \<times> shared \<times> Record option list) option" where
  "drainer_act pc sh out =
     (case pc of
        DrainReturn b ok \<Rightarrow>
          if \<not> ok \<or> b = [] then None
          else Some (if sh_ctxErr sh \<noteq> None then DrainReturn [] False else DrainLoad, sh, out @ b)
      | _ \<Rightarrow> map_option (\<lambda>(pc', sh'). (pc', sh', out)) (drain_act 512 pc sh))"

definition take_turn :: "(int \<Rightarrow> Record) \<Rightarrow> turn \<Rightarrow> ring_sys \<Rightarrow> ring_sys option" where
  "take_turn src t g =
     (case t of
        TurnPut j \<Rightarrow>
          if j < length (rg_fetchers g)
          then map_option (\<lambda>(f, sh). g\<lparr>rg_shared := sh, rg_fetchers := (rg_fetchers g)[j := f]\<rparr>)
                 (fetcher_act src j (rg_fetchers g ! j) (rg_shared g))
          else None
      | TurnDrain \<Rightarrow>
          map_option (\<lambda>(pc, sh, out). g\<lparr>rg_shared := sh, rg_drainer := pc, rg_out := out\<rparr>)
            (drainer_act (rg_drainer g) (rg_shared g) (rg_out g))
      | TurnClose \<Rightarrow>
          if list_all (\<lambda>f. fst f = []) (rg_fetchers g)
          then map_option (\<lambda>(pc, sh). g\<lparr>rg_shared := sh, rg_closer := pc\<rparr>) (close_act (rg_closer g) (rg_shared g))
          else None
      | TurnCancel \<Rightarrow> Some (g\<lparr>rg_shared := (rg_shared g)\<lparr>sh_ctxErr := Some Canceled\<rparr>\<rparr>))"

definition start_sys :: "OrderedRingBuffer \<Rightarrow> int list list \<Rightarrow> ring_sys" where
  "start_sys rb offs = \<lparr>rg_shared = \<lparr>sh_ring = rb, sh_lock = None, sh_notify = [], sh_ctxErr = None\<rparr>,
     rg_fetchers = map (\<lambda>os. (os, PutLoad)) offs, rg_drainer = DrainLoad, rg_out = [], rg_closer = CloseStore\<rparr>"

inductive sys_reach :: "(int \<Rightarrow> Record) \<Rightarrow> ring_sys \<Rightarrow> ring_sys \<Rightarrow> bool" for src g0 where
  sys_start: "sys_reach src g0 g0"
| sys_turn: "sys_reach src g0 g \<Longrightarrow> take_turn src t g = Some g' \<Longrightarrow> sys_reach src g0 g'"

section \<open>Lemmas: slots\<close>

definition slots_ok :: "shared \<Rightarrow> bool" where
  "slots_ok sh \<longleftrightarrow> 0 < rb_capacity (sh_ring sh) \<and> length (rb_slots (sh_ring sh)) = nat (rb_capacity (sh_ring sh))"

lemma set_slot_simps [simp]:
  "rb_capacity (sh_ring (set_slot off f sh)) = rb_capacity (sh_ring sh)" "rb_closed (sh_ring (set_slot off f sh)) = rb_closed (sh_ring sh)"
  "rb_drainOffset (sh_ring (set_slot off f sh)) = rb_drainOffset (sh_ring sh)" "sh_lock (set_slot off f sh) = sh_lock sh"
  "sh_notify (set_slot off f sh) = sh_notify sh" "sh_ctxErr (set_slot off f sh) = sh_ctxErr sh"
  "slots_ok (set_slot off f sh) = slots_ok sh" "slotIndex (sh_ring (set_slot off f sh)) = slotIndex (sh_ring sh)"
  by (simp_all add: set_slot_def slots_ok_def)

lemma slot_at_ring_update [simp]:
  "slot_at (rb\<lparr>rb_drainOffset := d\<rparr>) = slot_at rb" "slot_at (rb\<lparr>rb_closed := c\<rparr>) = slot_at rb"
  by (simp_all add: slot_at_def fun_eq_iff)

lemma slot_at_set_slot:
  "slots_ok sh \<Longrightarrow> slot_at (sh_ring (set_slot off f sh)) off' =
     (if slotIndex (sh_ring sh) off' = slotIndex (sh_ring sh) off then f (slot_at (sh_ring sh) off) else slot_at (sh_ring sh) off')"
  using slotIndex_less [of "sh_ring sh" off] by (auto simp: set_slot_def slot_at_def slots_ok_def nth_list_update)

lemma slot_at_same [simp]: "slots_ok sh \<Longrightarrow> slot_at (sh_ring (set_slot off f sh)) off = f (slot_at (sh_ring sh) off)"
  by (simp add: slot_at_set_slot)

lemma slots_ok_update [simp]:
  "slots_ok (sh\<lparr>sh_lock := l\<rparr>) = slots_ok sh" "slots_ok (sh\<lparr>sh_notify := n\<rparr>) = slots_ok sh" "slots_ok (sh\<lparr>sh_ctxErr := e\<rparr>) = slots_ok sh"
  "slots_ok (sh\<lparr>sh_ring := (sh_ring sh)\<lparr>rb_drainOffset := d\<rparr>\<rparr>) = slots_ok sh"
  by (simp_all add: slots_ok_def)

lemma set_slot_fill:
  assumes "slots_ok sh"
  shows "set_slot off (\<lambda>s. s\<lparr>sl_state := slotFilled\<rparr>) (set_slot off (\<lambda>s. s\<lparr>sl_offset := off\<rparr>)
      (set_slot off (\<lambda>s. s\<lparr>sl_record := Some r\<rparr>) sh)) = sh\<lparr>sh_ring := fill_slot off r (sh_ring sh)\<rparr>"
  using slotIndex_less [of "sh_ring sh" off] assms by (simp add: set_slot_def slot_at_def fill_slot_def slots_ok_def)

lemma cond_simps [simp]:
  "sh_ring (cond_Signal sh) = sh_ring sh" "sh_lock (cond_Signal sh) = sh_lock sh" "sh_ctxErr (cond_Signal sh) = sh_ctxErr sh"
  "sh_ring (cond_Broadcast sh) = sh_ring sh" "sh_lock (cond_Broadcast sh) = sh_lock sh" "sh_ctxErr (cond_Broadcast sh) = sh_ctxErr sh"
  "sh_notify (cond_Signal sh) = tl (sh_notify sh)" "sh_notify (cond_Broadcast sh) = []"
  by (simp_all add: cond_Signal_def cond_Broadcast_def)

section \<open>Lemmas: calls that are not disturbed\<close>

text \<open>A call that runs alone for at most so many operations.\<close>

fun run_call :: "nat \<Rightarrow> ('pc \<Rightarrow> shared \<Rightarrow> ('pc \<times> shared) option) \<Rightarrow> 'pc \<Rightarrow> shared \<Rightarrow> 'pc \<times> shared" where
  "run_call 0 act pc sh = (pc, sh)"
| "run_call (Suc n) act pc sh = (case act pc sh of None \<Rightarrow> (pc, sh) | Some (pc', sh') \<Rightarrow> run_call n act pc' sh')"

text \<open>Where an undisturbed \<open>Put\<close> ends, and in which state: it returns or sleeps, and then has joined the notify list.\<close>

definition put_end :: "tid \<Rightarrow> shared \<Rightarrow> bool option \<times> OrderedRingBuffer \<Rightarrow> put_pc \<times> shared" where
  "put_end me sh res =
     (case res of
        (Some ok, rb) \<Rightarrow> (PutReturn ok, sh\<lparr>sh_ring := rb, sh_notify := (if ok then tl (sh_notify sh) else sh_notify sh)\<rparr>)
      | (None, rb) \<Rightarrow> (PutAsleep, sh\<lparr>sh_ring := rb, sh_notify := sh_notify sh @ [me]\<rparr>))"

lemma shared_self [simp]: "sh_ring sh = rb \<Longrightarrow> sh\<lparr>sh_ring := rb\<rparr> = sh" "sh_lock sh = l \<Longrightarrow> sh\<lparr>sh_lock := l\<rparr> = sh"
  by auto

lemma put_undisturbed:
  assumes "slots_ok sh" "sh_lock sh = None" "Put (sh_ctxErr sh) off r (sh_ring sh) = Ret res"
  shows "run_call 8 (put_act me off r) PutLoad sh = put_end me sh res"
proof (cases "state_of sh off = slotEmpty")
  case True
  then have "res = (Some True, fill_slot off r (sh_ring sh))" using assms(1,3) by (simp add: Put_def state_of_def slots_ok_def)
  then show ?thesis using True assms set_slot_fill [OF assms(1), of off r]
    by (simp add: eval_nat_numeral state_of_def put_end_def cond_Signal_def)
next
  case False
  have lock: "sh\<lparr>sh_lock := Some me, sh_notify := n, sh_lock := None\<rparr> = sh\<lparr>sh_notify := n\<rparr>" "sh\<lparr>sh_lock := Some me, sh_lock := None\<rparr> = sh" for n
    using assms(2) by simp_all
  from False have "res = Put_slow (sh_ctxErr sh) off r (sh_ring sh)" using assms(1,3) by (simp add: Put_def state_of_def slots_ok_def)
  then show ?thesis using False assms(2) lock
    by (auto simp: eval_nat_numeral state_of_def put_end_def Put_slow_def)
qed

definition drain_end :: "shared \<Rightarrow> (Record option list \<times> bool) option \<times> OrderedRingBuffer \<Rightarrow> drain_call \<times> shared" where
  "drain_end sh res =
     (case res of
        (Some (batch, ok), rb) \<Rightarrow> (DrainReturn batch ok, sh\<lparr>sh_ring := rb, sh_notify := (if ok then [] else sh_notify sh)\<rparr>)
      | (None, rb) \<Rightarrow> (DrainAsleep (rb_drainOffset rb), sh\<lparr>sh_ring := rb, sh_notify := sh_notify sh @ [Drainer]\<rparr>))"

lemma run_call_stuck: "act pc sh = None \<Longrightarrow> run_call n act pc sh = (pc, sh)"
  by (cases n) simp_all

lemma run_call_add: "run_call (m + n) act pc sh = (let (pc', sh') = run_call m act pc sh in run_call n act pc' sh')"
proof (induction m arbitrary: pc sh)
  case (Suc m)
  then show ?case by (cases "act pc sh") (auto simp: run_call_stuck)
qed simp

lemma set_slot_clear:
  assumes "slots_ok sh"
  shows "set_slot off (\<lambda>s. s\<lparr>sl_state := slotEmpty\<rparr>) (set_slot off (\<lambda>s. s\<lparr>sl_record := None\<rparr>) sh) =
    sh\<lparr>sh_ring := (sh_ring sh)\<lparr>rb_slots := (rb_slots (sh_ring sh))[slotIndex (sh_ring sh) off :=
      (slot_at (sh_ring sh) off)\<lparr>sl_record := None, sl_state := slotEmpty\<rparr>]\<rparr>\<rparr>"
  using slotIndex_less [of "sh_ring sh" off] assms by (simp add: set_slot_def slot_at_def slots_ok_def)

text \<open>The loop over the slots, to the end of the call.\<close>

lemma drain_loop_undisturbed:
  assumes "slots_ok sh" "drain_loop m (d + int (length b)) (sh_ring sh) = (batch, rb')"
    "int (length b) + int m = (if maxBatch \<le> 0 then 256 else maxBatch)"
  shows "run_call (4 * m + 3) (drain_act maxBatch) (DrainTest d b) sh =
    (DrainReturn (b @ batch) True, sh\<lparr>sh_ring := rb'\<lparr>rb_drainOffset := rb_drainOffset rb' + int (length (b @ batch))\<rparr>, sh_notify := []\<rparr>)"
  using assms
proof (induction m arbitrary: b sh batch)
  case 0
  then show ?case by (simp add: eval_nat_numeral cond_Broadcast_def)
next
  case (Suc m)
  let ?off = "d + int (length b)" and ?max = "if maxBatch \<le> 0 then 256 else maxBatch"
  have more: "int (length b) < ?max" using Suc.prems(3) by linarith
  have fuel: "4 * Suc m + 3 = 4 + (4 * m + 3)" by simp
  show ?case
  proof (cases "state_of sh ?off = slotFilled")
    case False
    then have "batch = []" "rb' = sh_ring sh" using Suc.prems(2) by (auto simp: state_of_def)
    moreover have "run_call 3 (drain_act maxBatch) (DrainTest d b) sh =
        (DrainReturn b True, sh\<lparr>sh_ring := (sh_ring sh)\<lparr>rb_drainOffset := rb_drainOffset (sh_ring sh) + int (length b)\<rparr>, sh_notify := []\<rparr>)"
      using False by (simp add: eval_nat_numeral cond_Broadcast_def)
    moreover have "4 * Suc m + 3 = 3 + 4 * Suc m" by simp
    ultimately show ?thesis by (simp only: run_call_add) (simp add: run_call_stuck)
  next
    case True
    let ?rec = "sl_record (slot_at (sh_ring sh) ?off)"
    let ?sh = "set_slot ?off (\<lambda>s. s\<lparr>sl_state := slotEmpty\<rparr>) (set_slot ?off (\<lambda>s. s\<lparr>sl_record := None\<rparr>) sh)"
    obtain batch' where b': "drain_loop m (?off + 1) (sh_ring ?sh) = (batch', rb')" "batch = ?rec # batch'"
      using Suc.prems(2) True unfolding set_slot_clear [OF Suc.prems(1)] by (auto simp: state_of_def Let_def split: prod.splits)
    have "run_call 4 (drain_act maxBatch) (DrainTest d b) sh = (DrainTest d (b @ [?rec]), ?sh)"
      using True more by (simp add: eval_nat_numeral)
    moreover have "run_call (4 * m + 3) (drain_act maxBatch) (DrainTest d (b @ [?rec])) ?sh =
        (DrainReturn ((b @ [?rec]) @ batch') True, ?sh\<lparr>sh_ring := rb'\<lparr>rb_drainOffset := rb_drainOffset rb' + int (length ((b @ [?rec]) @ batch'))\<rparr>, sh_notify := []\<rparr>)"
      using Suc.prems(1,3) b'(1) by (intro Suc.IH) (simp_all add: ac_simps)
    ultimately show ?thesis unfolding fuel run_call_add using b'(2) by (simp add: set_slot_clear [OF Suc.prems(1)])
  qed
qed

lemma drain_undisturbed:
  assumes "slots_ok sh" "sh_lock sh = None" "DrainBatch (sh_ctxErr sh) maxBatch (sh_ring sh) = Ret res"
  shows "\<exists>n. run_call n (drain_act maxBatch) DrainLoad sh = drain_end sh res"
proof -
  let ?d = "rb_drainOffset (sh_ring sh)" and ?max = "if maxBatch \<le> 0 then 256 else maxBatch"
  have cap: "rb_capacity (sh_ring sh) \<noteq> 0" using assms(1) by (simp add: slots_ok_def)
  have lock: "sh\<lparr>sh_lock := Some Drainer, sh_notify := n, sh_lock := None\<rparr> = sh\<lparr>sh_notify := n\<rparr>"
    "sh\<lparr>sh_lock := Some Drainer, sh_lock := None\<rparr> = sh" for n using assms(2) by simp_all
  show ?thesis
  proof (cases "state_of sh ?d = slotFilled \<and> sh_ctxErr sh = None")
    case True
    obtain batch rb' where l: "drain_loop (nat ?max) ?d (sh_ring sh) = (batch, rb')" by fastforce
    then have res: "res = (Some (batch, True), rb'\<lparr>rb_drainOffset := rb_drainOffset rb' + int (length batch)\<rparr>)"
      using True assms(3) cap by (simp add: DrainBatch_def state_of_def Let_def)
    have "\<exists>k. run_call k (drain_act maxBatch) DrainLoad sh = (DrainTest ?d [], sh)"
      using True assms(2) lock(2) by (intro exI [of _ "if rb_closed (sh_ring sh) then 7 else 6"]) (simp add: eval_nat_numeral state_of_def)
    then obtain k where "run_call k (drain_act maxBatch) DrainLoad sh = (DrainTest ?d [], sh)" by blast
    then have "run_call (k + (4 * nat ?max + 3)) (drain_act maxBatch) DrainLoad sh = drain_end sh res"
      using drain_loop_undisturbed [OF assms(1), of "nat ?max" ?d "[]" batch rb' maxBatch] l res
      unfolding run_call_add by (simp add: drain_end_def)
    then show ?thesis by blast
  next
    case False
    then have "run_call 8 (drain_act maxBatch) DrainLoad sh = drain_end sh res"
      using assms(2,3) lock cap by (auto simp: eval_nat_numeral state_of_def drain_end_def DrainBatch_def Let_def split: if_splits)
    then show ?thesis by blast
  qed
qed

section \<open>A lost wakeup\<close>

fun run_turns :: "(int \<Rightarrow> Record) \<Rightarrow> turn list \<Rightarrow> ring_sys \<Rightarrow> ring_sys option" where
  "run_turns src [] g = Some g"
| "run_turns src (t # ts) g = Option.bind (take_turn src t g) (run_turns src ts)"

lemma run_turns_reach: "run_turns src ts g = Some g' \<Longrightarrow> sys_reach src g0 g \<Longrightarrow> sys_reach src g0 g'"
proof (induction ts arbitrary: g)
  case (Cons t ts)
  then show ?case using sys_turn [of src g0 g t] by (auto simp: bind_eq_Some_conv)
qed simp

lemma sys_reach_trans: "sys_reach src g1 g2 \<Longrightarrow> sys_reach src g0 g1 \<Longrightarrow> sys_reach src g0 g2"
  by (induction rule: sys_reach.induct) (auto intro: sys_turn)

text \<open>
  A state from which nothing but a cancellation can happen: the fetchers are done, the buffer is closed, and the
  drainer sleeps and is still to be notified.
\<close>

definition asleep_forever :: "ring_sys \<Rightarrow> bool" where
  "asleep_forever g \<longleftrightarrow> list_all (\<lambda>f. fst f = []) (rg_fetchers g) \<and> rg_closer g = CloseReturn \<and>
     (\<exists>n. rg_drainer g = DrainAsleep n) \<and> Drainer \<in> set (sh_notify (rg_shared g))"

lemma asleep_turn:
  assumes "asleep_forever g" "take_turn src t g = Some g'"
  shows "asleep_forever g' \<and> rg_out g' = rg_out g \<and> sh_ring (rg_shared g') = sh_ring (rg_shared g)"
proof (cases t)
  case (TurnPut j)
  have "fst (rg_fetchers g ! j) = []" if "j < length (rg_fetchers g)" using assms(1) that by (simp add: asleep_forever_def list_all_length)
  with TurnPut assms(2) show ?thesis by (auto simp: take_turn_def fetcher_act_def split: if_splits prod.splits)
qed (use assms in \<open>auto simp: asleep_forever_def take_turn_def drainer_act_def split: if_splits\<close>)

lemma asleep_reach: "sys_reach src g g' \<Longrightarrow> asleep_forever g \<Longrightarrow>
  asleep_forever g' \<and> rg_out g' = rg_out g \<and> sh_ring (rg_shared g') = sh_ring (rg_shared g)"
  by (induction rule: sys_reach.induct) (use asleep_turn in \<open>fastforce+\<close>)

definition lost_schedule :: "turn list" where
  "lost_schedule = replicate 5 TurnDrain @ replicate 6 (TurnPut 0) @ [TurnClose, TurnClose, TurnDrain, TurnDrain]"

lemma run_turns_append: "run_turns src (ts @ us) g = Option.bind (run_turns src ts g) (run_turns src us)"
  by (induction ts arbitrary: g) (auto split: Option.bind_split)

lemma lost_run:
  assumes "NewOrderedRingBuffer capacity s = Ret rb" "0 < capacity"
  shows "\<exists>g. run_turns src lost_schedule (start_sys rb [[s]]) = Some g \<and> asleep_forever g \<and> rg_out g = [] \<and>
    sh_ring (rg_shared g) = Close (fill_slot s (src s) rb)"
proof -
  note new = NewOrderedRingBuffer_ok [OF assms]
  let ?sh = "\<lparr>sh_ring = rb, sh_lock = Some Drainer, sh_notify = [], sh_ctxErr = None\<rparr>"
  let ?g1 = "(start_sys rb [[s]])\<lparr>rg_shared := ?sh, rg_drainer := DrainJoin s\<rparr>"
  let ?g2 = "?g1\<lparr>rg_shared := ?sh\<lparr>sh_ring := fill_slot s (src s) rb\<rparr>, rg_fetchers := [([], PutLoad)]\<rparr>"
  have ok: "slots_ok ?sh" using ring_ok_atD(1,2) [OF new(1) [unfolded ring_ok_def]] by (simp add: slots_ok_def)
  have is_open: "\<not> rb_closed rb" and empty: "sl_state (slot_at rb s) = slotEmpty"
    using assms slotIndex_less [of rb s] by (auto simp: NewOrderedRingBuffer_def slot_at_def zero_slot_def split: if_splits)
  have "run_turns src (replicate 5 TurnDrain) (start_sys rb [[s]]) = Some ?g1"
    using new(2) is_open empty by (simp add: eval_nat_numeral take_turn_def drainer_act_def start_sys_def state_of_def)
  moreover have "run_turns src (replicate 6 (TurnPut 0)) ?g1 = Some ?g2"
    using set_slot_fill [OF ok, of s "src s"] empty slot_at_same [OF ok]
    by (simp add: eval_nat_numeral take_turn_def fetcher_act_def start_sys_def state_of_def ok cond_Signal_def)
  moreover have "\<exists>g. run_turns src [TurnClose, TurnClose, TurnDrain, TurnDrain] ?g2 = Some g \<and> asleep_forever g \<and> rg_out g = [] \<and>
      sh_ring (rg_shared g) = Close (fill_slot s (src s) rb)"
    by (simp add: take_turn_def drainer_act_def start_sys_def asleep_forever_def Close_def)
  ultimately show ?thesis by (simp add: lost_schedule_def run_turns_append del: run_turns.simps)
qed

section \<open>Lemmas: the order under every interleaving\<close>

definition rec_of :: "shared \<Rightarrow> int \<Rightarrow> Record option" where
  "rec_of sh off = sl_record (slot_at (sh_ring sh) off)"

lemma set_slot_views:
  assumes "slots_ok sh" "s \<le> off" "off < s + rb_capacity (sh_ring sh)" "s \<le> k" "k < s + rb_capacity (sh_ring sh)"
  shows "state_of (set_slot off f sh) k = (if k = off then sl_state (f (slot_at (sh_ring sh) off)) else state_of sh k)"
    and "rec_of (set_slot off f sh) k = (if k = off then sl_record (f (slot_at (sh_ring sh) off)) else rec_of sh k)"
  using slotIndex_window [of "sh_ring sh" s k off] slot_at_set_slot [OF assms(1), of off f k] assms
  by (auto simp: state_of_def rec_of_def slots_ok_def)

text \<open>
  The slots when \<open>P\<close> is the next offset to be taken and \<open>U\<close> the offsets not yet put: a filled slot holds its own
  source record, unless it is the one the drainer is just clearing.
\<close>

definition slots_inv :: "(int \<Rightarrow> Record) \<Rightarrow> int \<Rightarrow> int \<Rightarrow> int \<Rightarrow> int set \<Rightarrow> bool \<Rightarrow> shared \<Rightarrow> bool" where
  "slots_inv src s e P U clearing sh \<longleftrightarrow> slots_ok sh \<and> e - s \<le> rb_capacity (sh_ring sh) \<and> s \<le> P \<and> P \<le> e \<and>
     (\<forall>k \<in> U. P \<le> k \<and> k < e) \<and>
     (\<forall>k. s \<le> k \<and> k < s + rb_capacity (sh_ring sh) \<longrightarrow> state_of sh k = slotEmpty \<or>
        state_of sh k = slotFilled \<and> P \<le> k \<and> k < e \<and> k \<notin> U \<and> (rec_of sh k = Some (src k) \<or> k = P \<and> clearing))"

lemma slots_invD:
  assumes "slots_inv src s e P U clearing sh"
  shows "slots_ok sh" "s \<le> P" "P \<le> e" "e \<le> s + rb_capacity (sh_ring sh)" "\<And>k. k \<in> U \<Longrightarrow> P \<le> k \<and> k < e"
    "\<And>k. k \<in> U \<Longrightarrow> state_of sh k = slotEmpty"
proof -
  show basic: "slots_ok sh" "s \<le> P" "P \<le> e" "e \<le> s + rb_capacity (sh_ring sh)" "\<And>k. k \<in> U \<Longrightarrow> P \<le> k \<and> k < e"
    using assms by (simp_all add: slots_inv_def)
  show "state_of sh k = slotEmpty" if "k \<in> U" for k
  proof -
    have "s \<le> k" "k < s + rb_capacity (sh_ring sh)" using basic(2-4) basic(5) [OF that] by linarith+
    then show ?thesis using assms that unfolding slots_inv_def by blast
  qed
qed

lemma slots_inv_write:
  assumes inv: "slots_inv src s e P U clearing sh" and "off \<in> U" and "\<And>x. sl_state (f x) = sl_state x"
  shows "slots_inv src s e P U clearing (set_slot off f sh)"
proof -
  note d = slots_invD [OF inv]
  have off: "s \<le> off" "off < s + rb_capacity (sh_ring sh)" "state_of sh off = slotEmpty" using d(2-6) assms(2) by force+
  have "state_of (set_slot off f sh) k = state_of sh k" "k \<noteq> off \<Longrightarrow> rec_of (set_slot off f sh) k = rec_of sh k"
    if "s \<le> k" "k < s + rb_capacity (sh_ring sh)" for k
    using set_slot_views [OF d(1) off(1,2) that, of f] assms(3) by (simp_all add: state_of_def)
  with inv off(3) show ?thesis unfolding slots_inv_def by (simp; metis slotState.distinct(1))
qed

lemma slots_inv_fill:
  assumes inv: "slots_inv src s e P U clearing sh" and "off \<in> U" "rec_of sh off = Some (src off)"
  shows "slots_inv src s e P (U - {off}) clearing (set_slot off (\<lambda>x. x\<lparr>sl_state := slotFilled\<rparr>) sh)"
proof -
  note d = slots_invD [OF inv]
  let ?sh = "set_slot off (\<lambda>x. x\<lparr>sl_state := slotFilled\<rparr>) sh"
  have off: "s \<le> off" "off < s + rb_capacity (sh_ring sh)" "P \<le> off" "off < e" using d(2-6) assms(2) by force+
  have "state_of ?sh k = (if k = off then slotFilled else state_of sh k)" "rec_of ?sh k = rec_of sh k"
    if "s \<le> k" "k < s + rb_capacity (sh_ring sh)" for k
    using set_slot_views [OF d(1) off(1,2) that, of "\<lambda>x. x\<lparr>sl_state := slotFilled\<rparr>"] by (simp_all add: rec_of_def)
  with inv off(3,4) assms(3) show ?thesis unfolding slots_inv_def by auto
qed

lemma slots_inv_clear:
  assumes inv: "slots_inv src s e P U False sh" and "state_of sh P = slotFilled" "P < e"
  shows "slots_inv src s e P U True (set_slot P (\<lambda>x. x\<lparr>sl_record := None\<rparr>) sh)"
    "state_of (set_slot P (\<lambda>x. x\<lparr>sl_record := None\<rparr>) sh) P = slotFilled"
proof -
  note d = slots_invD [OF inv]
  let ?sh = "set_slot P (\<lambda>x. x\<lparr>sl_record := None\<rparr>) sh"
  have P: "P < s + rb_capacity (sh_ring sh)" using assms(3) d(4) by linarith
  have views: "state_of ?sh k = state_of sh k" "k \<noteq> P \<Longrightarrow> rec_of ?sh k = rec_of sh k" if "s \<le> k" "k < s + rb_capacity (sh_ring sh)" for k
    using set_slot_views [OF d(1,2) P that, of "\<lambda>x. x\<lparr>sl_record := None\<rparr>"] by (simp_all add: state_of_def)
  with inv show "slots_inv src s e P U True ?sh" unfolding slots_inv_def by (simp; metis)
  show "state_of ?sh P = slotFilled" using views(1) [OF d(2) P] assms(2) by simp
qed

lemma slots_inv_free:
  assumes inv: "slots_inv src s e P U True sh" and "state_of sh P = slotFilled" "P < e"
  shows "slots_inv src s e (P + 1) U False (set_slot P (\<lambda>x. x\<lparr>sl_state := slotEmpty\<rparr>) sh)"
proof -
  note d = slots_invD [OF inv]
  let ?sh = "set_slot P (\<lambda>x. x\<lparr>sl_state := slotEmpty\<rparr>) sh"
  have P: "P < s + rb_capacity (sh_ring sh)" using assms(3) d(4) by linarith
  have "state_of ?sh k = (if k = P then slotEmpty else state_of sh k)" "rec_of ?sh k = rec_of sh k"
    if "s \<le> k" "k < s + rb_capacity (sh_ring sh)" for k
    using set_slot_views [OF d(1,2) P that, of "\<lambda>x. x\<lparr>sl_state := slotEmpty\<rparr>"] by (simp_all add: rec_of_def)
  moreover have "P + 1 \<le> k" if "k \<in> U" for k using d(5,6) [OF that] assms(2) by (cases "k = P") auto
  ultimately show ?thesis using inv assms(3) unfolding slots_inv_def by (auto; force)
qed

text \<open>At the end of the range the drainer looks at a slot that is empty.\<close>

lemma filled_in_range:
  assumes inv: "slots_inv src s e P U clearing sh" and "state_of sh P = slotFilled"
  shows "P < e"
proof (rule ccontr)
  assume "\<not> P < e"
  note d = slots_invD [OF inv]
  show False
  proof (cases "P < s + rb_capacity (sh_ring sh)")
    case True
    with inv assms(2) d(2) \<open>\<not> P < e\<close> show False unfolding slots_inv_def by force
  next
    case False
    then have "P = s + rb_capacity (sh_ring sh)" using d(3,4) by linarith
    moreover have cap: "0 < rb_capacity (sh_ring sh)" using d(1) by (simp add: slots_ok_def)
    ultimately have "state_of sh s = slotFilled" "s < P"
      using assms(2) by (simp_all add: state_of_def slot_at_def slotIndex_mod)
    with inv cap show False unfolding slots_inv_def by force
  qed
qed

text \<open>The offsets a fetcher has not put yet, and what its program counter implies.\<close>

definition unput :: "int list \<times> put_pc \<Rightarrow> int list" where
  "unput f = (case f of ([], _) \<Rightarrow> [] | (off # rest, PutSignal) \<Rightarrow> rest | (off # rest, PutReturn _) \<Rightarrow> rest | (off # rest, _) \<Rightarrow> off # rest)"

definition fetcher_inv :: "(int \<Rightarrow> Record) \<Rightarrow> shared \<Rightarrow> int list \<times> put_pc \<Rightarrow> bool" where
  "fetcher_inv src sh f \<longleftrightarrow> (case f of
      ([], _) \<Rightarrow> True
    | (off # rest, pc) \<Rightarrow> pc \<in> {PutLoad, PutRecord, PutSignal, PutReturn True} \<or>
        pc \<in> {PutOffset, PutCAS} \<and> rec_of sh off = Some (src off))"

lemma views_cond [simp]: "state_of (cond_Signal sh) = state_of sh" "rec_of (cond_Signal sh) = rec_of sh"
  "state_of (cond_Broadcast sh) = state_of sh" "rec_of (cond_Broadcast sh) = rec_of sh"
  "slots_ok (cond_Signal sh) = slots_ok sh" "slots_ok (cond_Broadcast sh) = slots_ok sh"
  by (simp_all add: state_of_def rec_of_def fun_eq_iff slots_ok_def)

lemma views_frame [simp]:
  "state_of (sh\<lparr>sh_lock := l\<rparr>) = state_of sh" "rec_of (sh\<lparr>sh_lock := l\<rparr>) = rec_of sh"
  "state_of (sh\<lparr>sh_notify := n\<rparr>) = state_of sh" "rec_of (sh\<lparr>sh_notify := n\<rparr>) = rec_of sh"
  "state_of (sh\<lparr>sh_ctxErr := e\<rparr>) = state_of sh" "rec_of (sh\<lparr>sh_ctxErr := e\<rparr>) = rec_of sh"
  "state_of (sh\<lparr>sh_ring := (sh_ring sh)\<lparr>rb_drainOffset := d\<rparr>\<rparr>) = state_of sh" "rec_of (sh\<lparr>sh_ring := (sh_ring sh)\<lparr>rb_drainOffset := d\<rparr>\<rparr>) = rec_of sh"
  "state_of (sh\<lparr>sh_ring := (sh_ring sh)\<lparr>rb_closed := c\<rparr>\<rparr>) = state_of sh" "rec_of (sh\<lparr>sh_ring := (sh_ring sh)\<lparr>rb_closed := c\<rparr>\<rparr>) = rec_of sh"
  by (simp_all add: state_of_def rec_of_def fun_eq_iff)

lemma slots_inv_frame [simp]:
  "slots_inv src s e P U cl (cond_Signal sh) = slots_inv src s e P U cl sh" "slots_inv src s e P U cl (cond_Broadcast sh) = slots_inv src s e P U cl sh"
  "slots_inv src s e P U cl (sh\<lparr>sh_lock := l\<rparr>) = slots_inv src s e P U cl sh" "slots_inv src s e P U cl (sh\<lparr>sh_notify := n\<rparr>) = slots_inv src s e P U cl sh"
  "slots_inv src s e P U cl (sh\<lparr>sh_ctxErr := er\<rparr>) = slots_inv src s e P U cl sh"
  "slots_inv src s e P U cl (sh\<lparr>sh_ring := (sh_ring sh)\<lparr>rb_drainOffset := d\<rparr>\<rparr>) = slots_inv src s e P U cl sh"
  "slots_inv src s e P U cl (sh\<lparr>sh_ring := (sh_ring sh)\<lparr>rb_closed := c\<rparr>\<rparr>) = slots_inv src s e P U cl sh"
  by (simp_all add: slots_inv_def slots_ok_def)

lemma fetcher_step:
  assumes inv: "slots_inv src s e P U cl sh" and f: "set (unput f) \<subseteq> U" "fetcher_inv src sh f"
    and act: "fetcher_act src j f sh = Some (f', sh')"
  shows "\<exists>D. unput f = D @ unput f' \<and> slots_inv src s e P (U - set D) cl sh'" "fetcher_inv src sh' f'"
    "rb_drainOffset (sh_ring sh') = rb_drainOffset (sh_ring sh)"
    "\<And>k. s \<le> k \<Longrightarrow> k < s + rb_capacity (sh_ring sh) \<Longrightarrow> k \<notin> set (unput f) \<Longrightarrow>
      state_of sh' k = state_of sh k \<and> rec_of sh' k = rec_of sh k"
proof -
  obtain off rest pc where fs: "f = (off # rest, pc)"
    using act by (cases f; cases "fst f") (auto simp: fetcher_act_def)
  note d = slots_invD [OF inv]
  have off: "off \<in> U" "s \<le> off" "off < s + rb_capacity (sh_ring sh)" "state_of sh off = slotEmpty"
    if "pc \<notin> {PutSignal, PutReturn True}"
  proof -
    show "off \<in> U" using f that fs by (auto simp: unput_def fetcher_inv_def)
    from d(5,6) [OF this] d(2-4) show "s \<le> off" "off < s + rb_capacity (sh_ring sh)" "state_of sh off = slotEmpty" by linarith+
  qed
  show "\<exists>D. unput f = D @ unput f' \<and> slots_inv src s e P (U - set D) cl sh'"
    using f(2) act fs off(1) off(4) inv slots_inv_write [OF inv, of off] slots_inv_fill [OF inv, of off]
    by (intro exI [of _ "if pc = PutCAS then [off] else []"])
      (auto simp: fetcher_inv_def fetcher_act_def unput_def split: list.splits)
  show "fetcher_inv src sh' f'"
    using f(2) act fs off set_slot_views [OF d(1), of s off off]
    by (auto simp: fetcher_inv_def fetcher_act_def rec_of_def [of sh] split: list.splits)
  show "rb_drainOffset (sh_ring sh') = rb_drainOffset (sh_ring sh)"
    using f(2) act fs off(4) by (auto simp: fetcher_inv_def fetcher_act_def)
  show "state_of sh' k = state_of sh k \<and> rec_of sh' k = rec_of sh k"
    if "s \<le> k" "k < s + rb_capacity (sh_ring sh)" "k \<notin> set (unput f)" for k
    using f(2) act fs off set_slot_views [OF d(1), of s off k] that
    by (auto simp: fetcher_inv_def fetcher_act_def unput_def)
qed

text \<open>What the drainer has in hand: before and after it advances the drain position.\<close>

fun taken :: "drain_call \<Rightarrow> Record option list" where
  "taken (DrainTest n b) = b"
| "taken (DrainRead n b) = b"
| "taken (DrainNil n b r) = b"
| "taken (DrainFree n b r) = b"
| "taken (DrainAdvance b) = b"
| "taken _ = []"

fun kept :: "drain_call \<Rightarrow> Record option list" where
  "kept (DrainBroadcast b) = b"
| "kept (DrainReturn b ok) = b"
| "kept _ = []"

fun clearing :: "drain_call \<Rightarrow> bool" where
  "clearing (DrainFree n b r) = True"
| "clearing _ = False"

definition take_pos :: "drain_call \<Rightarrow> shared \<Rightarrow> int" where
  "take_pos pc sh = rb_drainOffset (sh_ring sh) + int (length (taken pc))"

definition drainer_inv :: "(int \<Rightarrow> Record) \<Rightarrow> shared \<Rightarrow> drain_call \<Rightarrow> bool" where
  "drainer_inv src sh pc \<longleftrightarrow> (let d = rb_drainOffset (sh_ring sh) in case pc of
      DrainLock n \<Rightarrow> n = d | DrainLoopState n \<Rightarrow> n = d | DrainLoopClosed n \<Rightarrow> n = d | DrainLoopCtx n \<Rightarrow> n = d | DrainJoin n \<Rightarrow> n = d
    | DrainRelease n \<Rightarrow> n = d | DrainAsleep n \<Rightarrow> n = d | DrainUnlock n \<Rightarrow> n = d | DrainClosed n \<Rightarrow> n = d | DrainClosedState n \<Rightarrow> n = d
    | DrainCtx n \<Rightarrow> n = d | DrainTest n b \<Rightarrow> n = d
    | DrainRead n b \<Rightarrow> n = d \<and> state_of sh (take_pos pc sh) = slotFilled
    | DrainNil n b r \<Rightarrow> n = d \<and> state_of sh (take_pos pc sh) = slotFilled \<and> r = Some (src (take_pos pc sh))
    | DrainFree n b r \<Rightarrow> n = d \<and> state_of sh (take_pos pc sh) = slotFilled \<and> r = Some (src (take_pos pc sh))
    | DrainReturn b ok \<Rightarrow> ok \<or> b = []
    | _ \<Rightarrow> True)"

text \<open>The slots that are being filled are not the one that the drainer works on.\<close>

lemma producer_slot_kept:
  assumes "slots_inv src s e n U c sh" "state_of sh n = slotFilled" "k \<in> U"
  shows "rec_of (set_slot n f sh) k = rec_of sh k"
proof -
  note d = slots_invD [OF assms(1)]
  have "k \<noteq> n" "s \<le> k" "k < s + rb_capacity (sh_ring sh)" using d(5,6) [OF assms(3)] d(2-4) assms(2) by auto
  then show ?thesis
    using set_slot_views(2) [OF d(1), of s n k] d(2,4) filled_in_range [OF assms(1,2)] by simp
qed

text \<open>The two writes of the drainer: the record pointer is cleared, then the slot is freed.\<close>

lemma drainer_clears:
  assumes inv: "slots_inv src s e (take_pos pc sh) U (clearing pc) sh" and dr: "drainer_inv src sh pc"
    and out: "out @ kept pc @ taken pc = map (Some \<circ> src) [s..take_pos pc sh - 1]"
    and act: "drainer_act pc sh out = Some (pc', sh', out')" and DrainNil: "pc = DrainNil n b r"
  shows "slots_inv src s e (take_pos pc' sh') U (clearing pc') sh' \<and> drainer_inv src sh' pc' \<and>
    out' @ kept pc' @ taken pc' = map (Some \<circ> src) [s..take_pos pc' sh' - 1] \<and>
    (\<forall>k \<in> U. rec_of sh' k = rec_of sh k)"
proof -
  note d = slots_invD [OF inv]
  let ?P = "take_pos pc sh"
  let ?sh = "set_slot ?P (\<lambda>x. x\<lparr>sl_record := None\<rparr>) sh"
  from DrainNil dr have filled: "state_of sh ?P = slotFilled" "n = rb_drainOffset (sh_ring sh)" "r = Some (src ?P)"
    by (auto simp: drainer_inv_def Let_def)
  have P: "n + int (length b) = ?P" using DrainNil filled(2) by (simp add: take_pos_def)
  have new: "pc' = DrainFree n b r" "sh' = ?sh" "out' = out" using act DrainNil P by (simp_all add: drainer_act_def)
  have lt: "?P < e" using filled_in_range [OF inv filled(1)] .
  have "rec_of ?sh k = rec_of sh k" if "k \<in> U" for k using producer_slot_kept [OF inv filled(1) that] by blast
  moreover have P': "take_pos pc' ?sh = ?P" using new(1) DrainNil by (simp add: take_pos_def)
  moreover have "slots_inv src s e ?P U False sh" using inv DrainNil by simp
  note clear = slots_inv_clear [OF this filled(1) lt]
  moreover have "drainer_inv src ?sh pc'" using clear(2) P' filled(2,3) unfolding new(1) by (simp add: drainer_inv_def)
  moreover have "kept pc' = kept pc" "taken pc' = taken pc" "clearing pc'" using new(1) DrainNil by simp_all
  ultimately show ?thesis using out unfolding new(2,3) by simp
qed

lemma drainer_frees:
  assumes inv: "slots_inv src s e (take_pos pc sh) U (clearing pc) sh" and dr: "drainer_inv src sh pc"
    and out: "out @ kept pc @ taken pc = map (Some \<circ> src) [s..take_pos pc sh - 1]"
    and act: "drainer_act pc sh out = Some (pc', sh', out')" and DrainFree: "pc = DrainFree n b r"
  shows "slots_inv src s e (take_pos pc' sh') U (clearing pc') sh' \<and> drainer_inv src sh' pc' \<and>
    out' @ kept pc' @ taken pc' = map (Some \<circ> src) [s..take_pos pc' sh' - 1] \<and>
    (\<forall>k \<in> U. rec_of sh' k = rec_of sh k)"
proof -
  note d = slots_invD [OF inv]
  let ?P = "take_pos pc sh"
  let ?sh = "set_slot ?P (\<lambda>x. x\<lparr>sl_state := slotEmpty\<rparr>) sh"
  from DrainFree dr have filled: "state_of sh ?P = slotFilled" "n = rb_drainOffset (sh_ring sh)" "r = Some (src ?P)"
    by (auto simp: drainer_inv_def Let_def)
  have P: "n + int (length b) = ?P" using DrainFree filled(2) by (simp add: take_pos_def)
  have new: "pc' = DrainTest n (b @ [r])" "sh' = ?sh" "out' = out" using act DrainFree P by (simp_all add: drainer_act_def)
  have lt: "?P < e" using filled_in_range [OF inv filled(1)] .
  have "rec_of ?sh k = rec_of sh k" if "k \<in> U" for k using producer_slot_kept [OF inv filled(1) that] by blast
  moreover have P': "take_pos pc' ?sh = ?P + 1" using new(1) DrainFree by (simp add: take_pos_def)
  moreover have "slots_inv src s e ?P U True sh" using inv DrainFree by simp
  note free = slots_inv_free [OF this filled(1) lt]
  moreover have "drainer_inv src ?sh pc'" using filled(2) unfolding new(1) by (simp add: drainer_inv_def)
  moreover have "out @ kept pc' @ taken pc' = map (Some \<circ> src) [s..?P]"
  proof -
    have "kept pc' = []" "taken pc' = taken pc @ [r]" "kept pc = []" using new(1) DrainFree by simp_all
    moreover have "map (Some \<circ> src) [s..?P] = map (Some \<circ> src) [s..?P - 1] @ [Some (src ?P)]" using d(2) by (simp add: upto_rec2)
    ultimately show ?thesis using out filled(3) by (simp only: append_assoc append_Nil flip: out)
  qed
  moreover have "\<not> clearing pc'" using new(1) by simp
  ultimately show ?thesis unfolding new(2,3) by simp
qed

lemma drainer_step:
  assumes inv: "slots_inv src s e (take_pos pc sh) U (clearing pc) sh" and dr: "drainer_inv src sh pc"
    and out: "out @ kept pc @ taken pc = map (Some \<circ> src) [s..take_pos pc sh - 1]"
    and act: "drainer_act pc sh out = Some (pc', sh', out')"
  shows "slots_inv src s e (take_pos pc' sh') U (clearing pc') sh' \<and> drainer_inv src sh' pc' \<and>
    out' @ kept pc' @ taken pc' = map (Some \<circ> src) [s..take_pos pc' sh' - 1] \<and>
    (\<forall>k \<in> U. rec_of sh' k = rec_of sh k)"
proof (cases pc)
  case (DrainRead n b)
  note d = slots_invD [OF inv]
  let ?P = "take_pos pc sh"
  have filled: "state_of sh ?P = slotFilled" "n = rb_drainOffset (sh_ring sh)" using dr DrainRead by (auto simp: drainer_inv_def Let_def)
  have "rec_of sh ?P = Some (src ?P)"
    using inv filled(1) d(2,4) filled_in_range [OF inv filled(1)] DrainRead unfolding slots_inv_def by force
  then show ?thesis using DrainRead act inv dr out
    by (auto simp: drainer_act_def drainer_inv_def take_pos_def rec_of_def)
next
  case (DrainNil n b r)
  then show ?thesis by (rule drainer_clears [OF inv dr out act])
next
  case (DrainFree n b r)
  then show ?thesis by (rule drainer_frees [OF inv dr out act])
next
  case (DrainTest n b)
  with act inv dr out show ?thesis
    by (auto simp: drainer_act_def drainer_inv_def take_pos_def Let_def split: if_splits)
qed (use act inv dr out in \<open>auto simp: drainer_act_def drainer_inv_def take_pos_def Let_def split: if_splits\<close>)

definition sys_inv :: "(int \<Rightarrow> Record) \<Rightarrow> int \<Rightarrow> int \<Rightarrow> ring_sys \<Rightarrow> bool" where
  "sys_inv src s e g \<longleftrightarrow> (let sh = rg_shared g; pc = rg_drainer g; us = map unput (rg_fetchers g) in
     slots_inv src s e (take_pos pc sh) (set (concat us)) (clearing pc) sh \<and> drainer_inv src sh pc \<and>
     rg_out g @ kept pc @ taken pc = map (Some \<circ> src) [s..take_pos pc sh - 1] \<and>
     distinct (concat us) \<and> list_all (fetcher_inv src sh) (rg_fetchers g))"

lemma concat_update_prefix:
  assumes "i < length xss" "xss ! i = ys @ xs" "distinct (concat xss)"
  shows "distinct (concat (xss[i := xs]))" "set (concat (xss[i := xs])) = set (concat xss) - set ys" "set (ys @ xs) \<subseteq> set (concat xss)"
proof -
  have split: "xss = take i xss @ (ys @ xs) # drop (Suc i) xss" using id_take_nth_drop [OF assms(1)] assms(2) by simp
  have upd: "xss[i := xs] = take i xss @ xs # drop (Suc i) xss" using assms(1) by (simp add: upd_conv_take_nth_drop)
  have c: "concat xss = concat (take i xss) @ ys @ xs @ concat (drop (Suc i) xss)" by (subst split) simp
  have u: "concat (xss[i := xs]) = concat (take i xss) @ xs @ concat (drop (Suc i) xss)" by (simp add: upd)
  show "distinct (concat (xss[i := xs]))" "set (concat (xss[i := xs])) = set (concat xss) - set ys" "set (ys @ xs) \<subseteq> set (concat xss)"
    using assms(3) unfolding c u by auto
qed

lemma distinct_concat_disjoint:
  "distinct (concat xss) \<Longrightarrow> i < length xss \<Longrightarrow> j < length xss \<Longrightarrow> i \<noteq> j \<Longrightarrow> set (xss ! i) \<inter> set (xss ! j) = {}"
proof (induction xss arbitrary: i j)
  case (Cons xs xss)
  then show ?case using nth_mem by (cases i; cases j) fastforce+
qed simp

text \<open>The record of the slot a fetcher works on is its own business.\<close>

lemma fetcher_inv_frame:
  assumes "fetcher_inv src sh f" "\<And>k. k \<in> set (unput f) \<Longrightarrow> rec_of sh' k = rec_of sh k"
  shows "fetcher_inv src sh' f"
  using assms by (auto simp: fetcher_inv_def unput_def split: list.splits put_pc.splits)

lemma fetcher_inv_cong: "rec_of sh' = rec_of sh \<Longrightarrow> fetcher_inv src sh' f = fetcher_inv src sh f"
  using fetcher_inv_frame [of src sh f sh'] fetcher_inv_frame [of src sh' f sh] by auto

lemma drainer_inv_frame:
  assumes "drainer_inv src sh pc" "rb_drainOffset (sh_ring sh') = rb_drainOffset (sh_ring sh)"
    "state_of sh (take_pos pc sh) = slotFilled \<Longrightarrow> state_of sh' (take_pos pc sh) = slotFilled"
  shows "drainer_inv src sh' pc"
proof -
  have P: "take_pos pc sh' = take_pos pc sh" using assms(2) by (simp add: take_pos_def)
  show ?thesis using assms P by (cases pc) (auto simp: drainer_inv_def)
qed

lemma sys_inv_put:
  assumes inv: "sys_inv src s e g" and j: "j < length (rg_fetchers g)"
    and act: "fetcher_act src j (rg_fetchers g ! j) (rg_shared g) = Some (f', sh')"
  shows "sys_inv src s e (g\<lparr>rg_shared := sh', rg_fetchers := (rg_fetchers g)[j := f']\<rparr>)"
proof -
  let ?sh = "rg_shared g" and ?pc = "rg_drainer g" and ?fs = "rg_fetchers g" and ?f = "rg_fetchers g ! j"
  let ?us = "map unput ?fs" and ?P = "take_pos (rg_drainer g) (rg_shared g)"
  have i: "slots_inv src s e ?P (set (concat ?us)) (clearing ?pc) ?sh" "drainer_inv src ?sh ?pc" "distinct (concat ?us)"
    "list_all (fetcher_inv src ?sh) ?fs" "rg_out g @ kept ?pc @ taken ?pc = map (Some \<circ> src) [s..?P - 1]"
    using inv by (simp_all add: sys_inv_def Let_def)
  note d = slots_invD [OF i(1)]
  have nth: "j < length ?us" "?us ! j = unput ?f" using j by simp_all
  have "set (?us ! j) \<subseteq> set (concat ?us)" using concat_update_prefix(3) [OF nth(1) _ i(3), of "[]"] by simp
  then have sub: "set (unput ?f) \<subseteq> set (concat ?us)" unfolding nth(2) .
  have fi: "fetcher_inv src ?sh ?f" using i(4) j by (simp add: list_all_length)
  note step = fetcher_step [OF i(1) sub fi act]
  obtain D where D: "unput ?f = D @ unput f'" "slots_inv src s e ?P (set (concat ?us) - set D) (clearing ?pc) sh'"
    using step(1) by blast
  note upd = concat_update_prefix [OF nth(1) nth(2) [unfolded D(1)] i(3)]
  have us: "map unput (?fs[j := f']) = ?us[j := unput f']" by (simp add: map_update)
  have P: "take_pos ?pc sh' = ?P" using step(3) by (simp add: take_pos_def)
  have frame: "rec_of sh' k = rec_of ?sh k" if "k \<in> set (concat ?us)" "k \<notin> set (unput ?f)" for k
    using step(4) [of k] that d(2-4) d(5) [OF that(1)] by simp
  have "fetcher_inv src sh' ((?fs[j := f']) ! i)" if "i < length ?fs" for i
  proof (cases "i = j")
    case False
    have "set (unput (?fs ! i)) \<inter> set (unput ?f) = {}" using distinct_concat_disjoint [OF i(3), of i j] that j False by simp
    moreover have "set (unput (?fs ! i)) \<subseteq> set (concat ?us)" using that by (auto intro!: bexI [of _ "?fs ! i"])
    ultimately have "rec_of sh' k = rec_of ?sh k" if "k \<in> set (unput (?fs ! i))" for k using frame [of k] that by blast
    moreover have "fetcher_inv src ?sh (?fs ! i)" using i(4) that by (simp add: list_all_length)
    ultimately have "fetcher_inv src sh' (?fs ! i)" by (rule fetcher_inv_frame [rotated])
    with False show ?thesis by simp
  qed (use step(2) that in simp)
  then have fs: "list_all (fetcher_inv src sh') (?fs[j := f'])" by (simp add: list_all_length)
  have "state_of sh' ?P = slotFilled" if filled: "state_of ?sh ?P = slotFilled"
  proof -
    have "?P \<notin> set (unput ?f)" using d(6) [of ?P] sub filled by auto
    moreover have "?P < s + rb_capacity (sh_ring ?sh)" using filled_in_range [OF i(1) filled] d(4) by linarith
    ultimately show ?thesis using step(4) [of ?P] d(2) filled by simp
  qed
  then have "drainer_inv src sh' ?pc" by (rule drainer_inv_frame [OF i(2) step(3)])
  then show ?thesis using D(2) fs upd(1,2) i(5) us P by (simp add: sys_inv_def Let_def del: set_concat)
qed

lemma sys_inv_quiet:
  assumes "sys_inv src s e g" "g' = g\<lparr>rg_shared := sh', rg_closer := pc\<rparr>" "rec_of sh' = rec_of (rg_shared g)" "state_of sh' = state_of (rg_shared g)"
    "rb_drainOffset (sh_ring sh') = rb_drainOffset (sh_ring (rg_shared g))"
    "\<And>P U cl. slots_inv src s e P U cl sh' = slots_inv src s e P U cl (rg_shared g)"
  shows "sys_inv src s e g'"
proof -
  have "take_pos (rg_drainer g) sh' = take_pos (rg_drainer g) (rg_shared g)" using assms(5) by (simp add: take_pos_def)
  moreover have "drainer_inv src sh' (rg_drainer g)"
    using assms(1,4) by (intro drainer_inv_frame [OF _ assms(5)]) (simp_all add: sys_inv_def Let_def)
  ultimately show ?thesis using assms(1,2,6) fetcher_inv_cong [OF assms(3)] by (simp add: sys_inv_def Let_def list_all_iff)
qed

lemma sys_inv_turn:
  assumes "sys_inv src s e g" "take_turn src t g = Some g'"
  shows "sys_inv src s e g'"
proof (cases t)
  case (TurnPut j)
  then show ?thesis using assms sys_inv_put [OF assms(1), of j] by (auto simp: take_turn_def split: if_splits)
next
  case TurnDrain
  then obtain pc' sh' out' where act: "drainer_act (rg_drainer g) (rg_shared g) (rg_out g) = Some (pc', sh', out')"
    and g': "g' = g\<lparr>rg_shared := sh', rg_drainer := pc', rg_out := out'\<rparr>" using assms(2) by (auto simp: take_turn_def)
  let ?U = "set (concat (map unput (rg_fetchers g)))"
  have step: "slots_inv src s e (take_pos pc' sh') ?U (clearing pc') sh' \<and> drainer_inv src sh' pc' \<and>
      out' @ kept pc' @ taken pc' = map (Some \<circ> src) [s..take_pos pc' sh' - 1] \<and> (\<forall>k \<in> ?U. rec_of sh' k = rec_of (rg_shared g) k)"
    using assms(1) by (intro drainer_step [OF _ _ _ act]) (simp_all add: sys_inv_def Let_def)
  have "list_all (fetcher_inv src sh') (rg_fetchers g)"
    using assms(1) step fetcher_inv_frame [of src "rg_shared g"] by (fastforce simp: sys_inv_def Let_def list_all_iff)
  then show ?thesis using assms(1) step g' by (simp add: sys_inv_def Let_def)
next
  case TurnClose
  with assms(2) obtain sh' pc where g': "g' = g\<lparr>rg_shared := sh', rg_closer := pc\<rparr>"
    and close: "close_act (rg_closer g) (rg_shared g) = Some (pc, sh')" by (auto simp: take_turn_def split: if_splits)
  have same: "rec_of sh' = rec_of (rg_shared g)" "state_of sh' = state_of (rg_shared g)"
    "rb_drainOffset (sh_ring sh') = rb_drainOffset (sh_ring (rg_shared g))"
    "slots_inv src s e P U cl sh' = slots_inv src s e P U cl (rg_shared g)" for P U cl
    using close by (cases "rg_closer g"; auto)+
  show ?thesis by (rule sys_inv_quiet [OF assms(1) g' same])
next
  case TurnCancel
  show ?thesis by (rule sys_inv_quiet [OF assms(1), where sh' = "(rg_shared g)\<lparr>sh_ctxErr := Some Canceled\<rparr>" and pc = "rg_closer g"])
    (use TurnCancel assms(2) in \<open>auto simp: take_turn_def\<close>)
qed

lemma sys_inv_reach: "sys_reach src g0 g \<Longrightarrow> sys_inv src s e g0 \<Longrightarrow> sys_inv src s e g"
  by (induction rule: sys_reach.induct) (use sys_inv_turn in blast)+

lemma sys_inv_start:
  assumes "NewOrderedRingBuffer capacity s = Ret rb" "0 < capacity" "e - s \<le> capacity" "s \<le> e"
    "distinct (concat offs)" "\<forall>off \<in> set (concat offs). s \<le> off \<and> off < e"
  shows "sys_inv src s e (start_sys rb offs)"
proof -
  note new = NewOrderedRingBuffer_ok [OF assms(1,2)]
  let ?sh = "\<lparr>sh_ring = rb, sh_lock = None, sh_notify = [], sh_ctxErr = None\<rparr>"
  have "state_of ?sh k = slotEmpty" for k
    using assms(1,2) slotIndex_less [of rb k] by (auto simp: NewOrderedRingBuffer_def state_of_def slot_at_def zero_slot_def split: if_splits)
  moreover have "slots_ok ?sh" using ring_ok_atD(1,2) [OF new(1) [unfolded ring_ok_def]] by (simp add: slots_ok_def)
  ultimately have "slots_inv src s e s (set (concat offs)) False ?sh" using assms(3-6) new(4) by (simp add: slots_inv_def)
  moreover have "unput (os, PutLoad) = os" for os by (simp add: unput_def split: list.splits)
  then have "map unput (map (\<lambda>os. (os, PutLoad)) offs) = offs" by (simp add: comp_def)
  moreover have "fetcher_inv src ?sh (os, PutLoad)" for os by (simp add: fetcher_inv_def split: list.splits)
  ultimately show ?thesis using assms(5) new(2)
    by (simp add: sys_inv_def start_sys_def take_pos_def drainer_inv_def list_all_iff del: set_concat map_map)
qed

section \<open>Properties\<close>

text \<open>
  C7. The lock-free path keeps the order. Let any number of fetchers put distinct offsets of a range that fits into a
  new buffer, while the drainer drains it, the coordinator closes it and the context may be cancelled,
  interleaved at the level of single loads, stores, compare-and-swaps and lock operations. At every moment the
  records that the drainer has been given are the source records from the start of the range on, in offset order,
  none missing and none twice.
\<close>

theorem interleaved_puts_keep_order:
  assumes "NewOrderedRingBuffer capacity s = Ret rb" and "0 < capacity" and "e - s \<le> capacity" and "s \<le> e"
    and "distinct (concat offs)" and "\<forall>off \<in> set (concat offs). s \<le> off \<and> off < e"
    and "sys_reach src (start_sys rb offs) g"
  shows "\<exists>n. rg_out g = map (Some \<circ> src) [s..s + int n - 1] \<and> s + int n \<le> e"
proof -
  have inv: "sys_inv src s e g" using sys_inv_reach [OF assms(7) sys_inv_start [OF assms(1-6)]] .
  let ?P = "take_pos (rg_drainer g) (rg_shared g)" and ?n = "length (rg_out g)"
  have out: "rg_out g @ kept (rg_drainer g) @ taken (rg_drainer g) = map (Some \<circ> src) [s..?P - 1]" and P: "s \<le> ?P" "?P \<le> e"
    using inv slots_invD by (auto simp: sys_inv_def Let_def)
  have "length (map (Some \<circ> src) [s..?P - 1]) \<ge> ?n" unfolding out [symmetric] by simp
  then have n: "s + int ?n \<le> ?P" using P(1) by simp
  have "rg_out g = take ?n (rg_out g @ kept (rg_drainer g) @ taken (rg_drainer g))" by simp
  also have "\<dots> = map (Some \<circ> src) (take ?n [s..?P - 1])" unfolding out by (rule take_map)
  also have "take ?n [s..?P - 1] = [s..s + int ?n - 1]"
    using upto_append [of s "s + int ?n" "?P - 1", symmetric] n by simp
  finally have "rg_out g = map (Some \<circ> src) [s..s + int ?n - 1]" .
  moreover have "s + int ?n \<le> e" using n P(2) by linarith
  ultimately show ?thesis by blast
qed


text \<open>
  C40. A wakeup can be lost. \<open>Put\<close> and \<open>Close\<close> signal without holding the mutex; if they do so after the drainer has seen
  the slot empty and the buffer open, and before it joins the notify list, nobody is there to be woken. For every
  capacity and start there is a schedule of one fetcher with one record after which the record is in the buffer, the
  buffer is closed, and the drainer sleeps for ever: nothing that can still happen gives it the record.
\<close>

theorem lost_wakeup_strands_drainer:
  assumes "NewOrderedRingBuffer capacity s = Ret rb" and "0 < capacity"
  shows "\<exists>g. sys_reach src (start_sys rb [[s]]) g \<and> sh_ring (rg_shared g) = Close (fill_slot s (src s) rb) \<and>
    ring_pending (sh_ring (rg_shared g)) s = Some (src s) \<and>
    (\<forall>g'. sys_reach src g g' \<longrightarrow> rg_out g' = [] \<and> (\<exists>n. rg_drainer g' = DrainAsleep n))"
proof -
  obtain g where g: "run_turns src lost_schedule (start_sys rb [[s]]) = Some g" "asleep_forever g" "rg_out g = []"
    "sh_ring (rg_shared g) = Close (fill_slot s (src s) rb)" using lost_run [OF assms] by blast
  note new = NewOrderedRingBuffer_ok [OF assms]
  have "ring_pending (fill_slot s (src s) rb) s = Some (src s)"
    using ring.put_law [of rb s "src s"] new assms(2) by simp
  then have "ring_pending (sh_ring (rg_shared g)) s = Some (src s)" using g(4) by simp
  moreover have "rg_out g' = [] \<and> (\<exists>n. rg_drainer g' = DrainAsleep n)" if "sys_reach src g g'" for g'
    using asleep_reach [OF that g(2)] g(3) by (simp add: asleep_forever_def)
  moreover have "sys_reach src (start_sys rb [[s]]) g" by (rule run_turns_reach [OF g(1) sys_start])
  ultimately show ?thesis using g(4) by blast
qed

section \<open>Runs\<close>

text \<open>The fourteen operations with which a drainer takes one record and hands it on.\<close>

lemma drain_one_record:
  assumes "slots_ok (rg_shared g)" "rg_drainer g = DrainLoad" "sh_lock (rg_shared g) = None" "sh_ctxErr (rg_shared g) = None"
    "\<not> rb_closed (sh_ring (rg_shared g))" "d = rb_drainOffset (sh_ring (rg_shared g))" "state_of (rg_shared g) d = slotFilled"
    "state_of (rg_shared g) (d + 1) \<noteq> slotFilled" "slotIndex (sh_ring (rg_shared g)) (d + 1) \<noteq> slotIndex (sh_ring (rg_shared g)) d"
  shows "\<exists>sh. run_turns src (replicate 14 TurnDrain) g =
      Some (g\<lparr>rg_shared := sh, rg_drainer := DrainLoad, rg_out := rg_out g @ [rec_of (rg_shared g) d]\<rparr>) \<and>
    rb_drainOffset (sh_ring sh) = d + 1 \<and> slots_ok sh \<and> slotIndex (sh_ring sh) = slotIndex (sh_ring (rg_shared g)) \<and>
    (\<forall>k. slotIndex (sh_ring (rg_shared g)) k = slotIndex (sh_ring (rg_shared g)) d \<longrightarrow> state_of sh k = slotEmpty \<and> rec_of sh k = None) \<and>
    (\<forall>k. slotIndex (sh_ring (rg_shared g)) k \<noteq> slotIndex (sh_ring (rg_shared g)) d \<longrightarrow>
       state_of sh k = state_of (rg_shared g) k \<and> rec_of sh k = rec_of (rg_shared g) k)"
proof -
  let ?sh = "rg_shared g"
  let ?clear = "set_slot d (\<lambda>s. s\<lparr>sl_state := slotEmpty\<rparr>) (set_slot d (\<lambda>s. s\<lparr>sl_record := None\<rparr>) ?sh)"
  have st: "state_of ?clear k = (if slotIndex (sh_ring ?sh) k = slotIndex (sh_ring ?sh) d then slotEmpty else state_of ?sh k)"
    "rec_of ?clear k = (if slotIndex (sh_ring ?sh) k = slotIndex (sh_ring ?sh) d then None else rec_of ?sh k)" for k
    using slot_at_set_slot [OF assms(1)] slot_at_set_slot [of "set_slot d (\<lambda>s. s\<lparr>sl_record := None\<rparr>) ?sh"] assms(1)
    by (auto simp: state_of_def rec_of_def slot_at_set_slot)
  let ?last = "cond_Broadcast (?clear\<lparr>sh_ring := (sh_ring ?clear)\<lparr>rb_drainOffset := d + 1\<rparr>\<rparr>)"
  have "run_turns src (replicate 14 TurnDrain) g = Some (g\<lparr>rg_shared := ?last, rg_drainer := DrainLoad, rg_out := rg_out g @ [rec_of ?sh d]\<rparr>)"
    using assms st(1) by (simp add: eval_nat_numeral take_turn_def drainer_act_def rec_of_def)
  then show ?thesis using st assms(1) by (intro exI [of _ ?last]) simp
qed

theorem interleaved_puts_keep_order_witness:
  "\<exists>g n. sys_reach log_record (start_sys ring4 [[10], [11]]) g \<and> rg_out g = [Some (log_record 10)] \<and>
     rg_out g = map (Some \<circ> log_record) [10..10 + int n - 1]"
proof -
  have new: "NewOrderedRingBuffer 4 10 = Ret ring4" by (simp add: NewOrderedRingBuffer_def ring4_def)
  let ?sh = "\<lparr>sh_ring = ring4, sh_lock = None, sh_notify = [], sh_ctxErr = None\<rparr>"
  let ?g = "(start_sys ring4 [[10], [11]])\<lparr>rg_shared := ?sh\<lparr>sh_ring := fill_slot 10 (log_record 10) ring4\<rparr>, rg_fetchers := [([], PutLoad), ([11], PutLoad)]\<rparr>"
  have ok: "slots_ok ?sh" by (simp add: slots_ok_def ring4_def)
  have empty: "sl_state (slot_at ring4 10) = slotEmpty" by (simp add: ring_eval eval_nat_numeral)
  have put: "run_turns log_record (replicate 6 (TurnPut 0)) (start_sys ring4 [[10], [11]]) = Some ?g"
    using set_slot_fill [OF ok, of 10 "log_record 10"] empty slot_at_same [OF ok]
    by (simp add: eval_nat_numeral take_turn_def fetcher_act_def start_sys_def state_of_def ok cond_Signal_def)
  have "slots_ok (rg_shared ?g)" "state_of (rg_shared ?g) 10 = slotFilled" "state_of (rg_shared ?g) (10 + 1) = slotEmpty"
    "rec_of (rg_shared ?g) 10 = Some (log_record 10)" "slotIndex (sh_ring (rg_shared ?g)) (10 + 1) \<noteq> slotIndex (sh_ring (rg_shared ?g)) 10"
    by (simp_all add: slots_ok_def state_of_def rec_of_def ring_eval eval_nat_numeral)
  moreover have "rg_drainer ?g = DrainLoad" "sh_lock (rg_shared ?g) = None" "sh_ctxErr (rg_shared ?g) = None" "rg_out ?g = []"
    "rb_drainOffset (sh_ring (rg_shared ?g)) = 10" "\<not> rb_closed (sh_ring (rg_shared ?g))"
    by (simp_all add: start_sys_def fill_slot_def ring4_def)
  ultimately obtain g where drain: "run_turns log_record (replicate 14 TurnDrain) ?g = Some g" "rg_out g = [Some (log_record 10)]"
    using drain_one_record [of ?g 10 log_record] by auto
  have reach: "sys_reach log_record (start_sys ring4 [[10], [11]]) g"
    by (rule run_turns_reach [OF drain(1) run_turns_reach [OF put sys_start]])
  from interleaved_puts_keep_order [OF new _ _ _ _ _ reach, of 12]
  have "\<exists>n. rg_out g = map (Some \<circ> log_record) [10..10 + int n - 1] \<and> 10 + int n \<le> 12" by simp
  with reach drain(2) show ?thesis by blast
qed


theorem lost_wakeup_strands_drainer_witness:
  "\<exists>g. sys_reach log_record (start_sys ring4 [[10]]) g \<and> ring_pending (sh_ring (rg_shared g)) 10 = Some (log_record 10)"
  using lost_wakeup_strands_drainer [of 4 10 ring4 log_record] by (auto simp: NewOrderedRingBuffer_def ring4_def)

section \<open>Two puts on one slot\<close>

text \<open>
  Outside the window two fetchers may work on one slot. If the second writes its record between the first's write and
  its compare-and-swap, the first's \<open>Put\<close> reports success for a record that is gone: the drainer is given the second's
  record in its place. The second's compare-and-swap then succeeds too, on a slot the drainer has cleared, and
  leaves a filled slot with no record in it.
\<close>

lemma set_slot_cong: "slotIndex (sh_ring sh) a = slotIndex (sh_ring sh) b \<Longrightarrow> set_slot a f sh = set_slot b f sh"
  by (simp add: set_slot_def slot_at_def)

definition race_schedule :: "turn list" where
  "race_schedule = replicate 3 (TurnPut 0) @ replicate 3 (TurnPut 1) @ replicate 3 (TurnPut 0)"

lemma race_run:
  assumes "NewOrderedRingBuffer capacity s = Ret rb" "1 < capacity"
  shows "\<exists>sh. run_turns src race_schedule (start_sys rb [[s], [s + capacity]]) =
      Some ((start_sys rb [[s], [s + capacity]])\<lparr>rg_shared := sh, rg_fetchers := [([], PutLoad), ([s + capacity], PutCAS)]\<rparr>) \<and>
    slots_ok sh \<and> rb_drainOffset (sh_ring sh) = s \<and> \<not> rb_closed (sh_ring sh) \<and> rb_capacity (sh_ring sh) = capacity \<and>
    sh_lock sh = None \<and> sh_ctxErr sh = None \<and> state_of sh s = slotFilled \<and> rec_of sh s = Some (src (s + capacity)) \<and>
    (\<forall>k. slotIndex rb k \<noteq> slotIndex rb s \<longrightarrow> state_of sh k = slotEmpty \<and> rec_of sh k = None)"
proof -
  have cap: "0 < capacity" using assms(2) by simp
  note new = NewOrderedRingBuffer_ok [OF assms(1) cap]
  let ?sh = "\<lparr>sh_ring = rb, sh_lock = None, sh_notify = [], sh_ctxErr = None\<rparr>"
  have ok: "slots_ok ?sh" using ring_ok_atD(1,2) [OF new(1) [unfolded ring_ok_def]] by (simp add: slots_ok_def)
  have idx: "slotIndex rb (s + capacity) = slotIndex rb s" using new(4) cap by (simp add: slotIndex_mod)
  have empty: "slot_at rb k = zero_slot" "\<not> rb_closed rb" for k
    using assms(1) cap slotIndex_less [of rb k] by (auto simp: NewOrderedRingBuffer_def slot_at_def split: if_splits)
  let ?w = "\<lambda>off r sh. set_slot off (\<lambda>x. x\<lparr>sl_offset := off\<rparr>) (set_slot off (\<lambda>x. x\<lparr>sl_record := Some r\<rparr>) sh)"
  define a where "a = ?w s (src s) ?sh"
  define b where "b = ?w (s + capacity) (src (s + capacity)) a"
  let ?last = "set_slot s (\<lambda>x. x\<lparr>sl_state := slotFilled\<rparr>) b"
  have ok': "slots_ok a" "slots_ok b" "slotIndex (sh_ring a) = slotIndex rb" "slotIndex (sh_ring b) = slotIndex rb" using ok by (simp_all add: a_def b_def)
  have sa: "state_of a k = slotEmpty" for k using ok empty(1) by (simp add: a_def state_of_def slot_at_set_slot zero_slot_def)
  then have sb: "state_of b k = slotEmpty" for k using ok' by (simp add: b_def state_of_def slot_at_set_slot)
  let ?g0 = "start_sys rb [[s], [s + capacity]]"
  have "run_turns src (replicate 3 (TurnPut 0)) ?g0 = Some (?g0\<lparr>rg_shared := a, rg_fetchers := [([s], PutCAS), ([s + capacity], PutLoad)]\<rparr>)"
    using empty(1) by (simp add: eval_nat_numeral take_turn_def fetcher_act_def start_sys_def state_of_def zero_slot_def a_def)
  moreover have "run_turns src (replicate 3 (TurnPut 1)) (?g0\<lparr>rg_shared := a, rg_fetchers := [([s], PutCAS), ([s + capacity], PutLoad)]\<rparr>) =
      Some (?g0\<lparr>rg_shared := b, rg_fetchers := [([s], PutCAS), ([s + capacity], PutCAS)]\<rparr>)"
    using sa by (simp add: eval_nat_numeral take_turn_def fetcher_act_def start_sys_def b_def)
  moreover have "run_turns src (replicate 3 (TurnPut 0)) (?g0\<lparr>rg_shared := b, rg_fetchers := [([s], PutCAS), ([s + capacity], PutCAS)]\<rparr>) =
      Some (?g0\<lparr>rg_shared := cond_Signal ?last, rg_fetchers := [([], PutLoad), ([s + capacity], PutCAS)]\<rparr>)"
    using sb by (simp add: eval_nat_numeral take_turn_def fetcher_act_def start_sys_def)
  ultimately have "run_turns src race_schedule ?g0 =
      Some (?g0\<lparr>rg_shared := cond_Signal ?last, rg_fetchers := [([], PutLoad), ([s + capacity], PutCAS)]\<rparr>)"
    by (simp add: race_schedule_def run_turns_append del: run_turns.simps)
  moreover have "rb_drainOffset (sh_ring ?last) = s" "\<not> rb_closed (sh_ring ?last)" "rb_capacity (sh_ring ?last) = capacity"
    "sh_lock ?last = None" "sh_ctxErr ?last = None" using new(2,4) empty(2) by (simp_all add: a_def b_def)
  moreover have "state_of ?last k = (if slotIndex rb k = slotIndex rb s then slotFilled else slotEmpty)"
    "rec_of ?last k = (if slotIndex rb k = slotIndex rb s then Some (src (s + capacity)) else None)" for k
    using ok ok' empty(1) idx by (simp_all add: state_of_def rec_of_def slot_at_set_slot zero_slot_def b_def a_def)
  ultimately show ?thesis using ok' by (intro exI [of _ "cond_Signal ?last"]) simp
qed

lemma racing_puts_lose_record:
  assumes "NewOrderedRingBuffer capacity s = Ret rb" and "1 < capacity"
  shows "\<exists>g. sys_reach src (start_sys rb [[s], [s + capacity]]) g \<and> rg_fetchers g ! 0 = ([], PutLoad) \<and>
    rg_out g = [Some (src (s + capacity))] \<and> rb_drainOffset (sh_ring (rg_shared g)) = s + 1 \<and>
    rg_fetchers g ! 1 = ([s + capacity], PutSignal) \<and> state_of (rg_shared g) s = slotFilled \<and> (\<forall>k. rec_of (rg_shared g) k = None)"
proof -
  let ?g0 = "start_sys rb [[s], [s + capacity]]"
  have cap: "0 < capacity" using assms(2) by simp
  obtain sh where run: "run_turns src race_schedule ?g0 = Some (?g0\<lparr>rg_shared := sh, rg_fetchers := [([], PutLoad), ([s + capacity], PutCAS)]\<rparr>)"
    and sh: "slots_ok sh" "sh_lock sh = None" "sh_ctxErr sh = None" "state_of sh s = slotFilled" "rec_of sh s = Some (src (s + capacity))"
      "\<forall>k. slotIndex rb k \<noteq> slotIndex rb s \<longrightarrow> state_of sh k = slotEmpty \<and> rec_of sh k = None"
    and ring: "rb_drainOffset (sh_ring sh) = s" "\<not> rb_closed (sh_ring sh)" "rb_capacity (sh_ring sh) = capacity"
    using race_run [OF assms, of src] by blast
  let ?g1 = "?g0\<lparr>rg_shared := sh, rg_fetchers := [([], PutLoad), ([s + capacity], PutCAS)]\<rparr>"
  have "rb_capacity rb = capacity" using NewOrderedRingBuffer_ok(4) [OF assms(1) cap] .
  then have idx: "slotIndex (sh_ring sh) = slotIndex rb" using ring(3) by (simp add: fun_eq_iff slotIndex_def Let_def)
  have next_slot: "slotIndex rb (s + 1) \<noteq> slotIndex rb s"
    using slotIndex_window [of rb s "s + 1" s] assms(2) \<open>rb_capacity rb = capacity\<close> by simp
  obtain sh2 where drain: "run_turns src (replicate 14 TurnDrain) ?g1 =
      Some (?g1\<lparr>rg_shared := sh2, rg_drainer := DrainLoad, rg_out := [Some (src (s + capacity))]\<rparr>)"
    and sh2: "rb_drainOffset (sh_ring sh2) = s + 1" "slots_ok sh2" "slotIndex (sh_ring sh2) = slotIndex rb"
      "\<forall>k. slotIndex rb k = slotIndex rb s \<longrightarrow> state_of sh2 k = slotEmpty \<and> rec_of sh2 k = None"
      "\<forall>k. slotIndex rb k \<noteq> slotIndex rb s \<longrightarrow> state_of sh2 k = state_of sh k \<and> rec_of sh2 k = rec_of sh k"
    using drain_one_record [of ?g1 s src] sh ring(1,2) next_slot by (auto simp: start_sys_def idx)
  let ?g2 = "?g1\<lparr>rg_shared := sh2, rg_drainer := DrainLoad, rg_out := [Some (src (s + capacity))]\<rparr>"
  let ?sh3 = "set_slot (s + capacity) (\<lambda>x. x\<lparr>sl_state := slotFilled\<rparr>) sh2"
  let ?g3 = "?g2\<lparr>rg_shared := ?sh3, rg_fetchers := [([], PutLoad), ([s + capacity], PutSignal)]\<rparr>"
  have clear: "state_of sh2 k = slotEmpty" "rec_of sh2 k = None" for k
    using sh2(4,5) [rule_format, of k] sh(6) [rule_format, of k] by (cases "slotIndex rb k = slotIndex rb s"; simp)+
  have "take_turn src (TurnPut 1) ?g2 = Some ?g3" using clear(1) by (simp add: take_turn_def fetcher_act_def)
  then have "sys_reach src ?g0 ?g3"
    using sys_turn [OF run_turns_reach [OF drain run_turns_reach [OF run sys_start]]] by blast
  moreover have "slotIndex rb (s + capacity) = slotIndex rb s" using cap \<open>rb_capacity rb = capacity\<close> by (simp add: slotIndex_mod)
  then have "state_of ?sh3 s = slotFilled" "rec_of ?sh3 k = None" for k
    using slot_at_set_slot [OF sh2(2)] clear(2) sh2(3) by (simp_all add: state_of_def rec_of_def)
  ultimately show ?thesis using sh2(1) by (intro exI [of _ ?g3]) simp
qed

end
