(* ===== verification/Config_Duration.thy ===== *)
theory Config_Duration
  imports Replication_Config Retry_Breaker
begin

text \<open>
  The \<open>Duration\<close> type of \<open>internal/config/config.go\<close>: durations in the configuration file are texts such as
  \<open>1h30m\<close> or \<open>1.5s\<close>, which \<open>UnmarshalYAML\<close> reads with \<open>time.ParseDuration\<close> and \<open>MarshalYAML\<close> writes with
  \<open>time.Duration.String\<close>. Both functions of the standard library are modelled as they are written there,
  with the unsigned 64-bit sums and the double-precision product of the fraction. The theory shows that a
  duration that was written is read back unchanged.
\<close>

section \<open>Reading\<close>

definition is_digit :: "char \<Rightarrow> bool" where
  "is_digit c \<longleftrightarrow> (let n = (of_char c :: nat) in 48 \<le> n \<and> n \<le> 57)"

fun leadingInt :: "nat \<Rightarrow> string \<Rightarrow> (nat \<times> string) option" where
  "leadingInt x [] = Some (x, [])"
| "leadingInt x (c # cs) =
     (if \<not> is_digit c then Some (x, c # cs)
      else if x > 2 ^ 63 div 10 then None
      else let x' = x * 10 + digit_val c in if x' > 2 ^ 63 then None else leadingInt x' cs)"

text \<open>The digits after the point: their value, their number (the scale is that power of ten), and the rest.\<close>

fun leadingFraction :: "nat \<Rightarrow> nat \<Rightarrow> bool \<Rightarrow> string \<Rightarrow> nat \<times> nat \<times> string" where
  "leadingFraction x k overflow [] = (x, k, [])"
| "leadingFraction x k overflow (c # cs) =
     (if \<not> is_digit c then (x, k, c # cs)
      else if overflow \<or> x > (2 ^ 63 - 1) div 10 then leadingFraction x k True cs
      else let y = x * 10 + digit_val c
           in if y > 2 ^ 63 then leadingFraction x k True cs else leadingFraction y (Suc k) False cs)"

definition unitMap :: "(string \<times> nat) list" where
  "unitMap = [(''ns'', 1), (''us'', 1000), ([CHR 0xC2, CHR 0xB5, CHR ''s''], 1000), ([CHR 0xCE, CHR 0xBC, CHR ''s''], 1000),
     (''ms'', 1000000), (''s'', 1000000000), (''m'', 60 * 1000000000), (''h'', 3600 * 1000000000)]"

text \<open>
  \<open>uint64(float64(f) * (float64(unit) / scale))\<close>. \<open>round53 a b\<close> is \<open>a / b\<close> rounded to 53 significant bits, ties to
  even, when that is at least \<open>2^53\<close>; quotient and product are kept as multiples of \<open>2^-117\<close>, which is
  enough because the scale has at most 19 digits.
\<close>

definition round53 :: "nat \<Rightarrow> nat \<Rightarrow> nat" where
  "round53 a b =
     (let e = sig_exp (a div b); c = b * 2 ^ e; q = a div c; r = a mod c
      in (if 2 * r > c \<or> 2 * r = c \<and> odd q then q + 1 else q) * 2 ^ e)"

definition fraction_part :: "nat \<Rightarrow> nat \<Rightarrow> nat \<Rightarrow> nat" where
  "fraction_part f unit k = float64_nat (float64_nat f * round53 (unit * 2 ^ 117) (10 ^ k)) div 2 ^ 117"

definition invalid_duration :: "string \<Rightarrow> go_error" where
  "invalid_duration orig = Errorf ''time: invalid duration %q'' [orig]"

text \<open>One number with its unit: the sum so far and the rest of the text.\<close>

definition parse_piece :: "string \<Rightarrow> nat \<Rightarrow> string \<Rightarrow> go_error + nat \<times> string" where
  "parse_piece orig d s =
     (if \<not> (hd s = CHR ''.'' \<or> is_digit (hd s)) then Inl (invalid_duration orig)
      else case leadingInt 0 s of
        None \<Rightarrow> Inl (invalid_duration orig)
      | Some (v, s1) \<Rightarrow>
          let pre = length s \<noteq> length s1;
              (f, k, s2, post) =
                (if s1 \<noteq> [] \<and> hd s1 = CHR ''.''
                 then let (f, k, s2) = leadingFraction 0 0 False (tl s1) in (f, k, s2, length (tl s1) \<noteq> length s2)
                 else (0, 0, s1, False));
              u = takeWhile (\<lambda>c. c \<noteq> CHR ''.'' \<and> \<not> is_digit c) s2;
              s3 = dropWhile (\<lambda>c. c \<noteq> CHR ''.'' \<and> \<not> is_digit c) s2
          in if \<not> pre \<and> \<not> post then Inl (invalid_duration orig)
             else if u = [] then Inl (Errorf ''time: missing unit in duration %q'' [orig])
             else (case map_of unitMap u of
                None \<Rightarrow> Inl (Errorf ''time: unknown unit %q in duration %q'' [u, orig])
              | Some unit \<Rightarrow>
                  if v > 2 ^ 63 div unit then Inl (invalid_duration orig)
                  else let v = v * unit; v = (if f > 0 then v + fraction_part f unit k else v)
                       in if f > 0 \<and> v > 2 ^ 63 then Inl (invalid_duration orig)
                          else let d = (d + v) mod 2 ^ 64
                               in if d > 2 ^ 63 then Inl (invalid_duration orig) else Inr (d, s3)))"

lemma leadingInt_length: "leadingInt x s = Some (v, t) \<Longrightarrow> length t \<le> length s"
  by (induction x s rule: leadingInt.induct) (auto simp: Let_def split: if_splits)

lemma leadingFraction_length: "leadingFraction x k ov s = (v, k', t) \<Longrightarrow> length t \<le> length s"
  by (induction x k ov s rule: leadingFraction.induct) (auto simp: Let_def split: if_splits)

lemma parse_piece_shorter:
  assumes "parse_piece orig d s = Inr (d', t)"
  shows "length t < length s"
proof -
  obtain v s1 where i: "leadingInt 0 s = Some (v, s1)" using assms by (auto simp: parse_piece_def split: if_splits option.splits)
  define frac where "frac = (if s1 \<noteq> [] \<and> hd s1 = CHR ''.''
    then let (f, k, s2) = leadingFraction 0 0 False (tl s1) in (f, k, s2, length (tl s1) \<noteq> length s2) else (0, 0, s1, False))"
  obtain f k s2 post where fr: "frac = (f, k, s2, post)" by (cases frac)
  let ?P = "\<lambda>c. c \<noteq> CHR ''.'' \<and> \<not> is_digit c"
  have s2: "length s2 \<le> length s1"
    using fr by (auto simp: frac_def dest!: leadingFraction_length split: if_splits prod.splits)
  have "takeWhile ?P s2 \<noteq> []" "t = dropWhile ?P s2"
    using assms i fr unfolding frac_def
    by (auto simp: parse_piece_def Let_def split: if_splits option.splits prod.splits)
  moreover have "length (takeWhile ?P s2) + length (dropWhile ?P s2) = length s2"
    by (metis length_append takeWhile_dropWhile_id)
  ultimately show ?thesis using s2 leadingInt_length [OF i] by (cases "takeWhile ?P s2") auto
qed

function parse_pieces :: "string \<Rightarrow> nat \<Rightarrow> string \<Rightarrow> go_error + nat" where
  "parse_pieces orig d s =
     (if s = [] then Inr d
      else case parse_piece orig d s of Inl err \<Rightarrow> Inl err | Inr (d', t) \<Rightarrow> parse_pieces orig d' t)"
  by pat_completeness auto
termination
  by (relation "measure (\<lambda>(orig, d, s). length s)") (auto dest: parse_piece_shorter)

declare parse_pieces.simps [simp del]

definition ParseDuration :: "string \<Rightarrow> go_error + int" where
  "ParseDuration orig =
     (let signed = (orig \<noteq> [] \<and> hd orig \<in> {CHR ''-'', CHR ''+''});
          neg = (signed \<and> hd orig = CHR ''-'');
          s = (if signed then tl orig else orig)
      in if s = ''0'' then Inr 0
         else if s = [] then Inl (invalid_duration orig)
         else case parse_pieces orig 0 s of
             Inl err \<Rightarrow> Inl err
           | Inr d \<Rightarrow> if neg then Inr (- int d) else if d > 2 ^ 63 - 1 then Inl (invalid_duration orig) else Inr (int d))"

text \<open>\<open>decoded\<close> is what \<open>value.Decode(&s)\<close> yields for the node.\<close>

definition Duration_UnmarshalYAML :: "go_error + string \<Rightarrow> go_error + int" where
  "Duration_UnmarshalYAML decoded =
     (case decoded of
        Inl err \<Rightarrow> Inl err
      | Inr s \<Rightarrow> (case ParseDuration s of Inl err \<Rightarrow> Inl (Wrapf ''invalid duration %q: %w'' [s] err) | Inr dur \<Rightarrow> Inr dur))"

section \<open>Writing\<close>

text \<open>The last \<open>n\<close> digits of a number as a fraction without trailing zeros, in front of \<open>acc\<close>, and the other digits.\<close>

fun fmtFrac :: "nat \<Rightarrow> nat \<Rightarrow> bool \<Rightarrow> string \<Rightarrow> string \<times> nat" where
  "fmtFrac 0 v print acc = (if print then CHR ''.'' # acc else acc, v)"
| "fmtFrac (Suc n) v print acc =
     (let digit = v mod 10; print = (print \<or> digit \<noteq> 0)
      in fmtFrac n (v div 10) print (if print then digit_char digit # acc else acc))"

definition format_small :: "nat \<Rightarrow> string" where
  "format_small u =
     (if u = 0 then ''0s''
      else let (prec, unit) = (if u < 1000 then (0, ''ns'') else if u < 1000000 then (3, [CHR 0xC2, CHR 0xB5, CHR ''s'']) else (6, ''ms''));
               (frac, u) = fmtFrac prec u False []
           in nat_digits u @ frac @ unit)"

definition format_large :: "nat \<Rightarrow> string" where
  "format_large u =
     (let (frac, u) = fmtFrac 9 u False [];
          secs = nat_digits (u mod 60) @ frac @ ''s'';
          u = u div 60
      in if u = 0 then secs
         else let mins = nat_digits (u mod 60) @ ''m''; u = u div 60
              in if u = 0 then mins @ secs else nat_digits u @ ''h'' @ mins @ secs)"

definition Duration_String :: "int \<Rightarrow> string" where
  "Duration_String d =
     (let u = nat \<bar>d\<bar>
      in (if d < 0 then ''-'' else []) @ (if u < 1000000000 then format_small u else format_large u))"

definition Duration_MarshalYAML :: "int \<Rightarrow> go_error + string" where
  "Duration_MarshalYAML d = Inr (Duration_String d)"

section \<open>Lemmas: rounding is exact where the writer goes\<close>

lemma sig_exp_le: "m < 2 ^ 53 \<Longrightarrow> sig_exp (m * 2 ^ j) \<le> j"
proof (induction j)
  case 0
  then show ?case by (subst sig_exp.simps) simp
next
  case (Suc j)
  have "m * 2 ^ Suc j div 2 = m * 2 ^ j" by simp
  with Suc show ?case by (subst sig_exp.simps) simp
qed

lemma float64_nat_exact: "m < 2 ^ 53 \<Longrightarrow> float64_nat (m * 2 ^ j) = m * 2 ^ j"
proof -
  assume "m < 2 ^ 53"
  then have "2 ^ sig_exp (m * 2 ^ j) dvd m * 2 ^ j" using sig_exp_le [of m j] by (simp add: dvd_mult le_imp_power_dvd)
  then show ?thesis by (auto simp: float64_nat_def Let_def elim: dvdE)
qed

lemma round53_exact:
  assumes "m < 2 ^ 53" "0 < b"
  shows "round53 (m * b * 2 ^ j) b = m * 2 ^ j"
proof -
  have q: "m * b * 2 ^ j div b = m * 2 ^ j" using assms(2) by (simp add: mult.commute mult.left_commute)
  define e where "e = sig_exp (m * 2 ^ j)"
  obtain c where c: "m * 2 ^ j = 2 ^ e * c" using sig_exp_le [OF assms(1), of j] unfolding e_def by (metis dvdE dvd_mult le_imp_power_dvd)
  have "m * b * 2 ^ j = b * 2 ^ e * c" by (metis c mult.assoc mult.commute)
  moreover have "b * 2 ^ e * c div (b * 2 ^ e) = c" "b * 2 ^ e * c mod (b * 2 ^ e) = 0" using assms(2) by simp_all
  ultimately have dm: "m * b * 2 ^ j div (b * 2 ^ e) = c" "m * b * 2 ^ j mod (b * 2 ^ e) = 0" by (simp_all only:)
  have "sig_exp (m * b * 2 ^ j div b) = e" by (simp only: q e_def)
  then have "round53 (m * b * 2 ^ j) b = c * 2 ^ e" using assms(2) by (simp only: round53_def Let_def dm) simp
  with c show ?thesis by (simp add: mult.commute)
qed

lemma fraction_part_exact:
  assumes "unit = p * 10 ^ k" "f * p < 2 ^ 53" "0 < f"
  shows "fraction_part f unit k = f * p"
proof -
  have "p \<le> f * p" using assms(3) by simp
  then have p: "p < 2 ^ 53" using assms(2) by (rule le_less_trans)
  then have q: "round53 (unit * 2 ^ 117) (10 ^ k) = p * 2 ^ 117" using round53_exact [of p "10 ^ k" 117] assms(1) by simp
  have prod: "float64_nat f * (p * 2 ^ 117) = f * p * 2 ^ 117"
  proof (cases "p = 0")
    case False
    then have "f \<le> f * p" by simp
    then have "float64_nat f = f" using assms(2) by (intro float64_nat_small) (rule le_less_trans)
    then show ?thesis by (simp only: mult.assoc)
  qed simp
  show ?thesis unfolding fraction_part_def q prod float64_nat_exact [OF assms(2)] by simp
qed

section \<open>Lemmas: reading digits\<close>

definition all_digits :: "string \<Rightarrow> bool" where
  "all_digits ds \<longleftrightarrow> list_all is_digit ds"

definition digits_from :: "nat \<Rightarrow> string \<Rightarrow> nat" where
  "digits_from = foldl (\<lambda>a c. 10 * a + digit_val c)"

lemma digits_from_simps [simp]: "digits_from x [] = x" "digits_from x (c # cs) = digits_from (10 * x + digit_val c) cs"
  by (simp_all add: digits_from_def)

lemma digits_from_val: "digits_from 0 ds = digits_val ds"
  by (simp add: digits_from_def digits_val_def)

lemma digits_from_ge: "10 ^ length ds * x \<le> digits_from x ds"
proof (induction ds arbitrary: x)
  case (Cons c cs)
  have "10 ^ length (c # cs) * x = 10 ^ length cs * (10 * x)" by simp
  also have "\<dots> \<le> 10 ^ length cs * (10 * x + digit_val c)" by simp
  also have "\<dots> \<le> digits_from (10 * x + digit_val c) cs" by (rule Cons)
  finally show ?case by simp
qed simp

lemma digits_from_mono: "x \<le> digits_from x ds"
  using digits_from_ge [where ds = ds and x = x] by (metis mult_le_mono1 nat_mult_1 one_le_numeral one_le_power order_trans)

definition no_digit_first :: "string \<Rightarrow> bool" where
  "no_digit_first t \<longleftrightarrow> t = [] \<or> \<not> is_digit (hd t)"

lemma leadingInt_digits:
  assumes "all_digits ds" "no_digit_first t" "digits_from x ds \<le> 2 ^ 63"
  shows "leadingInt x (ds @ t) = Some (digits_from x ds, t)"
  using assms
proof (induction ds arbitrary: x)
  case Nil
  then show ?case by (cases t) (auto simp: no_digit_first_def)
next
  case (Cons c cs)
  have le: "10 * x + digit_val c \<le> 2 ^ 63" using digits_from_mono [of "10 * x + digit_val c" cs] Cons.prems(3) by simp
  then have "x \<le> 2 ^ 63 div 10" by simp
  with le Cons show ?case by (simp add: all_digits_def mult.commute Let_def)
qed

lemma leadingFraction_digits:
  assumes "all_digits ds" "no_digit_first t" "digits_from x ds \<le> 2 ^ 63 - 1"
  shows "leadingFraction x k False (ds @ t) = (digits_from x ds, k + length ds, t)"
  using assms
proof (induction ds arbitrary: x k)
  case Nil
  then show ?case by (cases t) (auto simp: no_digit_first_def)
next
  case (Cons c cs)
  have le: "10 * x + digit_val c \<le> 2 ^ 63 - 1" using digits_from_mono [of "10 * x + digit_val c" cs] Cons.prems(3) by simp
  then have "x \<le> (2 ^ 63 - 1) div 10" by simp
  with le Cons show ?case by (simp add: all_digits_def mult.commute Let_def)
qed

lemma all_digits_nat [simp]: "all_digits (nat_digits n)"
  using nat_digits_chars by (fastforce simp: all_digits_def list_all_iff is_digit_def Let_def)

lemma hd_nat_digits: "is_digit (hd (nat_digits n))"
  using all_digits_nat [of n] by (cases "nat_digits n") (simp_all add: all_digits_def)

section \<open>Lemmas: reading what was written\<close>

definition unit_text :: "string \<Rightarrow> nat \<Rightarrow> bool" where
  "unit_text u unit \<longleftrightarrow> map_of unitMap u = Some unit \<and> u \<noteq> [] \<and> list_all (\<lambda>c. c \<noteq> CHR ''.'' \<and> \<not> is_digit c) u \<and> 0 < unit"

text \<open>A fraction as the writer leaves it: nothing, or a point and digits.\<close>

definition frac_text :: "string \<Rightarrow> nat \<Rightarrow> nat \<Rightarrow> bool" where
  "frac_text fr unit F \<longleftrightarrow> fr = [] \<and> F = 0 \<or>
     (\<exists>ds. fr = CHR ''.'' # ds \<and> all_digits ds \<and> ds \<noteq> [] \<and> digits_val ds \<le> 2 ^ 63 - 1 \<and> 0 < digits_val ds \<and>
        F = fraction_part (digits_val ds) unit (length ds))"

lemma unit_split:
  assumes "unit_text u unit" "rest = [] \<or> is_digit (hd rest)"
  shows "takeWhile (\<lambda>c. c \<noteq> CHR ''.'' \<and> \<not> is_digit c) (u @ rest) = u" "dropWhile (\<lambda>c. c \<noteq> CHR ''.'' \<and> \<not> is_digit c) (u @ rest) = rest"
proof -
  have "takeWhile (\<lambda>c. c \<noteq> CHR ''.'' \<and> \<not> is_digit c) rest = []" "dropWhile (\<lambda>c. c \<noteq> CHR ''.'' \<and> \<not> is_digit c) rest = rest"
    using assms(2) by (cases rest; simp)+
  then show "takeWhile (\<lambda>c. c \<noteq> CHR ''.'' \<and> \<not> is_digit c) (u @ rest) = u" "dropWhile (\<lambda>c. c \<noteq> CHR ''.'' \<and> \<not> is_digit c) (u @ rest) = rest"
    using assms(1) by (simp_all add: unit_text_def takeWhile_append dropWhile_append list_all_iff)
qed

lemma parse_piece_text:
  assumes u: "unit_text u unit" "rest = [] \<or> is_digit (hd rest)" and fr: "frac_text fr unit F" and le: "d + v * unit + F \<le> 2 ^ 63"
  shows "parse_piece orig d (nat_digits v @ fr @ u @ rest) = Inr (d + v * unit + F, rest)"
proof -
  have unit: "map_of unitMap u = Some unit" "0 < unit" "u \<noteq> []" "hd u \<noteq> CHR ''.''" "\<not> is_digit (hd u)"
    using u(1) by (cases u; simp add: unit_text_def)+
  have v: "v * unit \<le> 2 ^ 63" using le by linarith
  have "v \<le> v * unit" using unit(2) by simp
  then have "v \<le> 2 ^ 63" using v by (rule order_trans)
  then have v63: "digits_from 0 (nat_digits v) \<le> 2 ^ 63" by (simp add: digits_from_val)
  have vdiv: "\<not> v > 2 ^ 63 div unit" using v unit(2) by (simp add: less_eq_div_iff_mult_less_eq not_less)
  have first: "is_digit (hd (nat_digits v @ fr @ u @ rest))" using hd_nat_digits by simp
  have point: "\<not> is_digit (CHR ''.'')" by (simp add: is_digit_def)
  have "no_digit_first (fr @ u @ rest)" using fr unit(3,5) point by (auto simp: no_digit_first_def frac_text_def)
  then have int: "leadingInt 0 (nat_digits v @ fr @ u @ rest) = Some (v, fr @ u @ rest)"
    using leadingInt_digits [OF all_digits_nat _ v63] by (simp add: digits_from_val)
  have pre: "length (nat_digits v @ fr @ u @ rest) \<noteq> length (fr @ u @ rest)" by simp
  have sum: "(d + (v * unit + F)) mod 2 ^ 64 = d + (v * unit + F)" "\<not> d + (v * unit + F) > 2 ^ 63" "\<not> v * unit + F > 2 ^ 63" using le by simp_all
  show ?thesis
  proof (cases "fr = []")
    case True
    then have "F = 0" using fr by (simp add: frac_text_def)
    then show ?thesis
      using True first int pre unit(1,3,4) vdiv sum unit_split [OF u] by (simp add: parse_piece_def add.assoc)
  next
    case False
    then obtain ds where ds: "fr = CHR ''.'' # ds" "all_digits ds" "ds \<noteq> []" "digits_val ds \<le> 2 ^ 63 - 1" "0 < digits_val ds"
      "F = fraction_part (digits_val ds) unit (length ds)" using fr by (auto simp: frac_text_def)
    have "no_digit_first (u @ rest)" using unit(3,5) by (simp add: no_digit_first_def)
    then have "leadingFraction 0 0 False (ds @ u @ rest) = (digits_val ds, length ds, u @ rest)"
      using leadingFraction_digits [OF ds(2), of "u @ rest" 0 0] ds(4) by (simp add: digits_from_val)
    then show ?thesis
      using ds(1,3,5,6) first int pre unit(1,3) vdiv sum unit_split [OF u] by (simp add: parse_piece_def add.assoc)
  qed
qed

lemma parse_pieces_text:
  assumes "unit_text u unit" "rest = [] \<or> is_digit (hd rest)" "frac_text fr unit F" "d + v * unit + F \<le> 2 ^ 63"
  shows "parse_pieces orig d (nat_digits v @ fr @ u @ rest) = parse_pieces orig (d + v * unit + F) rest"
  by (subst parse_pieces.simps) (simp add: parse_piece_text [OF assms])

lemma parse_pieces_Nil [simp]: "parse_pieces orig d [] = Inr d"
  by (subst parse_pieces.simps) simp

lemma digit_char_is_digit: "n < 10 \<Longrightarrow> is_digit (digit_char n)"
  using digit_char_range [of n] by (simp add: is_digit_def)

lemma fmtFrac_printing:
  "\<exists>es. fmtFrac n v True ds = (CHR ''.'' # es @ ds, v div 10 ^ n) \<and> all_digits es \<and> length es = n \<and> digits_val es = v mod 10 ^ n"
proof (induction n arbitrary: v ds)
  case 0
  then show ?case by (simp add: all_digits_def digits_val_def)
next
  case (Suc n)
  obtain es where es: "fmtFrac n (v div 10) True (digit_char (v mod 10) # ds) = (CHR ''.'' # es @ digit_char (v mod 10) # ds, v div 10 div 10 ^ n)"
    "all_digits es" "length es = n" "digits_val es = v div 10 mod 10 ^ n" using Suc by blast
  have "v mod 10 ^ Suc n = 10 * (v div 10 mod 10 ^ n) + v mod 10" by (simp add: mod_mult2_eq)
  then show ?case using es digit_char_is_digit [of "v mod 10"]
    by (intro exI [of _ "es @ [digit_char (v mod 10)]"]) (simp add: all_digits_def div_mult2_eq)
qed

lemma fmtFrac_start:
  "fmtFrac n v False [] = (fr, w) \<Longrightarrow> w = v div 10 ^ n \<and> (v mod 10 ^ n = 0 \<and> fr = [] \<or>
     (\<exists>ds. fr = CHR ''.'' # ds \<and> all_digits ds \<and> ds \<noteq> [] \<and> length ds \<le> n \<and> digits_val ds * 10 ^ (n - length ds) = v mod 10 ^ n \<and> 0 < digits_val ds))"
proof (induction n arbitrary: v)
  case (Suc n)
  have split: "v mod 10 ^ Suc n = 10 * (v div 10 mod 10 ^ n) + v mod 10" by (simp add: mod_mult2_eq)
  show ?case
  proof (cases "v mod 10 = 0")
    case True
    then have "fmtFrac n (v div 10) False [] = (fr, w)" using Suc.prems by simp
    from Suc.IH [OF this] True split show ?thesis
      by (auto simp: div_mult2_eq Suc_diff_le)
  next
    case False
    obtain es where "fmtFrac n (v div 10) True [digit_char (v mod 10)] = (CHR ''.'' # es @ [digit_char (v mod 10)], v div 10 div 10 ^ n)"
      "all_digits es" "length es = n" "digits_val es = v div 10 mod 10 ^ n" using fmtFrac_printing by blast
    with False Suc.prems split digit_char_is_digit [of "v mod 10"] show ?thesis by (auto simp: all_digits_def div_mult2_eq)
  qed
qed simp

lemma fmtFrac_text:
  assumes "fmtFrac n v False [] = (fr, w)" "n \<le> 9"
  shows "frac_text fr (10 ^ n) (v mod 10 ^ n)" "w = v div 10 ^ n"
proof -
  note start = fmtFrac_start [OF assms(1)]
  then show "w = v div 10 ^ n" by blast
  have "(10 :: nat) ^ n \<le> 10 ^ 9" using assms(2) by (intro power_increasing) simp_all
  moreover have "v mod 10 ^ n < 10 ^ n" by simp
  ultimately have small: "v mod 10 ^ n < 10 ^ 9" by linarith
  show "frac_text fr (10 ^ n) (v mod 10 ^ n)"
  proof (cases "fr = []")
    case True
    then show ?thesis using start by (auto simp: frac_text_def)
  next
    case False
    then obtain ds where ds: "fr = CHR ''.'' # ds" "all_digits ds" "ds \<noteq> []" "length ds \<le> n"
      "digits_val ds * 10 ^ (n - length ds) = v mod 10 ^ n" "0 < digits_val ds" using start by auto
    have "(10 :: nat) ^ n = 10 ^ (n - length ds) * 10 ^ length ds" using ds(4) by (simp flip: power_add)
    moreover have "digits_val ds * 10 ^ (n - length ds) < 2 ^ 53" unfolding ds(5) using small by simp
    ultimately have "fraction_part (digits_val ds) (10 ^ n) (length ds) = v mod 10 ^ n"
      using fraction_part_exact [of "10 ^ n" "10 ^ (n - length ds)" "length ds" "digits_val ds"] ds(5,6) by simp
    moreover have "digits_val ds \<le> digits_val ds * 10 ^ (n - length ds)" by simp
    then have "digits_val ds \<le> 2 ^ 63 - 1" unfolding ds(5) using small by simp
    ultimately show ?thesis using ds(1-3,6) by (auto simp: frac_text_def)
  qed
qed

lemma unit_texts:
  "unit_text ''ns'' 1" "unit_text [CHR 0xC2, CHR 0xB5, CHR ''s''] (10 ^ 3)" "unit_text ''ms'' (10 ^ 6)" "unit_text ''s'' (10 ^ 9)"
  "unit_text ''m'' 60000000000" "unit_text ''h'' 3600000000000"
  by (simp_all add: unit_text_def unitMap_def is_digit_def)

lemma frac_text_Nil: "frac_text [] unit 0"
  by (simp add: frac_text_def)

lemma parse_last:
  assumes "fmtFrac n v False [] = (fr, w)" "n \<le> 9" "unit_text u (10 ^ n)" "d + w' * 10 ^ n + v mod 10 ^ n \<le> 2 ^ 63"
  shows "parse_pieces orig d (nat_digits w' @ fr @ u) = Inr (d + w' * 10 ^ n + v mod 10 ^ n)"
  using parse_pieces_text [OF assms(3) _ fmtFrac_text(1) [OF assms(1,2)] assms(4), of "[]" orig] by simp

lemma parse_format_small:
  assumes "u < 1000000000"
  shows "parse_pieces orig 0 (format_small u) = Inr u"
proof (cases "u = 0")
  case True
  have "(of_char (CHR ''0'') :: nat) = 48" by simp
  then have "digit_char 0 = CHR ''0''" unfolding digit_char_def by (metis add_0_right char_of_char)
  then have "nat_digits 0 = ''0''" by (subst nat_digits.simps) simp
  then have "format_small u = nat_digits 0 @ [] @ ''s''" using True by (simp add: format_small_def)
  then show ?thesis
    using parse_pieces_text [OF unit_texts(4) _ frac_text_Nil, of "[]" 0 0 orig] True by simp
next
  case False
  define n where "n = (if u < 1000 then 0 else if u < 1000000 then 3 else 6 :: nat)"
  define unit where "unit = (if u < 1000 then ''ns'' else if u < 1000000 then [CHR 0xC2, CHR 0xB5, CHR ''s''] else ''ms'')"
  obtain fr w where fr: "fmtFrac n u False [] = (fr, w)" by (cases "fmtFrac n u False []")
  have n: "n \<le> 9" "unit_text unit (10 ^ n)" using unit_texts(1-3) by (auto simp: n_def unit_def)
  have form: "format_small u = nat_digits w @ fr @ unit" using False fr by (auto simp: format_small_def n_def unit_def)
  have sum: "w * 10 ^ n + u mod 10 ^ n = u" using fmtFrac_text(2) [OF fr n(1)] by (simp only: div_mult_mod_eq)
  then have "0 + w * 10 ^ n + u mod 10 ^ n \<le> 2 ^ 63" using assms by simp
  from parse_last [OF fr n this] sum form show ?thesis by simp
qed

lemma parse_format_large:
  assumes "u \<le> 2 ^ 63"
  shows "parse_pieces orig 0 (format_large u) = Inr u"
proof -
  obtain fr secs where fr: "fmtFrac 9 u False [] = (fr, secs)" by (cases "fmtFrac 9 u False []")
  let ?S = "secs mod 60" and ?M = "secs div 60 mod 60" and ?H = "secs div 60 div 60"
  have secs: "secs * 10 ^ 9 + u mod 10 ^ 9 = u" using fmtFrac_text(2) [OF fr] by simp
  have hms: "secs = ?H * 3600 + ?M * 60 + ?S"
    using div_mult_mod_eq [of secs 60] div_mult_mod_eq [of "secs div 60" 60] by linarith
  have sum: "?H * 3600000000000 + ?M * 60000000000 + ?S * 10 ^ 9 + u mod 10 ^ 9 = u"
    using secs arg_cong [OF hms, of "\<lambda>s. s * 10 ^ 9"] by simp
  have last: "parse_pieces orig d (nat_digits ?S @ fr @ ''s'') = Inr (d + ?S * 10 ^ 9 + u mod 10 ^ 9)"
    if "d + ?S * 10 ^ 9 + u mod 10 ^ 9 \<le> 2 ^ 63" for d
    using parse_last [OF fr _ unit_texts(4) that] by simp
  have mins: "parse_pieces orig d (nat_digits ?M @ ''m'' @ nat_digits ?S @ fr @ ''s'') = Inr (d + ?M * 60000000000 + ?S * 10 ^ 9 + u mod 10 ^ 9)"
    if "d + ?M * 60000000000 + ?S * 10 ^ 9 + u mod 10 ^ 9 \<le> 2 ^ 63" for d
    using parse_pieces_text [OF unit_texts(5) _ frac_text_Nil, of "nat_digits ?S @ fr @ ''s''" d ?M orig] hd_nat_digits that last by simp
  have hours: "parse_pieces orig 0 (nat_digits ?H @ ''h'' @ nat_digits ?M @ ''m'' @ nat_digits ?S @ fr @ ''s'') = Inr u"
    using parse_pieces_text [OF unit_texts(6) _ frac_text_Nil, of "nat_digits ?M @ ''m'' @ nat_digits ?S @ fr @ ''s''" 0 ?H orig]
      hd_nat_digits mins [of "?H * 3600000000000"] sum assms by simp
  show ?thesis
  proof (cases "secs div 60 = 0")
    case True
    then have "?S * 10 ^ 9 + u mod 10 ^ 9 = u" using sum by simp
    with True fr last [of 0] assms show ?thesis by (simp add: format_large_def Let_def)
  next
    case False
    show ?thesis
    proof (cases "?H = 0")
      case True
      then have "?M * 60000000000 + ?S * 10 ^ 9 + u mod 10 ^ 9 = u" using sum by simp
      with False True fr mins [of 0] assms show ?thesis by (simp add: format_large_def Let_def)
    next
      case H: False
      with False fr hours show ?thesis by (simp add: format_large_def Let_def)
    qed
  qed
qed

lemma format_first: "format_small u \<noteq> []" "is_digit (hd (format_small u))" "format_large u \<noteq> []" "is_digit (hd (format_large u))"
proof -
  have "is_digit (hd (nat_digits n @ t))" "nat_digits n @ t \<noteq> []" for n t using hd_nat_digits by simp_all
  note nat_first = this
  show "format_small u \<noteq> []" by (auto simp: format_small_def Let_def split: prod.splits)
  show "is_digit (hd (format_small u))"
    using nat_first(1) by (auto simp: format_small_def Let_def is_digit_def [of "CHR ''0''"] split: prod.splits)
  show "format_large u \<noteq> []" by (auto simp: format_large_def Let_def split: prod.splits)
  show "is_digit (hd (format_large u))" using nat_first(1) by (auto simp: format_large_def Let_def split: prod.splits)
qed

section \<open>Property\<close>

text \<open>
  C31. Durations survive the configuration file: for every 64-bit duration, negative and extreme ones and fractions of
  every size included, reading what \<open>MarshalYAML\<close> writes gives the same duration. In particular neither the
  overflow checks nor the rounding of the double-precision product ever touch a text that the program wrote.
\<close>

theorem duration_roundtrip:
  assumes "- (2 ^ 63) \<le> d" and "d < 2 ^ 63"
  shows "Duration_UnmarshalYAML (Duration_MarshalYAML d) = Inr d"
proof -
  define u where "u = nat \<bar>d\<bar>"
  define t where "t = (if u < 1000000000 then format_small u else format_large u)"
  have u63: "u \<le> 2 ^ 63" using assms by (simp add: u_def)
  have parse: "parse_pieces orig 0 t = Inr u" for orig using u63 parse_format_small parse_format_large by (simp add: t_def)
  have t: "t \<noteq> []" "is_digit (hd t)" using format_first by (simp_all add: t_def)
  then have sign: "hd t \<noteq> CHR ''-''" "hd t \<noteq> CHR ''+''" by (auto simp: is_digit_def)
  have "parse_pieces [] 0 ''0'' \<noteq> Inr u" by (subst parse_pieces.simps) (simp add: parse_piece_def is_digit_def digit_val_def)
  then have zero: "t \<noteq> ''0''" using parse by metis
  have str: "Duration_String d = (if d < 0 then ''-'' else []) @ t" by (simp add: Duration_String_def u_def t_def Let_def)
  have "ParseDuration (Duration_String d) = Inr d"
  proof (cases "d < 0")
    case True
    then show ?thesis using t zero parse by (simp add: ParseDuration_def str u_def)
  next
    case False
    moreover have "\<not> u > 2 ^ 63 - 1" using assms(2) False by (simp add: u_def)
    ultimately show ?thesis using t zero sign parse by (simp add: ParseDuration_def str u_def)
  qed
  then show ?thesis by (simp add: Duration_UnmarshalYAML_def Duration_MarshalYAML_def)
qed

theorem duration_roundtrip_witness:
  "Duration_UnmarshalYAML (Duration_MarshalYAML (- (2 ^ 63))) = Inr (- (2 ^ 63)) \<and> Duration_UnmarshalYAML (Duration_MarshalYAML 1500000) = Inr 1500000"
  using duration_roundtrip [of "- (2 ^ 63)"] duration_roundtrip [of 1500000] by simp

text \<open>
  What is accepted is not always meant: two pieces of \<open>2^63\<close> nanoseconds add up to \<open>2^64\<close>, which wraps to zero in
  the unsigned sum and passes the overflow check.
\<close>

lemma duration_overflow_accepted: "ParseDuration ''9223372036854775808ns9223372036854775808ns'' = Inr 0"
  by (simp add: ParseDuration_def parse_pieces.simps parse_piece_def is_digit_def digit_val_def unitMap_def Let_def)

end
