(* ===== verification/Display_Strings.thy ===== *)
theory Display_Strings
  imports Sync_Store
begin

text \<open>
  The \<open>String\<close> methods that print more than their fields: \<open>Heartbeat.String\<close>
  (\<open>pkg/types/types.go\<close>), which formats a time as RFC 3339, and \<open>SyncStore.String\<close>
  (\<open>internal/offset/sync_store.go\<close>). The calendar of Go's \<open>time\<close> package is modelled as it computes
  (400-, 100-, 4- and 1-year cycles since the first of January of year 1) and shown to be the
  proleptic Gregorian calendar.
\<close>

section \<open>Dates and times of Go's standard library\<close>

definition is_leap :: "int \<Rightarrow> bool" where
  "is_leap y \<longleftrightarrow> y mod 4 = 0 \<and> (y mod 100 \<noteq> 0 \<or> y mod 400 = 0)"

text \<open>
  The year and the day of the year, both counted as in \<open>time.Time.abs\<close>: \<open>d\<close> is the number of days
  since the beginning of year 1. The correction \<open>n - n div 4\<close> keeps the last day of a cycle in the
  cycle.
\<close>

definition year_yday :: "int \<Rightarrow> int \<times> int" where
  "year_yday d =
     (let n400 = d div 146097; d = d - 146097 * n400;
          n100 = d div 36524; n100 = n100 - n100 div 4; d = d - 36524 * n100;
          n4 = d div 1461; d = d - 1461 * n4;
          n1 = d div 365; n1 = n1 - n1 div 4; d = d - 365 * n1
      in (400 * n400 + 100 * n100 + 4 * n4 + n1 + 1, d))"

definition daysBefore :: "int list" where
  "daysBefore = [0, 31, 59, 90, 120, 151, 181, 212, 243, 273, 304, 334, 365]"

definition month_day :: "bool \<Rightarrow> int \<Rightarrow> int \<times> int" where
  "month_day leap yday =
     (if leap \<and> yday = 59 then (2, 29)
      else let day = (if leap \<and> 59 < yday then yday - 1 else yday);
               month = nat (day div 31);
               upper = daysBefore ! (month + 1)
           in if upper \<le> day then (int month + 2, day - upper + 1)
              else (int month + 1, day - daysBefore ! month + 1))"

text \<open>\<open>appendInt\<close>: a number padded with zeros to a width.\<close>

definition appendInt :: "int \<Rightarrow> nat \<Rightarrow> string" where
  "appendInt x w =
     (let ds = nat_digits (nat \<bar>x\<bar>)
      in (if x < 0 then ''-'' else '''') @ replicate (w - length ds) (CHR ''0'') @ ds)"

text \<open>
  \<open>Format(time.RFC3339)\<close> of the instant \<open>ns\<close> (nanoseconds since 1970) in a location that is \<open>zone\<close>
  seconds ahead of UTC; 719162 days lie between the first of January of the years 1 and 1970.
\<close>

definition format_zone :: "int \<Rightarrow> string" where
  "format_zone zone =
     (if zone = 0 then ''Z''
      else let minutes = \<bar>go_div zone 60\<bar>
           in (if go_div zone 60 < 0 then ''-'' else ''+'') @ appendInt (minutes div 60) 2 @ '':''
              @ appendInt (minutes mod 60) 2)"

definition Format_RFC3339 :: "int \<Rightarrow> int \<Rightarrow> string" where
  "Format_RFC3339 zone ns =
     (let secs = ns div 1000000000 + zone;
          (year, yday) = year_yday (secs div 86400 + 719162);
          (month, day) = month_day (is_leap year) yday;
          sec = secs mod 86400
      in appendInt year 4 @ ''-'' @ appendInt month 2 @ ''-'' @ appendInt day 2 @ ''T''
         @ appendInt (sec div 3600) 2 @ '':'' @ appendInt (sec mod 3600 div 60) 2 @ '':''
         @ appendInt (sec mod 60) 2 @ format_zone zone)"

section \<open>The methods\<close>

text \<open>The location of the timestamp is the argument \<open>zone\<close>.\<close>

definition Heartbeat_String :: "int \<Rightarrow> Heartbeat \<Rightarrow> string" where
  "Heartbeat_String zone h =
     ''Heartbeat{source='' @ hb_source h @ '', target='' @ hb_target h @ '', ts=''
       @ Format_RFC3339 zone (hb_timestamp h) @ ''}''"

text \<open>\<open>len\<close> of the map; every reachable store has finitely many partitions.\<close>

definition SyncStore_String :: "SyncStore \<Rightarrow> string" where
  "SyncStore_String s =
     ''SyncStore{partitions='' @ itoa (int (card (dom (ss_syncs s)))) @ '', ready=''
       @ (if ss_readToEnd s then ''true'' else ''false'') @ ''}''"

section \<open>Lemmas\<close>

text \<open>The specification: the days before a year of the Gregorian calendar.\<close>

definition days_before_year :: "int \<Rightarrow> int" where
  "days_before_year y = 365 * (y - 1) + (y - 1) div 4 - (y - 1) div 100 + (y - 1) div 400"

lemma div_pred:
  fixes k :: int
  assumes "1 < k"
  shows "y div k = (y - 1) div k + (if y mod k = 0 then 1 else 0)"
proof (cases "y mod k = 0")
  case True
  have "(y - 1) div k = y div k - 1"
    using assms True by (intro int_div_pos_eq [where r = "k - 1"]) (auto simp: right_diff_distrib)
  then show ?thesis using True by simp
next
  case False
  have "y = k * (y div k) + y mod k" "0 \<le> y mod k" "y mod k < k" using assms by auto
  then have "(y - 1) div k = y div k" using False by (intro int_div_pos_eq [where r = "y mod k - 1"]) auto
  then show ?thesis using False by simp
qed

lemma mod_4_100_400: "(y :: int) mod 100 = 0 \<Longrightarrow> y mod 4 = 0" "(y :: int) mod 400 = 0 \<Longrightarrow> y mod 100 = 0"
  using dvd_trans [of 4 100 y] dvd_trans [of 100 400 y] by (simp_all only: mod_eq_0_iff_dvd) simp_all

lemma days_before_next_year:
  "days_before_year (y + 1) = days_before_year y + (if is_leap y then 366 else 365)"
proof -
  have sums: "365 * y + (a + i) - (b + j) + (c + k) = (365 * (y - 1) + a - b + c) + (365 + i - j + k)"
    for a b c i j k :: int by simp
  have leap: "365 + (if y mod 4 = 0 then 1 else 0) - (if y mod 100 = 0 then 1 else 0)
      + (if y mod 400 = 0 then 1 else 0) = (if is_leap y then 366 else 365 :: int)"
    using mod_4_100_400 [of y] by (cases "y mod 4 = 0"; cases "y mod 100 = 0"; cases "y mod 400 = 0")
      (simp_all add: is_leap_def)
  have eqs: "y div 4 = (y - 1) div 4 + (if y mod 4 = 0 then 1 else 0)"
    "y div 100 = (y - 1) div 100 + (if y mod 100 = 0 then 1 else 0)"
    "y div 400 = (y - 1) div 400 + (if y mod 400 = 0 then 1 else 0)"
    by (rule div_pred; simp)+
  show ?thesis
    unfolding days_before_year_def add_diff_cancel_right' eqs sums leap ..
qed

text \<open>One level of the cycles: \<open>n\<close> is the cycle of length \<open>c\<close>, at most the fourth one.\<close>

lemma cycle_digit:
  fixes d c :: int
  assumes "0 \<le> d" "d \<le> 4 * c" "0 < c" and n: "n = d div c - d div c div 4"
  shows "0 \<le> n \<and> n \<le> 3 \<and> 0 \<le> d - c * n \<and> d - c * n \<le> c \<and> (n < 3 \<longrightarrow> d - c * n < c)
    \<and> (d < 4 * c \<longrightarrow> d - c * n < c)"
proof (cases "d = 4 * c")
  case True
  then show ?thesis using assms by simp
next
  case False
  have "0 \<le> d div c" using assms by (simp add: pos_imp_zdiv_nonneg_iff)
  moreover have "d div c < 4"
  proof (rule ccontr)
    assume "\<not> d div c < 4"
    then have "c * 4 \<le> c * (d div c)" using assms(3) by (intro mult_left_mono) auto
    also have "\<dots> \<le> d" using pos_mod_sign [OF assms(3), of d] mult_div_mod_eq [of c d] by linarith
    finally show False using assms(2) False by simp
  qed
  ultimately have "n = d div c" "0 \<le> n" "n \<le> 3" using n by auto
  moreover have "d - c * (d div c) = d mod c" by (simp add: minus_mult_div_eq_mod)
  ultimately show ?thesis using assms(3) by (simp add: less_imp_le)
qed

lemma mod_zero_top:
  fixes r k :: int
  assumes "0 < r" "r \<le> k"
  shows "r mod k = 0 \<longleftrightarrow> r = k"
  using assms by (cases "r = k") (auto simp: mod_pos_pos_trivial)

lemma gregorian_parts:
  assumes "0 \<le> b" "b \<le> 3" "0 \<le> c" "c \<le> 24" "0 \<le> e" "e \<le> 3"
  shows "days_before_year (400 * a + 100 * b + 4 * c + e + 1) = 146097 * a + 36524 * b + 1461 * c + 365 * e"
    and "is_leap (400 * a + 100 * b + 4 * c + e + 1) \<longleftrightarrow> e = 3 \<and> (c < 24 \<or> b = 3)"
proof -
  let ?y = "400 * a + 100 * b + 4 * c + e"
  have "?y div 400 = a" using assms by (intro int_div_pos_eq [where r = "100 * b + 4 * c + e"]) auto
  moreover have "?y div 100 = 4 * a + b" using assms by (intro int_div_pos_eq [where r = "4 * c + e"]) auto
  moreover have "?y div 4 = 100 * a + 25 * b + c" using assms by (intro int_div_pos_eq [where r = e]) auto
  ultimately show "days_before_year (?y + 1) = 146097 * a + 36524 * b + 1461 * c + 365 * e"
    by (simp only: days_before_year_def add_diff_cancel_right') simp
  have "(?y + 1) mod 4 = 0 \<longleftrightarrow> e = 3"
  proof -
    have "(?y + 1) mod 4 = (e + 1) mod 4"
      using mod_mult_self2 [of "e + 1" 4 "100 * a + 25 * b + c"] by (simp add: algebra_simps)
    moreover have "(e + 1) mod 4 = 0 \<longleftrightarrow> e + 1 = 4" using assms by (intro mod_zero_top) linarith+
    ultimately show ?thesis by auto
  qed
  moreover have "(?y + 1) mod 100 = 0 \<longleftrightarrow> e = 3 \<and> c = 24"
  proof -
    have "(?y + 1) mod 100 = (4 * c + e + 1) mod 100"
      using mod_mult_self2 [of "4 * c + e + 1" 100 "4 * a + b"] by (simp add: algebra_simps)
    moreover have "4 * c + e + 1 = 100 \<longleftrightarrow> e = 3 \<and> c = 24" using assms by linarith
    moreover have "(4 * c + e + 1) mod 100 = 0 \<longleftrightarrow> 4 * c + e + 1 = 100" using assms by (intro mod_zero_top) linarith+
    ultimately show ?thesis by metis
  qed
  moreover have "(?y + 1) mod 400 = 0 \<longleftrightarrow> e = 3 \<and> c = 24 \<and> b = 3"
  proof -
    have "(?y + 1) mod 400 = (100 * b + 4 * c + e + 1) mod 400"
      using mod_mult_self2 [of "100 * b + 4 * c + e + 1" 400 a] by (simp add: algebra_simps)
    moreover have "100 * b + 4 * c + e + 1 = 400 \<longleftrightarrow> e = 3 \<and> c = 24 \<and> b = 3" using assms by linarith
    moreover have "(100 * b + 4 * c + e + 1) mod 400 = 0 \<longleftrightarrow> 100 * b + 4 * c + e + 1 = 400" using assms by (intro mod_zero_top) linarith+
    ultimately show ?thesis by metis
  qed
  ultimately show "is_leap (?y + 1) \<longleftrightarrow> e = 3 \<and> (c < 24 \<or> b = 3)"
    using assms unfolding is_leap_def by auto
qed

text \<open>
  The computed year contains the day: the days before the year and the day of the year add up to
  the day, and the day of the year is in range.
\<close>

lemma year_yday_gregorian:
  assumes "year_yday d = (y, yday)"
  shows "days_before_year y + yday = d \<and> 0 \<le> yday \<and> yday < (if is_leap y then 366 else 365)"
proof -
  define a where "a = d div 146097"
  define d1 where "d1 = d - 146097 * a"
  define b where "b = d1 div 36524 - d1 div 36524 div 4"
  define d2 where "d2 = d1 - 36524 * b"
  define c where "c = d2 div 1461"
  define d3 where "d3 = d2 - 1461 * c"
  define e where "e = d3 div 365 - d3 div 365 div 4"
  note ds = a_def d1_def b_def d2_def c_def d3_def e_def
  have y: "y = 400 * a + 100 * b + 4 * c + e + 1" and yd: "yday = d3 - 365 * e"
    using assms by (simp_all only: year_yday_def Let_def prod.inject flip: ds)
  have "d1 = d mod 146097" by (simp add: d1_def a_def minus_mult_div_eq_mod)
  then have d1: "0 \<le> d1" "d1 \<le> 4 * 36524" using pos_mod_sign [of 146097 d] pos_mod_bound [of 146097 d] by auto
  have b: "0 \<le> b" "b \<le> 3" "0 \<le> d2" "d2 \<le> 36524" "b < 3 \<longrightarrow> d2 < 36524"
    using cycle_digit [OF d1 _ b_def] by (simp_all add: d2_def)
  have "d3 = d2 mod 1461" by (simp add: d3_def c_def minus_mult_div_eq_mod)
  then have d3: "0 \<le> d3" "d3 \<le> 4 * 365" using pos_mod_sign [of 1461 d2] pos_mod_bound [of 1461 d2] by auto
  have d2: "d2 = 1461 * c + d3" by (simp add: d3_def)
  have c: "0 \<le> c" "c \<le> 24" using b(3,4) d3 d2 by linarith+
  have e: "0 \<le> e" "e \<le> 3" "0 \<le> yday" "yday \<le> 365" "e < 3 \<longrightarrow> yday < 365" "d3 < 1460 \<longrightarrow> yday < 365"
    using cycle_digit [OF d3 _ e_def] by (simp_all add: yd)
  have "days_before_year y = 146097 * a + 36524 * b + 1461 * c + 365 * e"
    using gregorian_parts(1) [OF b(1,2) c e(1,2), of a] y by simp
  then have days: "days_before_year y + yday = d" using yd d2 d2_def d1_def by linarith
  have "yday < 365" if "\<not> is_leap y"
    using that gregorian_parts(2) [OF b(1,2) c e(1,2), of a] b(2,5) c d2 e y by auto
  then show ?thesis using days e by auto
qed

text \<open>The month and the day of the month, for every day of a year.\<close>

definition days_in_month :: "bool \<Rightarrow> int \<Rightarrow> int" where
  "days_in_month leap m = (if m = 2 then (if leap then 29 else 28) else if m \<in> {4, 6, 9, 11} then 30 else 31)"

definition days_before_month :: "bool \<Rightarrow> int \<Rightarrow> int" where
  "days_before_month leap m = sum_list (map (days_in_month leap) [1..m - 1])"

lemma month_day_calendar_check:
  "\<forall>leap \<in> {True, False}. list_all (\<lambda>yday. case month_day leap yday of (m, d) \<Rightarrow>
     1 \<le> m \<and> m \<le> 12 \<and> 1 \<le> d \<and> d \<le> days_in_month leap m \<and> days_before_month leap m + d - 1 = yday)
     [0..if leap then 365 else 364]"
  by code_simp

lemma month_day_calendar:
  assumes "0 \<le> yday" "yday < (if leap then 366 else 365)" "month_day leap yday = (m, d)"
  shows "1 \<le> m \<and> m \<le> 12 \<and> 1 \<le> d \<and> d \<le> days_in_month leap m \<and> days_before_month leap m + d - 1 = yday"
  using bspec [OF month_day_calendar_check, of leap] assms by (force simp: list_all_iff split: if_splits)

lemma heartbeat_string_example:
  "Heartbeat_String 0 \<lparr>hb_source = ''a'', hb_target = ''b'', hb_timestamp = 951782399999999999\<rparr>
     = ''Heartbeat{source=a, target=b, ts=2000-02-28T23:59:59Z}''"
  "Heartbeat_String (- 12600) \<lparr>hb_source = ''a'', hb_target = ''b'', hb_timestamp = 951782400000000000\<rparr>
     = ''Heartbeat{source=a, target=b, ts=2000-02-28T20:30:00-03:30}''"
  by code_simp+

lemma sync_store_string_example: "SyncStore_String NewSyncStore = ''SyncStore{partitions=0, ready=false}''"
  by (simp add: SyncStore_String_def NewSyncStore_def itoa_def nat_digits.simps digit_char_def) code_simp

end
