(* ===== verification/Spec2Isabelle.thy ===== *)
theory Spec2Isabelle
  imports Gomm2_Main Flow_Translation Source_Restarts Catch_Up_Order Ring_Concurrency Config_Duration Display_Strings
begin

text \<open>
  \<^bold>\<open>gomm2: a verification library\<close>

  gomm2 copies topics between Kafka clusters. A configuration names clusters and replication flows
  \<open>source -> target\<close>. For every enabled flow the engine (\<open>internal/mirror/engine.go\<close>) builds five
  components: a source replicator that consumes from the source cluster and produces to the target,
  a dead letter queue, a heartbeat emitter, a checkpoint emitter and a topic discovery. A source
  tells an offset sync store which target offset a source offset became; the store translates the
  committed offsets of consumer groups for the checkpoint emitter; the syncs are persisted in a
  compacted topic by a writer and read back by a reader, at start and then continuously. Before the
  sources start, partitions that lag far behind are copied by parallel fetchers that meet in a ring
  buffer. The command line (\<open>cmd/gomm2/main.go\<close>) loads and validates the configuration and runs the
  engine.

  \<^bold>\<open>Conventions.\<close> Definitions keep the Go names; a name with a method's receiver in front resolves a
  clash (\<open>TopicFilter_ShouldReplicate\<close>). A struct is a record with a field prefix, an interface with
  several implementations is a datatype. Offsets are 64-bit words where the code computes with
  them and the wrap-around can be reached (\<open>Sync_Store\<close>, the lags of \<open>Mirror_Engine\<close>, the encodings), and
  integers where the code only compares and counts (the ring buffer, the segments). Go strings are
  byte lists. A Go \<open>error\<close> is a value of \<open>go_error\<close> that keeps the format and its arguments. A call that can
  panic has type \<open>outcome\<close>: \<open>Ret\<close>, \<open>Fail\<close> or \<open>Panic\<close>. Objects that are shared by pointers in the engine
  are list entries and a pointer is an index. Everything outside the repository is an argument: the
  Kafka client and admin requests (what a poll returns, how a produce ends, whether a client can be
  created), regular expressions (\<open>compile\<close>, \<open>match\<close>), the YAML decoder, files, environment, clock, random numbers.

  \<^bold>\<open>Theories\<close>, in the order of their imports.

  \<^item> \<open>Mirror_Prelude\<close>: Go types, errors, outcomes, division and string functions; facts on
    words, lists and prefixes.
  \<^item> \<open>Component_Lifecycle\<close>: what the engine expects of \<open>Start\<close> and \<open>Stop\<close>, as the interface \<open>lifecycle\<close> with four
    interpretations (source, heartbeat emitter, checkpoint emitter, topic discovery), and the loop that starts a list.
  \<^item> \<open>Wire_Types\<close> (\<open>pkg/types/types.go\<close>): offset syncs, heartbeats, checkpoints and their byte
    encodings. Encoding and decoding are inverse on what each accepts (C26, C27); the only keys
    on which the decoder panics are those whose 16-bit length field wraps (C34).
  \<^item> \<open>Sync_Store\<close> (\<open>internal/offset/sync_store.go\<close>): the 64 slots per partition, \<open>HandleSync\<close> with its
    repair loop, \<open>TranslateDownstream\<close>. The interface \<open>offset_translator\<close> states what a client of the store
    may rely on and is interpreted on the store. A translation never points past an unread record
    (C1) and is monotone (C19); the slots are sorted and exponentially bounded (C3), and every offset since the
    first sync stays translatable with an error that grows with its age only (C11).
  \<^item> \<open>Display_Strings\<close>: \<open>Heartbeat.String\<close> with the RFC 3339 format of a time, whose calendar is shown to be the
    Gregorian one, and \<open>SyncStore.String\<close>.
  \<^item> \<open>Kafka_Types\<close>: records and polls of the client library.
  \<^item> \<open>Replication_Policy\<close> (\<open>internal/policy/replication.go\<close>): names of remote and internal topics. \<open>cycle_free_policy\<close>
    is the contract by which discovery avoids cycles; the default policy satisfies it. Remote names can be taken apart (\<open>default_policy_roundtrip\<close>).
  \<^item> \<open>Topic_Filter\<close> (\<open>internal/filter/topic.go\<close>): the three filters, one interface \<open>list_filter\<close> with
    three interpretations; \<open>topic_filter_decision\<close> says the decision by the pattern sets.
  \<^item> \<open>Replication_Config\<close> (\<open>internal/config/config.go\<close>): the configuration tree, environment expansion, loading,
    validation and defaults, which complete every flow and change no verdict (C32). \<open>Config_Duration\<close>: the YAML methods of
    \<open>Duration\<close> with the duration syntax of Go's standard library; what is written is read back (C31).
  \<^item> \<open>Client_Builder\<close> (\<open>internal/kafka/builder.go\<close>, \<open>internal/config/sasl.go\<close>): connection options; a client is
    never less protected than configured (C29).
  \<^item> \<open>Metrics_Registry\<close> (\<open>internal/metrics/metrics.go\<close>): metric vectors with their labels; a call with the wrong
    number of labels panics.
  \<^item> \<open>Dead_Letter\<close> (\<open>internal/mirror/dlq.go\<close>) and \<open>Retry_Breaker\<close> (\<open>internal/mirror/retry.go\<close>): the result
    of a retry (C23), the bounds of the backoff (C24), the life of a circuit breaker.
  \<^item> \<open>Admin_Client\<close> (\<open>internal/admin/client.go\<close>, \<open>internal/admin/topic_sync.go\<close>): admin operations as functions
    of the answers; the configuration sync converges (C28).
  \<^item> \<open>Sync_Topic\<close> (\<open>internal/offset/sync_reader.go\<close>, \<open>sync_writer.go\<close>): what a writer persisted a reader recovers (C14);
    an older sync echoed by the follower wipes the history (C37).
  \<^item> \<open>Source_Replicator\<close> (\<open>internal/mirror/source.go\<close>): life cycle and the replication loop as the step relation
    \<open>loop_step\<close>, in which polls, produce callbacks, retries, sync writes, metric flushes and commits interleave in
    every order. A committed record was handled (C4), every polled record is accounted for (C12); the
    commit after a skipped one covers lost records (C35) and the metrics flush panics (C36).
  \<^item> \<open>Source_Restarts\<close>: many runs of the source, each from the committed positions and ending in a crash anywhere or by
    \<open>Stop\<close>. Copying is at least once: no committed position passes a record that was neither delivered nor given up (C5).
  \<^item> \<open>Ring_Buffer\<close> (\<open>internal/mirror/ring_buffer.go\<close>): the abstract \<open>ordered_buffer\<close> is a window of a log; the
    slots refine it as long as puts stay in the window (C8), \<open>DrainBatch\<close> takes the longest
    run, and outside of the window order is lost (\<open>out_of_window_put_overtakes\<close>). \<open>Ring_Concurrency\<close>: the same code as
    transitions of single atomic operations, with the mutex and the notify list of the condition variable. Interleaved
    puts of one window are drained in order (C7), a call that is not disturbed has the effect of the
    function of \<open>Ring_Buffer\<close> (C18), a signal can be lost (C40), and two puts that race for a slot lose a record.
  \<^item> \<open>Parallel_Source\<close> and \<open>Catch_Up_Pipeline\<close> (\<open>internal/mirror/parallel_source.go\<close>): segments, fetcher (C25), drainer;
    \<open>catchup_step\<close> interleaves the fetchers, drainers, produce callbacks and coordinators of all partitions of a
    topic on the shared producer and metrics. \<open>Catch_Up_Order\<close>: a range that fits into the buffer is produced completely
    and in order under every interleaving (C6) and its calls do not block (C16); whatever the range, every record is accounted
    for (C13); a longer range can be reordered (C38), and a catch-up that drained anything panics at its final
    flush (\<open>catch_up_never_completes\<close>).
  \<^item> \<open>Topic_Discovery\<close> (\<open>internal/mirror/topic_discovery.go\<close>): a round mirrors exactly the replicable topics (C21) and
    never mirrors a mirrored or internal topic (C22).
  \<^item> \<open>Checkpoint_Emitter\<close>, \<open>Heartbeat_Emitter\<close> (\<open>internal/mirror/checkpoint.go\<close>, \<open>heartbeat.go\<close>): loops, records,
    callbacks.
  \<^item> \<open>Flow_Translation\<close>: replicator, sync writer, follower, store and checkpoint emitter of one flow together. While a
    flow delivers in order no checkpoint (C2) and no translation after a restart (C10) skips a record; a retry that lands
    behind its successor breaks this (C39).
  \<^item> \<open>Mirror_Engine\<close>, \<open>Engine_Run\<close> (\<open>internal/mirror/engine.go\<close>): construction, the start in phases, the catch-up
    selection, shutdown, the HTTP routes and readiness; \<open>engine_reach\<close> is every history of starts, shutdowns and changes of
    the shared state. The wiring invariant (C9), what a start needs and leaves (C15, C17), which configurations build (C33),
    the ranges of the catch-up (C20); flows that share a key and the catch-up's view of the topic filter are lemmas.
  \<^item> \<open>Gomm2_Main\<close> (\<open>cmd/gomm2/main.go\<close>): \<open>main\<close> and \<open>runValidate\<close>; only a valid configuration is served (C30).

  \<^bold>\<open>Loops, bounds and fuel.\<close> There is no fuel. A loop over polls recurses on the list of polls that
  happen; \<open>None\<close> is the loop that is still polling when they are used up, and C15, C25 and the lemma
  \<open>read_to_end_returns\<close> say when it returns. The repair loop of the store, the retry loop and the duration parser have a
  termination measure (64 slots, the number of retries, the rest of the text). Constants of the code appear as such: 64
  slots, the lag threshold 100000, ten consecutive poll errors, batches of 512 records. A blocked \<open>Put\<close> or \<open>DrainBatch\<close> is
  the value \<open>Ret (None, rb)\<close>, from which another goroutine's step continues.

  \<^bold>\<open>Concurrency.\<close> A call under a mutex and an atomic operation are one step each; goroutines are the rules of the step
  relations \<open>loop_step\<close>, \<open>service\<close>, \<open>catchup_step\<close>, \<open>sys_reach\<close> and \<open>engine_reach\<close>, and the theorems hold for every
  interleaving of them. \<open>catchup_step\<close> takes a \<open>Put\<close> or \<open>DrainBatch\<close> as one step. This is what \<open>Ring_Concurrency\<close> looks
  into: for distinct offsets of one window the atomic operations drain the same log (C7), and the lost signal and the
  lost record are the behaviours that the coarser steps do not have.

  \<^bold>\<open>Not modelled.\<close> Logging, the HTTP server and its listener, signal delivery and Prometheus exposition are library
  calls without influence on the modelled state; progress and throughput figures of the catch-up go to the log only. The
  YAML decoder is an argument of \<open>Load\<close>. \<open>Close\<close> of a Kafka client has no effect in the model beyond the closed flag
  that later calls look at.
\<close>

end
